(* ===== verification/DP_Prelude.thy ===== *)
theory DP_Prelude
  imports Main "HOL-Library.Word" "HOL-Library.Monad_Syntax"
begin

text \<open>
  Shared vocabulary of the development. A C function that can leave the bounds of an object
  (an array, a packet buffer, a string) is modelled with an \<open>option\<close> result: \<^term>\<open>None\<close> is
  an access outside the object, so a theorem that a result is \<open>Some\<close> is a memory-safety theorem.
  Byte buffers are lists of 8-bit words. The theory also holds the generic facts about lists,
  options, bounded searches and machine words that the component theories share.
\<close>

unbundle bit_operations_syntax

type_synonym byte = "8 word"
type_synonym u16 = "16 word"
type_synonym u32 = "32 word"
type_synonym bytes = "8 word list"

text \<open>Collections of facts: bounds of buffer reads, and definitions unfolded when a witness is
  evaluated.\<close>
named_theorems read_bounds
named_theorems dp_eval

subsection \<open>First match in a range of indices\<close>

lemma find_append_orelse:
  "find P (xs @ ys) = (case find P xs of None \<Rightarrow> find P ys | Some x \<Rightarrow> Some x)"
  by (induction xs) auto

lemma find_upt_Some_iff:
  "find P [a..<b] = Some i \<longleftrightarrow> a \<le> i \<and> i < b \<and> P i \<and> (\<forall>j. a \<le> j \<and> j < i \<longrightarrow> \<not> P j)"
proof (induction b)
  case (Suc b)
  show ?case
  proof (cases "a \<le> b")
    case True
    then show ?thesis
      using Suc by (auto simp: find_append_orelse less_Suc_eq find_None_iff split: option.splits)
        (auto simp: find_Some_iff)
  qed auto
qed simp

lemma find_SomeD: "find P xs = Some x \<Longrightarrow> x \<in> set xs \<and> P x"
  by (induction xs) (auto split: if_splits)

lemma find_upt_None_iff: "find P [a..<b] = None \<longleftrightarrow> (\<forall>j. a \<le> j \<and> j < b \<longrightarrow> \<not> P j)"
  by (auto simp: find_None_iff)

lemma upt_split: "a \<le> b \<Longrightarrow> b \<le> c \<Longrightarrow> [a..<c] = [a..<b] @ [b..<c]"
  by (metis le_Suc_ex upt_add_eq_append)

lemma find_filter_hd: "find P xs = (case filter P xs of [] \<Rightarrow> None | y # _ \<Rightarrow> Some y)"
  by (induction xs) auto

lemma find_map: "find P (map f xs) = map_option f (find (P \<circ> f) xs)"
  by (induction xs) auto

lemma find_cong_set: "(\<And>x. x \<in> set xs \<Longrightarrow> P x = Q x) \<Longrightarrow> find P xs = find Q xs"
  by (induction xs) auto

subsection \<open>Machine words\<close>

lemma unat_less_pow: "unat (x :: 'a::len word) < 2 ^ LENGTH('a)"
  by (rule unsigned_less)

lemma unat8_lt: "unat (x :: byte) < 256"
  using unat_less_pow[of x] by simp

lemma unat16_lt: "unat (x :: u16) < 65536"
  using unat_less_pow[of x] by simp

lemma unat32_lt: "unat (x :: u32) < 4294967296"
  using unat_less_pow[of x] by simp

lemmas unat_bounds = unat8_lt unat16_lt unat32_lt

lemma unat_minus_swap: "(x :: 'a::len word) \<noteq> 0 \<Longrightarrow> unat (- x) = 2 ^ LENGTH('a) - unat x"
  using unat_sub_if'[of 0 x] by (auto simp: unat_gt_0)

lemma bit_word_uint: "bit (x :: 'a::len word) i = bit (uint x) i"
  by (simp add: bit_uint_iff) (metis bit_imp_le_length)

end
