(* ===== verification/DP_Tree.thy ===== *)
theory DP_Tree
  imports DP_Prelude "HOL-Library.Tree" "HOL-Library.Multiset"
begin

text \<open>
  The search tree of \<open>utils/tree.c\<close>. A subtree is a \<^typ>\<open>'a tree\<close>; a node pointer, from which the C code
  reaches the parent and the arm the node hangs on, is a location: the subtree of the node and the
  list of ancestors, nearest first, each with its other subtree. \<^term>\<open>Leaf\<close> is \<open>NULL\<close>.
\<close>

datatype arm = ARM_LEFT | ARM_PARENT | ARM_RIGHT

datatype 'a ctx = InLeft 'a "'a tree" | InRight "'a tree" 'a

type_synonym 'a loc = "'a tree \<times> 'a ctx list"

record 'a tree_t =
  t_root :: "'a tree"
  t_count :: u32

definition shift :: "int \<Rightarrow> arm" where
  "shift result = (if result > 0 then ARM_RIGHT else if result < 0 then ARM_LEFT else ARM_PARENT)"

fun opposite :: "arm \<Rightarrow> arm" where
  "opposite ARM_LEFT = ARM_RIGHT"
| "opposite ARM_RIGHT = ARM_LEFT"
| "opposite ARM_PARENT = ARM_PARENT"

text \<open>\<open>node->links[arm]\<close> for the two child arms, and the whole tree a location is in.\<close>
fun child :: "arm \<Rightarrow> 'a loc \<Rightarrow> 'a loc" where
  "child ARM_LEFT (Node l a r, c) = (l, InLeft a r # c)"
| "child ARM_RIGHT (Node l a r, c) = (r, InRight l a # c)"
| "child _ x = x"

fun up :: "'a loc \<Rightarrow> 'a tree" where
  "up (t, []) = t"
| "up (t, InLeft a r # c) = up (Node t a r, c)"
| "up (t, InRight l a # c) = up (Node l a t, c)"

fun tree_find :: "('a \<Rightarrow> 'a \<Rightarrow> int) \<Rightarrow> 'a \<Rightarrow> 'a tree \<Rightarrow> 'a ctx list \<Rightarrow> 'a loc" where
  "tree_find cmp target Leaf c = (Leaf, c)"
| "tree_find cmp target (Node l a r) c = (case shift (cmp target a) of
      ARM_PARENT \<Rightarrow> (Node l a r, c)
    | ARM_LEFT \<Rightarrow> tree_find cmp target l (InLeft a r # c)
    | ARM_RIGHT \<Rightarrow> tree_find cmp target r (InRight l a # c))"

fun follow_left :: "'a tree \<Rightarrow> 'a ctx list \<Rightarrow> 'a loc" where
  "follow_left (Node l a r) c = (if l = Leaf then (Node l a r, c) else follow_left l (InLeft a r # c))"
| "follow_left Leaf c = (Leaf, c)"

fun follow_right :: "'a tree \<Rightarrow> 'a ctx list \<Rightarrow> 'a loc" where
  "follow_right (Node l a r) c = (if r = Leaf then (Node l a r, c) else follow_right r (InRight l a # c))"
| "follow_right Leaf c = (Leaf, c)"

definition follow :: "'a loc \<Rightarrow> arm \<Rightarrow> 'a loc" where
  "follow x arm = (if arm = ARM_LEFT then follow_left (fst x) (snd x) else follow_right (fst x) (snd x))"

text \<open>The loop of \<open>sibling\<close> towards the root: climb while the node hangs on the given arm.\<close>
fun climb :: "arm \<Rightarrow> 'a loc \<Rightarrow> 'a loc option" where
  "climb arm (t, []) = None"
| "climb arm (t, InLeft a r # c) =
     (if arm = ARM_LEFT then climb arm (Node t a r, c) else Some (Node t a r, c))"
| "climb arm (t, InRight l a # c) =
     (if arm = ARM_RIGHT then climb arm (Node l a t, c) else Some (Node l a t, c))"

definition sibling :: "'a loc \<Rightarrow> arm \<Rightarrow> 'a loc option" where
  "sibling x arm =
     (if fst x = Leaf then None
      else if fst (child arm x) \<noteq> Leaf then Some (follow (child arm x) (opposite arm))
      else climb arm x)"

definition tree_init :: "'a tree_t" where
  "tree_init = \<lparr>t_root = Leaf, t_count = 0\<rparr>"

text \<open>\<open>tree_insert_node\<close>; \<^term>\<open>None\<close> is the \<open>NULL\<close> it returns for a duplicate.\<close>
definition tree_insert_node :: "('a \<Rightarrow> 'a \<Rightarrow> int) \<Rightarrow> 'a tree_t \<Rightarrow> 'a \<Rightarrow> 'a tree_t option" where
  "tree_insert_node cmp root node =
     (let (old_node, c) = tree_find cmp node (t_root root) [] in
      if old_node \<noteq> Leaf then None
      else Some \<lparr>t_root = up (Node Leaf node Leaf, c), t_count = t_count root + 1\<rparr>)"

definition tree_find_node :: "('a \<Rightarrow> 'a \<Rightarrow> int) \<Rightarrow> 'a tree_t \<Rightarrow> 'a \<Rightarrow> 'a loc option" where
  "tree_find_node cmp root target =
     (let x = tree_find cmp target (t_root root) [] in if fst x = Leaf then None else Some x)"

definition tree_first_node :: "'a tree \<Rightarrow> 'a loc option" where
  "tree_first_node t = (if t = Leaf then None else Some (follow (t, []) ARM_LEFT))"

definition tree_last_node :: "'a tree \<Rightarrow> 'a loc option" where
  "tree_last_node t = (if t = Leaf then None else Some (follow (t, []) ARM_RIGHT))"

definition tree_next_node :: "'a loc \<Rightarrow> 'a loc option" where
  "tree_next_node x = sibling x ARM_RIGHT"

definition tree_prev_node :: "'a loc \<Rightarrow> 'a loc option" where
  "tree_prev_node x = sibling x ARM_LEFT"

text \<open>\<open>swap\<close> of a node with its predecessor, the last node of its left subtree: the two nodes exchange
  their places in the tree. The result is the new location of the node.\<close>
fun swap_prev :: "'a loc \<Rightarrow> 'a loc" where
  "swap_prev (Node l a r, c) =
     (case follow_right l [] of
        (Node pl b pr, _) \<Rightarrow> (Node pl a pr, snd (follow_right l (InLeft b r # c)))
      | (Leaf, _) \<Rightarrow> (Node l a r, c))"
| "swap_prev (Leaf, c) = (Leaf, c)"

definition tree_remove_node :: "'a tree_t \<Rightarrow> 'a loc \<Rightarrow> 'a tree_t" where
  "tree_remove_node root node =
     (let node1 = (if fst (child ARM_LEFT node) \<noteq> Leaf \<and> fst (child ARM_RIGHT node) \<noteq> Leaf
                   then swap_prev node else node);
          arm = (if fst (child ARM_LEFT node1) \<noteq> Leaf then ARM_LEFT else ARM_RIGHT);
          p = fst (child arm node1)
      in \<lparr>t_root = up (p, snd node1), t_count = t_count root - 1\<rparr>)"

text \<open>\<open>tree_traverse\<close>: the nodes \<open>each\<close> is called on, in order.\<close>
fun loc_val :: "'a loc \<Rightarrow> 'a option" where
  "loc_val (Node l a r, c) = Some a"
| "loc_val (Leaf, c) = None"

partial_function (option) traverse_from :: "'a loc option \<Rightarrow> 'a list option" where
  "traverse_from mp = (case mp of None \<Rightarrow> Some []
     | Some p \<Rightarrow> do { a \<leftarrow> loc_val p; rest \<leftarrow> traverse_from (tree_next_node p); Some (a # rest) })"

declare traverse_from.simps [code]

definition tree_traverse :: "'a tree_t \<Rightarrow> 'a list option" where
  "tree_traverse root = traverse_from (tree_first_node (t_root root))"

text \<open>\<open>tree_destroy\<close>: \<open>descend\<close> is its inner loop, which goes on from the first node of the right subtree
  while there is one; the node it ends at is cut off its parent and removed.\<close>
lemma follow_left_size: "size (fst (follow_left t c)) \<le> size t"
  by (induction t c rule: follow_left.induct) auto

function descend :: "'a tree \<Rightarrow> 'a ctx list \<Rightarrow> 'a loc" where
  "descend Leaf c = (Leaf, c)"
| "descend (Node l a r) c =
     (if r = Leaf then (Node l a r, c)
      else descend (fst (follow_left r (InRight l a # c))) (snd (follow_left r (InRight l a # c))))"
  by pat_completeness auto
termination
proof (relation "measure (\<lambda>(t, _). size t)", goal_cases)
  case (2 l a r c)
  then show ?case using follow_left_size[of r "InRight l a # c"] by (simp add: case_prod_beta)
qed simp

fun cut :: "'a ctx list \<Rightarrow> 'a loc option" where
  "cut [] = None"
| "cut (InLeft a r # c) = Some (Node Leaf a r, c)"
| "cut (InRight l a # c) = Some (Node l a Leaf, c)"

partial_function (option) destroy_from :: "'a loc option \<Rightarrow> 'a list option" where
  "destroy_from mp = (case mp of None \<Rightarrow> Some []
     | Some p \<Rightarrow> let q = descend (fst p) (snd p) in do {
         a \<leftarrow> loc_val q;
         rest \<leftarrow> destroy_from (cut (snd q));
         Some (a # rest) })"

declare destroy_from.simps [code]

text \<open>The nodes \<open>remove\<close> is called on, in order, and the emptied tree.\<close>
definition tree_destroy :: "'a tree_t \<Rightarrow> ('a list \<times> 'a tree_t) option" where
  "tree_destroy root = map_option (\<lambda>ns. (ns, tree_init)) (destroy_from (tree_first_node (t_root root)))"

subsection \<open>Locations and the in-order sequence\<close>

fun before :: "'a ctx list \<Rightarrow> 'a list" where
  "before [] = []"
| "before (InLeft a r # c) = before c"
| "before (InRight l a # c) = before c @ inorder l @ [a]"

fun after :: "'a ctx list \<Rightarrow> 'a list" where
  "after [] = []"
| "after (InLeft a r # c) = a # inorder r @ after c"
| "after (InRight l a # c) = after c"

lemma inorder_up: "inorder (up (t, c)) = before c @ inorder t @ after c"
  by (induction "(t, c)" arbitrary: t c rule: up.induct) auto

lemma follow_left_spec:
  assumes "t \<noteq> Leaf"
  obtains l a r c' where "follow_left t c = (Node l a r, c')" "l = Leaf"
    "inorder t @ after c = a # inorder r @ after c'" "before c' = before c"
    "up (Node l a r, c') = up (t, c)"
proof -
  have "\<exists>l a r c'. follow_left t c = (Node l a r, c') \<and> l = Leaf \<and>
    inorder t @ after c = a # inorder r @ after c' \<and> before c' = before c \<and> up (Node l a r, c') = up (t, c)"
    using assms
  proof (induction t c rule: follow_left.induct)
    case (1 l a r c)
    then show ?case by (cases "l = Leaf") auto
  qed simp
  then show ?thesis using that by blast
qed

lemma follow_right_spec:
  assumes "t \<noteq> Leaf"
  obtains l a r c' where "follow_right t c = (Node l a r, c')" "r = Leaf"
    "before c @ inorder t = before c' @ inorder l @ [a]" "after c' = after c"
    "up (Node l a r, c') = up (t, c)"
proof -
  have "\<exists>l a r c'. follow_right t c = (Node l a r, c') \<and> r = Leaf \<and>
    before c @ inorder t = before c' @ inorder l @ [a] \<and> after c' = after c \<and> up (Node l a r, c') = up (t, c)"
    using assms
  proof (induction t c rule: follow_right.induct)
    case (1 l a r c)
    show ?case
    proof (cases "r = Leaf")
      case False
      from 1(1)[OF False False] show ?thesis using False by auto
    qed simp
  qed simp
  then show ?thesis using that by blast
qed

fun from_here :: "'a loc \<Rightarrow> 'a list" where
  "from_here (Node l a r, c) = a # inorder r @ after c"
| "from_here (Leaf, c) = []"

lemma climb_right:
  "case climb ARM_RIGHT (t, c) of None \<Rightarrow> after c = []
   | Some y \<Rightarrow> fst y \<noteq> Leaf \<and> from_here y = after c \<and> up y = up (t, c)"
  by (induction "ARM_RIGHT" "(t, c)" arbitrary: t c rule: climb.induct) (auto split: option.splits)

lemma tree_next_node_spec:
  "case tree_next_node (Node l a r, c) of None \<Rightarrow> inorder r @ after c = []
   | Some y \<Rightarrow> fst y \<noteq> Leaf \<and> from_here y = inorder r @ after c \<and> up y = up (Node l a r, c)"
proof (cases "r = Leaf")
  case True
  then show ?thesis using climb_right[where t = "Node l a r" and c = c]
    by (auto simp: tree_next_node_def sibling_def split: option.splits)
next
  case False
  then obtain l' b r' c' where f: "follow_left r (InRight l a # c) = (Node l' b r', c')"
      "inorder r @ after (InRight l a # c) = b # inorder r' @ after c'" "up (Node l' b r', c') = up (r, InRight l a # c)"
    by (rule follow_left_spec)
  then show ?thesis using False by (simp add: tree_next_node_def sibling_def follow_def)
qed

lemma traverse_from_here: "fst x \<noteq> Leaf \<Longrightarrow> traverse_from (Some x) = Some (from_here x)"
proof (induction "length (from_here x)" arbitrary: x rule: less_induct)
  case less
  then obtain l a r c where x: "x = (Node l a r, c)" by (metis tree.exhaust prod.exhaust fst_conv)
  show ?case
  proof (cases "tree_next_node (Node l a r, c)")
    case None
    then have "inorder r @ after c = []" using tree_next_node_spec[where l = l and a = a and r = r and c = c] by simp
    then show ?thesis using None by (simp add: x traverse_from.simps)
  next
    case (Some y)
    then have y: "fst y \<noteq> Leaf" "from_here y = inorder r @ after c" using tree_next_node_spec[where l = l and a = a and r = r and c = c] by simp_all
    then have "traverse_from (Some y) = Some (from_here y)" by (intro less.hyps) (simp_all add: x)
    then show ?thesis
      using Some y(2) by (subst traverse_from.simps) (simp add: x)
  qed
qed

lemma tree_traverse_inorder: "tree_traverse root = Some (inorder (t_root root))"
proof (cases "t_root root = Leaf")
  case True
  then show ?thesis by (simp add: tree_traverse_def tree_first_node_def traverse_from.simps)
next
  case False
  then obtain l a r c' where f: "follow_left (t_root root) [] = (Node l a r, c')"
      "inorder (t_root root) @ after [] = a # inorder r @ after c'" by (rule follow_left_spec)
  then show ?thesis
    using False by (simp add: tree_traverse_def tree_first_node_def follow_def traverse_from_here)
qed

subsection \<open>Removal and destruction\<close>

text \<open>Removing the node at a location takes exactly that node out of the in-order sequence.\<close>
lemma tree_remove_node_inorder:
  "inorder (t_root (tree_remove_node root (Node l a r, c))) = before c @ inorder l @ inorder r @ after c"
proof (cases "l \<noteq> Leaf \<and> r \<noteq> Leaf")
  case True
  then have "l \<noteq> Leaf" by simp
  then obtain pl b pr pc where 1: "follow_right l [] = (Node pl b pr, pc)" by (rule follow_right_spec)
  obtain pl' b' pr' pc' where 2: "follow_right l (InLeft b r # c) = (Node pl' b' pr', pc')" "pr' = Leaf"
      "before (InLeft b r # c) @ inorder l = before pc' @ inorder pl' @ [b']" "after pc' = after (InLeft b r # c)"
    using \<open>l \<noteq> Leaf\<close> by (rule follow_right_spec)
  have same: "fst (follow_right t c1) = fst (follow_right t c2)" for t :: "'a tree" and c1 c2
  proof (induction t arbitrary: c1 c2)
    case (Node x y z)
    show ?case using Node.IH(2)[of "InRight x y # c1" "InRight x y # c2"] by simp
  qed simp
  then have "Node pl b pr = Node pl' b' pr'" by (metis 1 2(1) fst_conv)
  with 1 2 True have "t_root (tree_remove_node root (Node l a r, c)) = up (pl', pc')"
    by (auto simp: tree_remove_node_def Let_def)
  with 2 \<open>Node pl b pr = _\<close> show ?thesis by (simp add: inorder_up)
next
  case False
  then show ?thesis by (auto simp: tree_remove_node_def Let_def inorder_up)
qed

text \<open>No left subtree hangs off the path to the root.\<close>
fun clean :: "'a ctx list \<Rightarrow> bool" where
  "clean [] \<longleftrightarrow> True"
| "clean (InLeft a r # c) \<longleftrightarrow> clean c"
| "clean (InRight l a # c) \<longleftrightarrow> l = Leaf \<and> clean c"

lemma clean_follow_left: "clean c \<Longrightarrow> clean (snd (follow_left t c))"
  by (induction t c rule: follow_left.induct) auto

lemma descend_spec:
  assumes "clean c"
  obtains b c' where "descend (Node Leaf a r) c = (Node Leaf b Leaf, c')" "up (Node Leaf b Leaf, c') = up (Node Leaf a r, c)"
    "clean c'"
proof -
  have "\<exists>b c'. descend t c = (Node Leaf b Leaf, c') \<and> up (Node Leaf b Leaf, c') = up (t, c) \<and> clean c'"
    if "t = Node Leaf a r" for t a r
    using that assms
  proof (induction t c arbitrary: a r rule: descend.induct)
    case (2 l b r' c)
    show ?case
    proof (cases "r' = Leaf")
      case False
      then obtain l' b' s' c' where f: "follow_left r' (InRight l b # c) = (Node l' b' s', c')" "l' = Leaf"
          "up (Node l' b' s', c') = up (r', InRight l b # c)" by (rule follow_left_spec)
      moreover have "clean c'" using clean_follow_left[of "InRight l b # c" r'] 2(2,3) f(1) by simp
      ultimately show ?thesis using 2(1)[OF False, of b' s'] False 2(2) by auto
    qed (use 2 in simp)
  qed simp
  from this[OF refl] show ?thesis using that by blast
qed

lemma destroy_from_all:
  "clean c \<Longrightarrow> \<exists>ns. destroy_from (Some (Node Leaf a r, c)) = Some ns \<and> mset ns = mset (inorder (up (Node Leaf a r, c)))"
proof (induction "size (up (Node Leaf a r, c))" arbitrary: a r c rule: less_induct)
  case less
  obtain b c' where d: "descend (Node Leaf a r) c = (Node Leaf b Leaf, c')"
      "up (Node Leaf b Leaf, c') = up (Node Leaf a r, c)" "clean c'"
    using less.prems by (rule descend_spec)
  have ord: "inorder (up (Node Leaf a r, c)) = before c' @ b # after c'"
    using inorder_up[where t = "Node Leaf b Leaf" and c = c'] by (simp add: d(2))
  have size: "size (up x) = length (inorder (up x))" for x :: "'a loc" by simp
  have unf: "destroy_from (Some (Node Leaf a r, c)) =
      Option.bind (destroy_from (cut c')) (\<lambda>rest. Some (b # rest))"
    by (subst destroy_from.simps) (simp add: d(1) del: descend.simps)
  show ?case
  proof (cases "cut c'")
    case None
    then have "c' = []" by (cases c' rule: cut.cases) auto
    then show ?thesis using unf ord by (simp add: destroy_from.simps)
  next
    case (Some y)
    then obtain b2 r2 c2 where y: "y = (Node Leaf b2 r2, c2)" "clean c2"
        "inorder (up (Node Leaf b2 r2, c2)) = before c' @ after c'"
      using d(3) by (cases c' rule: cut.cases) (auto simp: inorder_up)
    have "\<exists>ns. destroy_from (Some (Node Leaf b2 r2, c2)) = Some ns \<and>
        mset ns = mset (inorder (up (Node Leaf b2 r2, c2)))"
      using y(2) by (intro less.hyps) (simp_all only: size ord y(3), simp)
    then show ?thesis using unf ord y Some by auto
  qed
qed

lemma tree_destroy_all: "\<exists>ns. tree_destroy root = Some (ns, tree_init) \<and> mset ns = mset (inorder (t_root root))"
proof (cases "t_root root = Leaf")
  case True
  then show ?thesis by (simp add: tree_destroy_def tree_first_node_def destroy_from.simps)
next
  case False
  then obtain l a r c' where f: "follow_left (t_root root) [] = (Node l a r, c')" "l = Leaf"
      "up (Node l a r, c') = up (t_root root, [])" by (rule follow_left_spec)
  then show ?thesis
    using False destroy_from_all[of c' a r] clean_follow_left[of "[]" "t_root root"]
    by (auto simp: tree_destroy_def tree_first_node_def follow_def)
qed

subsection \<open>Searching and inserting in an ordered tree\<close>

text \<open>The contract of a comparison function: on the keys \<open>D\<close> in use it is a strict order and keys that
  compare equal compare alike with every other key.\<close>
locale search_order =
  fixes cmp :: "'a \<Rightarrow> 'a \<Rightarrow> int" and D :: "'a set"
  assumes cmp_anti: "x \<in> D \<Longrightarrow> y \<in> D \<Longrightarrow> cmp x y < 0 \<longleftrightarrow> cmp y x > 0"
    and cmp_trans: "x \<in> D \<Longrightarrow> y \<in> D \<Longrightarrow> z \<in> D \<Longrightarrow> cmp x y < 0 \<Longrightarrow> cmp y z < 0 \<Longrightarrow> cmp x z < 0"
    and cmp_equal: "x \<in> D \<Longrightarrow> y \<in> D \<Longrightarrow> z \<in> D \<Longrightarrow> cmp x y = 0 \<Longrightarrow> cmp y z < 0 \<longleftrightarrow> cmp x z < 0"
begin

abbreviation ordered :: "'a list \<Rightarrow> bool" where
  "ordered xs \<equiv> sorted_wrt (\<lambda>a b. cmp a b < 0) xs"

lemma find_split:
  assumes "x \<in> D" "set (inorder t) \<subseteq> D" "ordered (inorder t)"
  shows "case tree_find cmp x t c of
      (Leaf, c') \<Rightarrow> up (Leaf, c') = up (t, c) \<and> (\<forall>y\<in>set (inorder t). cmp x y \<noteq> 0) \<and>
         before c' = before c @ filter (\<lambda>y. cmp x y > 0) (inorder t) \<and>
         after c' = filter (\<lambda>y. cmp x y < 0) (inorder t) @ after c
    | (Node l a r, c') \<Rightarrow> up (Node l a r, c') = up (t, c) \<and> cmp x a = 0"
  using assms(2,3)
proof (induction t arbitrary: c)
  case (Node l a r)
  have D: "a \<in> D" "set (inorder l) \<subseteq> D" "set (inorder r) \<subseteq> D" using Node.prems by auto
  have srt: "ordered (inorder l)" "ordered (inorder r)" "\<forall>y\<in>set (inorder l). cmp y a < 0" "\<forall>y\<in>set (inorder r). cmp a y < 0"
    using Node.prems(2) by (auto simp: sorted_wrt_append)
  consider "cmp x a = 0" | "cmp x a < 0" | "cmp x a > 0" by linarith
  then show ?case
  proof cases
    case 2
    have "\<forall>y\<in>set (inorder r). cmp x y < 0"
      using srt(4) D 2 assms(1) by (meson cmp_trans subsetD)
    then have "filter (\<lambda>y. cmp x y > 0) (inorder r) = []" "filter (\<lambda>y. cmp x y < 0) (inorder r) = inorder r"
        "\<forall>y\<in>set (inorder r). cmp x y \<noteq> 0"
      by (auto simp: filter_empty_conv filter_id_conv)
    then show ?thesis
      using Node.IH(1)[OF D(2) srt(1), of "InLeft a r # c"] 2
      by (auto simp: shift_def split: prod.splits tree.splits)
  next
    case 3
    have "cmp x y > 0" if "y \<in> set (inorder l)" for y
      using srt(3) that D 3 assms(1) cmp_anti cmp_trans by (meson subsetD)
    then have "filter (\<lambda>y. cmp x y > 0) (inorder l) = inorder l" "filter (\<lambda>y. cmp x y < 0) (inorder l) = []"
        "\<forall>y\<in>set (inorder l). cmp x y \<noteq> 0"
      by (force simp: filter_empty_conv filter_id_conv)+
    then show ?thesis
      using Node.IH(2)[OF D(3) srt(2), of "InRight l a # c"] 3
      by (auto simp: shift_def split: prod.splits tree.splits)
  qed (simp add: shift_def)
qed simp

text \<open>Insertion fails on an equal key and otherwise puts the node at its place in the order.\<close>
lemma insert_spec:
  assumes "x \<in> D" "set (inorder (t_root root)) \<subseteq> D" "ordered (inorder (t_root root))"
  shows "case tree_insert_node cmp root x of
      None \<Rightarrow> \<exists>y\<in>set (inorder (t_root root)). cmp x y = 0
    | Some root' \<Rightarrow> (\<forall>y\<in>set (inorder (t_root root)). cmp x y \<noteq> 0) \<and> t_count root' = t_count root + 1 \<and>
        inorder (t_root root') = filter (\<lambda>y. cmp x y > 0) (inorder (t_root root)) @
          x # filter (\<lambda>y. cmp x y < 0) (inorder (t_root root))"
proof -
  obtain t c where tc: "tree_find cmp x (t_root root) [] = (t, c)" by fastforce
  have "t = Leaf \<or> (\<exists>l a r. t = Node l a r)" by (cases t) auto
  moreover have "a \<in> set_tree (up (Node l a r, c))" for l a r
    unfolding set_inorder[symmetric] inorder_up by simp
  ultimately show ?thesis
    using find_split[OF assms, of "[]"] tc
    by (auto simp: tree_insert_node_def inorder_up) (metis)
qed

lemma insert_ordered:
  assumes "x \<in> D" "set xs \<subseteq> D" "ordered xs"
  shows "ordered (filter (\<lambda>y. cmp x y > 0) xs @ x # filter (\<lambda>y. cmp x y < 0) xs)"
proof -
  have "cmp y z < 0" if "y \<in> set xs" "z \<in> set xs" "cmp x y > 0" "cmp x z < 0" for y z
    using that assms(1,2) cmp_anti cmp_trans by (meson subsetD)
  moreover have "cmp y x < 0" if "y \<in> set xs" "cmp x y > 0" for y
    using that assms(1,2) cmp_anti by blast
  ultimately show ?thesis
    using assms(3) by (auto simp: sorted_wrt_append sorted_wrt_filter)
qed

text \<open>A search returns the node with an equal key, if the tree has one.\<close>
lemma find_node_spec:
  assumes "x \<in> D" "set (inorder (t_root root)) \<subseteq> D" "ordered (inorder (t_root root))"
  shows "case tree_find_node cmp root x of
      None \<Rightarrow> \<forall>y\<in>set (inorder (t_root root)). cmp x y \<noteq> 0
    | Some y \<Rightarrow> \<exists>a. loc_val y = Some a \<and> cmp x a = 0 \<and> up y = t_root root"
proof -
  obtain t c where tc: "tree_find cmp x (t_root root) [] = (t, c)" by fastforce
  have "t = Leaf \<or> (\<exists>l a r. t = Node l a r)" by (cases t) auto
  then show ?thesis
    using find_split[OF assms, of "[]"] tc by (auto simp: tree_find_node_def)
qed

end

subsection \<open>The walks over a tree\<close>

text \<open>C12. The two walks over a tree end. A traversal by first node and successors visits every node once, in
  order; destroying a tree calls the removal function on every node exactly once and leaves the tree
  empty.\<close>
theorem tree_walks:
  "tree_traverse root = Some (inorder (t_root root)) \<and>
   (\<exists>ns. tree_destroy root = Some (ns, tree_init) \<and> mset ns = mset (inorder (t_root root)))"
  by (simp add: tree_traverse_inorder tree_destroy_all)

end
