(* ===== verification/DP_Helper.thy ===== *)
theory DP_Helper
  imports DP_Prelude
begin

text \<open>
  The helpers of \<open>utils/helper.h\<close> and \<open>utils/helper.c\<close>: comparison of 32-bit sequence numbers,
  byte-order reads, the sdbm hash, MAC address tests, and the string routines.
  A pair \<open>ptr, len\<close> is the list of the \<open>len\<close> bytes at \<open>ptr\<close>; a C string buffer is the list of
  the bytes of its whole object, so that running past a missing NUL is \<^term>\<open>None\<close>.
\<close>

subsection \<open>Sequence numbers\<close>

definition u32_distance :: "u32 \<Rightarrow> u32 \<Rightarrow> u32" where
  "u32_distance u1 u2 = u2 - u1"

definition u32_lt :: "u32 \<Rightarrow> u32 \<Rightarrow> bool" where
  "u32_lt u1 u2 \<longleftrightarrow> sint (u1 - u2) < 0"

definition u32_lte :: "u32 \<Rightarrow> u32 \<Rightarrow> bool" where
  "u32_lte u1 u2 \<longleftrightarrow> sint (u1 - u2) \<le> 0"

definition u32_gt :: "u32 \<Rightarrow> u32 \<Rightarrow> bool" where
  "u32_gt u1 u2 \<longleftrightarrow> sint (u1 - u2) > 0"

definition u32_gte :: "u32 \<Rightarrow> u32 \<Rightarrow> bool" where
  "u32_gte u1 u2 \<longleftrightarrow> sint (u1 - u2) \<ge> 0"

definition u32_between :: "u32 \<Rightarrow> u32 \<Rightarrow> u32 \<Rightarrow> bool" where
  "u32_between u u1 u2 \<longleftrightarrow> u2 - u1 > u - u1"

definition u32_overlap :: "u32 \<Rightarrow> u32 \<Rightarrow> u32 \<Rightarrow> u32 \<Rightarrow> bool" where
  "u32_overlap u1 u2 u3 u4 \<longleftrightarrow> u1 < u4 \<and> u2 > u3"

subsection \<open>Bytes, hashes and MAC addresses\<close>

definition rd8 :: "bytes \<Rightarrow> nat \<Rightarrow> byte option" where
  "rd8 bs i = (if i < length bs then Some (bs ! i) else None)"

definition GET_BIG_INT16 :: "bytes \<Rightarrow> nat \<Rightarrow> u32 option" where
  "GET_BIG_INT16 v i = do {
     a \<leftarrow> rd8 v i; b \<leftarrow> rd8 v (i + 1);
     Some (push_bit 8 (ucast a) OR ucast b) }"

definition GET_BIG_INT24 :: "bytes \<Rightarrow> nat \<Rightarrow> u32 option" where
  "GET_BIG_INT24 v i = do {
     a \<leftarrow> rd8 v i; b \<leftarrow> rd8 v (i + 1); c \<leftarrow> rd8 v (i + 2);
     Some (push_bit 16 (ucast a) OR push_bit 8 (ucast b) OR ucast c) }"

definition GET_BIG_INT32 :: "bytes \<Rightarrow> nat \<Rightarrow> u32 option" where
  "GET_BIG_INT32 v i = do {
     a \<leftarrow> rd8 v i; b \<leftarrow> rd8 v (i + 1); c \<leftarrow> rd8 v (i + 2); d \<leftarrow> rd8 v (i + 3);
     Some (push_bit 24 (ucast a) OR push_bit 16 (ucast b) OR push_bit 8 (ucast c) OR ucast d) }"

definition GET_LITTLE_INT16 :: "bytes \<Rightarrow> nat \<Rightarrow> u32 option" where
  "GET_LITTLE_INT16 v i = do {
     a \<leftarrow> rd8 v i; b \<leftarrow> rd8 v (i + 1);
     Some (ucast a OR push_bit 8 (ucast b)) }"

definition GET_LITTLE_INT24 :: "bytes \<Rightarrow> nat \<Rightarrow> u32 option" where
  "GET_LITTLE_INT24 v i = do {
     a \<leftarrow> rd8 v i; b \<leftarrow> rd8 v (i + 1); c \<leftarrow> rd8 v (i + 2);
     Some (ucast a OR push_bit 8 (ucast b) OR push_bit 16 (ucast c)) }"

text \<open>Byte order on a little-endian machine: \<open>ntohl\<close> and \<open>htonl\<close> swap the bytes of a word.\<close>
definition ntohl :: "u32 \<Rightarrow> u32" where
  "ntohl w = push_bit 24 w OR push_bit 16 (take_bit 8 (drop_bit 8 w))
     OR push_bit 8 (take_bit 8 (drop_bit 16 w)) OR drop_bit 24 w"

definition ntohs :: "u16 \<Rightarrow> u16" where
  "ntohs w = push_bit 8 w OR drop_bit 8 w"

abbreviation htonl :: "u32 \<Rightarrow> u32" where
  "htonl \<equiv> ntohl"

text \<open>The bytes of an integer field in memory.\<close>
definition u16_bytes :: "u16 \<Rightarrow> bytes" where
  "u16_bytes w = [ucast w, ucast (drop_bit 8 w)]"

definition u32_bytes :: "u32 \<Rightarrow> bytes" where
  "u32_bytes w = [ucast w, ucast (drop_bit 8 w), ucast (drop_bit 16 w), ucast (drop_bit 24 w)]"

fun sdbm_loop :: "u32 \<Rightarrow> bytes \<Rightarrow> u32" where
  "sdbm_loop hash [] = hash"
| "sdbm_loop hash (a # bs) =
     sdbm_loop (ucast a + push_bit 6 hash + push_bit 16 hash - hash) bs"

definition sdbm_hash :: "bytes \<Rightarrow> u32" where
  "sdbm_hash bs = sdbm_loop 0 bs"

text \<open>A MAC address is its six bytes; the code compares it as a 32-bit and a 16-bit access.\<close>
definition mac_zero :: "bytes \<Rightarrow> bool" where
  "mac_zero m \<longleftrightarrow> take 4 m = replicate 4 0 \<and> take 2 (drop 4 m) = replicate 2 0"

definition mac_cmp :: "bytes \<Rightarrow> bytes \<Rightarrow> bool" where
  "mac_cmp m1 m2 \<longleftrightarrow> take 4 m1 = take 4 m2 \<and> take 2 (drop 4 m1) = take 2 (drop 4 m2)"

text \<open>\<open>a[0], a[1], a[2]\<close> are the three 16-bit halves.\<close>
definition is_mac_bcast :: "bytes \<Rightarrow> bool" where
  "is_mac_bcast mac \<longleftrightarrow> take 2 mac = [255, 255] \<and> take 2 (drop 2 mac) = [255, 255]
     \<and> take 2 (drop 4 mac) = [255, 255]"

text \<open>Bit 0 of the little-endian 16-bit word at \<open>mac\<close>, that is of its first byte.\<close>
definition is_mac_m_b_cast :: "bytes \<Rightarrow> bool" where
  "is_mac_m_b_cast mac \<longleftrightarrow> hd mac AND 1 \<noteq> 0"

definition c2hex :: "byte \<Rightarrow> int" where
  "c2hex c = (if 48 \<le> c \<and> c \<le> 57 then uint c - 48
     else if 65 \<le> c \<and> c \<le> 70 then uint c - 55
     else if 97 \<le> c \<and> c \<le> 102 then uint c - 87 else -1)"

subsection \<open>Text scanning\<close>

fun consume_string_from :: "bytes \<Rightarrow> nat \<Rightarrow> nat option" where
  "consume_string_from [] l = None"
| "consume_string_from (c # cs) l = (if c = 0 then Some l else consume_string_from cs (l + 1))"

text \<open>The returned pointer as an offset from \<open>ptr\<close>, \<^term>\<open>None\<close> for \<open>NULL\<close>.\<close>
definition consume_string :: "bytes \<Rightarrow> nat option" where
  "consume_string bs = consume_string_from bs 0"

fun consume_line_from :: "bytes \<Rightarrow> nat \<Rightarrow> nat \<Rightarrow> nat option \<times> nat" where
  "consume_line_from [] l n = (None, 0)"
| "consume_line_from (c # cs) l n =
     (if c = 13 then consume_line_from cs (l + 1) (n + 1)
      else if c = 10 then (Some (l + 1), n + 1)
      else consume_line_from cs (l + 1) 0)"

text \<open>The offset behind the line, and \<open>*eol_chars\<close>.\<close>
definition consume_line :: "bytes \<Rightarrow> nat option \<times> nat" where
  "consume_line bs = consume_line_from bs 0 0"

text \<open>\<open>consume_tokens\<close> calls \<open>func (param, token, len, idx)\<close>; the callback's state is threaded, a
  returned \<open>1\<close> is \<open>CONSUME_TOKEN_SKIP_LINE\<close>. \<open>tok\<close> holds the bytes from \<open>token\<close> to \<open>l\<close>.\<close>
fun consume_tokens_from ::
  "('s \<Rightarrow> bytes \<Rightarrow> nat \<Rightarrow> 's \<times> int) \<Rightarrow> 's \<Rightarrow> bytes \<Rightarrow> bytes option \<Rightarrow> nat \<Rightarrow> 's" where
  "consume_tokens_from func s [] tok idx =
     (case tok of None \<Rightarrow> s | Some t \<Rightarrow> fst (func s t idx))"
| "consume_tokens_from func s (c # cs) tok idx =
     (if c = 32 then
        (case tok of
           Some t \<Rightarrow> (let (s', ret) = func s t idx in
             if ret = 1 then s' else consume_tokens_from func s' cs None (idx + 1))
         | None \<Rightarrow> consume_tokens_from func s cs None idx)
      else (case tok of
           None \<Rightarrow> consume_tokens_from func s cs (Some [c]) idx
         | Some t \<Rightarrow> consume_tokens_from func s cs (Some (t @ [c])) idx))"

definition consume_tokens :: "('s \<Rightarrow> bytes \<Rightarrow> nat \<Rightarrow> 's \<times> int) \<Rightarrow> 's \<Rightarrow> bytes \<Rightarrow> 's" where
  "consume_tokens func param bs = consume_tokens_from func param bs None 0"

subsection \<open>Bounded string copies\<close>

definition wr8 :: "bytes \<Rightarrow> nat \<Rightarrow> byte \<Rightarrow> bytes option" where
  "wr8 bs i c = (if i < length bs then Some (bs[i := c]) else None)"

text \<open>The copying loop of \<open>strlcpy\<close>; \<open>k\<close> is \<open>d - dst = s - src\<close>. It returns the buffer, \<open>k\<close> and \<open>n\<close>.\<close>
function strlcpy_loop :: "bytes \<Rightarrow> bytes \<Rightarrow> nat \<Rightarrow> nat \<Rightarrow> (bytes \<times> nat \<times> nat) option" where
  "strlcpy_loop dst src k n =
     (if k < length src then
        do { dst' \<leftarrow> wr8 dst k (src ! k);
             if src ! k = 0 then Some (dst', k + 1, n)
             else if n - 1 \<noteq> 0 then strlcpy_loop dst' src (k + 1) (n - 1)
             else Some (dst', k + 1, 0) }
      else None)"
  by pat_completeness auto
termination
  by (relation "measure (\<lambda>(dst, src, k, n). length src - k)") auto

text \<open>\<open>while (*s++);\<close> from offset \<open>k\<close>: the offset behind the NUL.\<close>
function skip_nul :: "bytes \<Rightarrow> nat \<Rightarrow> nat option" where
  "skip_nul src k =
     (if k < length src then if src ! k = 0 then Some (k + 1) else skip_nul src (k + 1) else None)"
  by pat_completeness auto
termination
  by (relation "measure (\<lambda>(src, k). length src - k)") auto

definition strlcpy :: "bytes \<Rightarrow> bytes \<Rightarrow> nat \<Rightarrow> (bytes \<times> nat) option" where
  "strlcpy dst src siz = do {
     (d, k, n) \<leftarrow> (if siz \<noteq> 0 \<and> siz - 1 \<noteq> 0 then strlcpy_loop dst src 0 (siz - 1)
                   else Some (dst, 0, siz - 1));
     if n = 0 then do {
       d' \<leftarrow> (if siz \<noteq> 0 then wr8 d k 0 else Some d);
       e \<leftarrow> skip_nul src k;
       Some (d', e - 1) }
     else Some (d, k - 1) }"

definition is_upper :: "byte \<Rightarrow> bool" where
  "is_upper c \<longleftrightarrow> 65 \<le> c \<and> c \<le> 90"

text \<open>\<open>lower_string\<close> rewrites in place up to the NUL, which must be inside the buffer.\<close>
fun lower_string :: "bytes \<Rightarrow> bytes option" where
  "lower_string [] = None"
| "lower_string (c # cs) =
     (if c = 0 then Some (c # cs)
      else map_option ((#) (if is_upper c then c + 32 else c)) (lower_string cs))"

declare strlcpy_loop.simps [simp del] skip_nul.simps [simp del]


subsection \<open>Facts\<close>

lemma ntohl_ntohl [simp]: "ntohl (ntohl w) = w"
proof (rule bit_word_eqI)
  fix n assume "n < LENGTH(32)"
  then have "n < 8 \<or> (8 \<le> n \<and> n < 16) \<or> (16 \<le> n \<and> n < 24) \<or> (24 \<le> n \<and> n < 32)" by auto
  then show "bit (ntohl (ntohl w)) n = bit w n"
    by (elim disjE) (auto simp: ntohl_def bit_simps)
qed

lemma sint_neg_iff: "sint (x::u32) < 0 \<longleftrightarrow> 2 ^ 31 \<le> unat x"
proof -
  have "sint x < 0 \<longleftrightarrow> bit (uint x) 31" by (simp add: sint_uint signed_take_bit_negative_iff)
  also have "\<dots> \<longleftrightarrow> odd (uint x div 2 ^ 31)" by (simp add: bit_iff_odd)
  also have "\<dots> \<longleftrightarrow> 2 ^ 31 \<le> uint x"
  proof -
    have "0 \<le> uint x" "uint x < 2 * 2 ^ 31" using uint_lt2p[of x] by auto
    then have "uint x div 2 ^ 31 = (if 2 ^ 31 \<le> uint x then 1 else 0)"
      by (auto simp: div_pos_pos_trivial int_div_pos_eq)
    then show ?thesis by simp
  qed
  also have "\<dots> \<longleftrightarrow> 2 ^ 31 \<le> unat x"
  proof -
    have "2 ^ 31 \<le> int n \<longleftrightarrow> 2 ^ 31 \<le> n" for n by auto
    from this[of "unat x"] show ?thesis by simp
  qed
  finally show ?thesis .
qed

lemma u32_lt_iff: "u32_lt u v \<longleftrightarrow> 0 < unat (v - u) \<and> unat (v - u) \<le> 2 ^ 31"
proof (cases "v - u = 0")
  case True
  then show ?thesis by (simp add: u32_lt_def sint_neg_iff)
next
  case False
  then have "unat (u - v) = 2 ^ 32 - unat (v - u)" using unat_minus_swap[of "v - u"] by simp
  moreover have "unat (v - u) < 2 ^ 32" "0 < unat (v - u)"
    using False unat32_lt[of "v - u"] by (simp_all add: unat_gt_0)
  ultimately show ?thesis by (auto simp: u32_lt_def sint_neg_iff)
qed

lemma u32_lte_iff: "u32_lte u v \<longleftrightarrow> unat (v - u) \<le> 2 ^ 31"
proof (cases "u = v")
  case False
  then have "sint (u - v) \<noteq> 0" by (metis right_minus_eq signed_0 signed_word_eqI)
  moreover have "0 < unat (v - u)" using False by (simp add: unat_gt_0)
  ultimately show ?thesis using u32_lt_iff[of u v] by (auto simp: u32_lte_def u32_lt_def)
qed (simp add: u32_lte_def)

lemma u32_gt_lte: "u32_gt u v \<longleftrightarrow> \<not> u32_lte u v"
  by (auto simp: u32_gt_def u32_lte_def)

lemma u32_gte_lt: "u32_gte u v \<longleftrightarrow> \<not> u32_lt u v"
  by (auto simp: u32_gte_def u32_lt_def)

lemmas u32_cmp_iff = u32_lt_iff u32_lte_iff u32_gt_lte u32_gte_lt

lemma u32_between_iff: "u32_between u u1 u2 \<longleftrightarrow> (\<exists>k < unat (u32_distance u1 u2). u = u1 + of_nat k)"
proof
  assume "u32_between u u1 u2"
  then have "unat (u - u1) < unat (u32_distance u1 u2)"
    by (simp add: u32_between_def u32_distance_def word_less_nat_alt)
  then show "\<exists>k < unat (u32_distance u1 u2). u = u1 + of_nat k"
    by (intro exI[of _ "unat (u - u1)"]) simp
next
  assume "\<exists>k < unat (u32_distance u1 u2). u = u1 + of_nat k"
  then obtain k where k: "k < unat (u2 - u1)" "u = u1 + of_nat k" by (auto simp: u32_distance_def)
  then have "k < 2 ^ 32" using unat32_lt[of "u2 - u1"] by simp
  then have "unat (u - u1) = k" using k(2) by (simp add: unat_of_nat)
  then show "u32_between u u1 u2" using k(1) by (simp add: u32_between_def word_less_nat_alt)
qed

text \<open>The space-separated words of a line, and running the callback over them in order until it
  asks to skip the rest.\<close>
fun split_sp :: "bytes \<Rightarrow> bytes list" where
  "split_sp [] = [[]]"
| "split_sp (c # cs) = (if c = 32 then [] # split_sp cs
     else (c # hd (split_sp cs)) # tl (split_sp cs))"

definition line_words :: "bytes \<Rightarrow> bytes list" where
  "line_words bs = filter (\<lambda>w. w \<noteq> []) (split_sp bs)"

fun run_tokens :: "('s \<Rightarrow> bytes \<Rightarrow> nat \<Rightarrow> 's \<times> int) \<Rightarrow> 's \<Rightarrow> nat \<Rightarrow> bytes list \<Rightarrow> 's" where
  "run_tokens func s idx [] = s"
| "run_tokens func s idx (t # ts) = (let (s', ret) = func s t idx in
     if ret = 1 then s' else run_tokens func s' (idx + 1) ts)"

lemma split_sp_ne: "split_sp bs \<noteq> []" by (cases bs) auto

lemma consume_tokens_from_words:
  "tok \<noteq> Some [] \<Longrightarrow> consume_tokens_from func s cs tok idx =
     run_tokens func s idx (filter (\<lambda>w. w \<noteq> [])
       (case tok of None \<Rightarrow> split_sp cs | Some t \<Rightarrow> (t @ hd (split_sp cs)) # tl (split_sp cs)))"
proof (induction func s cs tok idx rule: consume_tokens_from.induct)
  case (1 func s tok idx)
  then show ?case by (auto split: option.splits prod.splits)
next
  case (2 func s c cs tok idx)
  have "hd (split_sp cs) # tl (split_sp cs) = split_sp cs" using split_sp_ne by simp
  then show ?case using 2
    by (auto split: option.splits prod.splits)
qed

lemma consume_tokens_words: "consume_tokens func s bs = run_tokens func s 0 (line_words bs)"
  by (simp add: consume_tokens_def line_words_def consume_tokens_from_words)

text \<open>\<open>strlen\<close>, and the C string held by a buffer.\<close>
definition c_str :: "bytes \<Rightarrow> bytes" where
  "c_str bs = takeWhile (\<lambda>c. c \<noteq> 0) bs"

lemma c_str_nul: "0 \<in> set src \<Longrightarrow> length (c_str src) < length src \<and> src ! length (c_str src) = 0"
  by (induction src) (auto simp: c_str_def)

lemma c_str_nth: "k < length (c_str src) \<Longrightarrow> src ! k \<noteq> 0 \<and> k < length src \<and> c_str src ! k = src ! k"
  unfolding c_str_def
proof (induction src arbitrary: k)
  case (Cons c src)
  then show ?case by (cases k) (auto split: if_splits)
qed simp

lemma skip_nul_c_str:
  assumes "0 \<in> set src" "k \<le> length (c_str src)"
  shows "skip_nul src k = Some (length (c_str src) + 1)"
  using assms(2)
proof (induction "length (c_str src) - k" arbitrary: k)
  case 0
  then have "k = length (c_str src)" by simp
  then show ?case using c_str_nul[OF assms(1)] by (simp add: skip_nul.simps)
next
  case (Suc d)
  then have "k < length (c_str src)" by simp
  then show ?case using Suc c_str_nth by (subst skip_nul.simps) auto
qed


text \<open>\<open>strlcpy\<close> copies the longest prefix that fits, terminates it, leaves the rest of the buffer
  alone and returns the source's length.\<close>
definition strlcpy_result :: "bytes \<Rightarrow> bytes \<Rightarrow> nat \<Rightarrow> bytes" where
  "strlcpy_result dst src siz = (if siz = 0 then dst
     else let t = take (siz - 1) (c_str src) in t @ 0 # drop (length t + 1) dst)"

lemma upd_prefix:
  assumes "k < length dst" "length t = k"
  shows "(t @ drop k dst)[k := c] = (t @ [c]) @ drop (Suc k) dst"
  using assms by (simp add: list_update_append Cons_nth_drop_Suc[symmetric])

lemma strlcpy_loop_spec:
  assumes nul: "0 \<in> set src" and room: "k + n < length dst" and "0 < n" and "k \<le> length (c_str src)"
  shows "\<exists>m. strlcpy_loop (take k (c_str src) @ drop k dst) src k n =
      (if k + n \<le> length (c_str src)
       then Some (take (k + n) (c_str src) @ drop (k + n) dst, k + n, 0)
       else Some (c_str src @ 0 # drop (length (c_str src) + 1) dst, length (c_str src) + 1, Suc m))"
  using assms(2-4)
proof (induction n arbitrary: k)
  case (Suc n)
  let ?L = "length (c_str src)" and ?d = "take k (c_str src) @ drop k dst"
  have kd: "k < length ?d" using Suc.prems by simp
  show ?case
  proof (cases "k = ?L")
    case True
    then have "k < length src" "src ! k = 0" using c_str_nul[OF nul] by auto
    moreover have "?L < length dst" using Suc.prems True by simp
    then have "?d[k := 0] = c_str src @ 0 # drop (?L + 1) dst"
      unfolding True using upd_prefix[of ?L dst "c_str src" 0] by simp
    ultimately have "strlcpy_loop ?d src k (Suc n)
        = Some (c_str src @ 0 # drop (?L + 1) dst, k + 1, Suc n)"
      using kd by (subst strlcpy_loop.simps) (simp add: wr8_def)
    then show ?thesis using True by auto
  next
    case False
    then have kL: "k < ?L" using Suc.prems by simp
    from c_str_nth[OF kL] have c: "src ! k \<noteq> 0" "k < length src" "c_str src ! k = src ! k" by auto
    have d: "?d[k := src ! k] = take (Suc k) (c_str src) @ drop (Suc k) dst"
      using kL c(3) Suc.prems upd_prefix[of k dst "take k (c_str src)" "src ! k"]
      by (simp add: take_Suc_conv_app_nth)
    have step: "strlcpy_loop ?d src k (Suc n) = (if n = 0
        then Some (take (Suc k) (c_str src) @ drop (Suc k) dst, Suc k, 0)
        else strlcpy_loop (take (Suc k) (c_str src) @ drop (Suc k) dst) src (Suc k) n)"
      using c d kd by (subst strlcpy_loop.simps) (simp only: wr8_def, simp)
    show ?thesis
    proof (cases "n = 0")
      case True
      then show ?thesis using step kL by simp
    next
      case False
      then show ?thesis using Suc.IH[of "Suc k"] Suc.prems kL step by auto
    qed
  qed
qed simp

lemma strlcpy_eq:
  assumes nul: "0 \<in> set src" and room: "siz \<le> length dst"
  shows "strlcpy dst src siz = Some (strlcpy_result dst src siz, length (c_str src))"
proof -
  let ?L = "length (c_str src)"
  consider "siz = 0" | "siz = 1" | n where "siz = Suc n" "0 < n"
    by (metis One_nat_def gr0I not0_implies_Suc)
  then show ?thesis
  proof cases
    case 1
    then show ?thesis using skip_nul_c_str[OF nul, of 0] by (simp add: strlcpy_def strlcpy_result_def)
  next
    case 2
    then show ?thesis using skip_nul_c_str[OF nul, of 0] room
      by (cases dst) (simp_all add: strlcpy_def strlcpy_result_def wr8_def)
  next
    case 3
    have d: "(take n (c_str src) @ drop n dst)[n := 0] = take n (c_str src) @ 0 # drop (Suc n) dst"
      if "n \<le> ?L" using that 3 room upd_prefix[of n dst "take n (c_str src)" 0] by simp
    from strlcpy_loop_spec[OF nul, of 0 n dst] 3 room show ?thesis
      using skip_nul_c_str[OF nul, of n] d
      by (auto simp: strlcpy_def strlcpy_result_def wr8_def Let_def min_absorb2 split: if_splits)
  qed
qed

end
