(* ===== verification/DP_Asm.thy ===== *)
theory DP_Asm
  imports DP_Tree DP_Helper
begin

text \<open>
  Reassembly caches, \<open>utils/asm.c\<close>: clips of a byte stream in a search tree ordered by sequence number,
  and the construction of one contiguous buffer from them. The memory a clip points to is \<open>c_ptr\<close>, the
  clip being the \<open>c_len\<close> bytes from \<open>c_skip\<close> on; \<open>c_len\<close> is a 24-bit field.
\<close>

record clip =
  c_ptr :: bytes
  c_seq :: u32
  c_len :: u32
  c_action :: byte
  c_skip :: u16

record asm_t =
  a_tree :: "clip tree_t"
  a_gross :: u32

datatype asm_result = ASM_OK | ASM_FAILURE | ASM_NOP | ASM_MORE

definition asm_compare :: "clip \<Rightarrow> clip \<Rightarrow> int" where
  "asm_compare n k =
     (if u32_gt (c_seq n) (c_seq k) then 1 else if u32_lt (c_seq n) (c_seq k) then -1 else 0)"

definition asm_init :: asm_t where
  "asm_init = \<lparr>a_tree = tree_init, a_gross = 0\<rparr>"

definition asm_lookup :: "asm_t \<Rightarrow> u32 \<Rightarrow> clip loc option" where
  "asm_lookup a seq = tree_find_node asm_compare (a_tree a)
     \<lparr>c_ptr = [], c_seq = seq, c_len = 0, c_action = 0, c_skip = 0\<rparr>"

definition asm_insert :: "asm_t \<Rightarrow> clip \<Rightarrow> asm_result \<times> asm_t" where
  "asm_insert a clip = (case tree_insert_node asm_compare (a_tree a) clip of
      None \<Rightarrow> (ASM_FAILURE, a)
    | Some t \<Rightarrow> (ASM_OK, \<lparr>a_tree = t, a_gross = a_gross a + c_len clip\<rparr>))"

text \<open>\<open>asm_remove\<close> of the clip at a location; the clip itself is handed to \<open>remove\<close>.\<close>
definition asm_remove :: "asm_t \<Rightarrow> clip loc \<Rightarrow> asm_t" where
  "asm_remove a loc = (case loc_val loc of None \<Rightarrow> a
     | Some clip \<Rightarrow> \<lparr>a_tree = tree_remove_node (a_tree a) loc, a_gross = a_gross a - c_len clip\<rparr>)"

definition asm_destroy :: "asm_t \<Rightarrow> (clip list \<times> asm_t) option" where
  "asm_destroy a = map_option (\<lambda>(cs, t). (cs, \<lparr>a_tree = t, a_gross = 0\<rparr>)) (tree_destroy (a_tree a))"

definition asm_count :: "asm_t \<Rightarrow> u32" where
  "asm_count a = t_count (a_tree a)"

text \<open>The loop of \<open>asm_flush\<close>. The clip at hand is the first one of the tree; its successor, which the
  code reads before the removal, is the first one afterwards.\<close>
partial_function (option) flush_loop :: "asm_t \<Rightarrow> u32 \<Rightarrow> (asm_t \<times> clip list) option" where
  "flush_loop a seq = (case tree_first_node (t_root (a_tree a)) of None \<Rightarrow> Some (a, [])
     | Some loc \<Rightarrow> do {
         clip \<leftarrow> loc_val loc;
         if u32_lte (c_seq clip + c_len clip) seq
         then do { (a', cs) \<leftarrow> flush_loop (asm_remove a loc) seq; Some (a', clip # cs) }
         else Some (a, []) })"

declare flush_loop.simps [code]

definition asm_flush :: "asm_t \<Rightarrow> u32 \<Rightarrow> (asm_t \<times> clip list) option" where
  "asm_flush a seq = (if asm_count a = 0 then Some (a, []) else flush_loop a seq)"

text \<open>\<open>asm_foreach\<close>: the clips in the order the callback sees them.\<close>
definition asm_foreach :: "asm_t \<Rightarrow> clip list option" where
  "asm_foreach a = tree_traverse (a_tree a)"

text \<open>The first loop of \<open>asm_construct\<close>, over the clips in order: \<open>run\<close> holds the clips from \<open>first\<close> up to the
  one before \<open>itr\<close>, and is empty where the code sets \<open>first = last = next\<close>. \<^term>\<open>None\<close> is the early
  return of \<open>ASM_NOP\<close>.\<close>
fun asm_scan :: "clip list \<Rightarrow> clip list \<Rightarrow> u32 \<Rightarrow> u32 \<Rightarrow> u32 \<Rightarrow> (clip list \<times> u32) option" where
  "asm_scan [] run tot tseq must_have = Some (run, tot)"
| "asm_scan (itr # rest) run tot tseq must_have =
     (let run' = run @ [itr];
          fin' = c_seq itr + c_len itr;
          tot' = max tot (fin' - c_seq (hd run'))
      in if u32_lte fin' tseq then asm_scan rest [] tot' tseq must_have
         else if rest \<noteq> [] \<and> u32_lt fin' (c_seq (hd rest)) then
           (if u32_lt fin' must_have then None else Some (run', tot'))
         else asm_scan rest run' tot' tseq must_have)"

text \<open>\<open>memcpy\<close> into and out of objects of known size.\<close>
definition mem_read :: "bytes \<Rightarrow> nat \<Rightarrow> nat \<Rightarrow> bytes option" where
  "mem_read buf off n = (if off + n \<le> length buf then Some (take n (drop off buf)) else None)"

definition mem_write :: "bytes \<Rightarrow> nat \<Rightarrow> bytes \<Rightarrow> bytes option" where
  "mem_write buf off src =
     (if off + length src \<le> length buf then Some (take off buf @ src @ drop (off + length src) buf) else None)"

fun asm_copy :: "clip list \<Rightarrow> u32 \<Rightarrow> bytes \<Rightarrow> u32 \<Rightarrow> (bytes \<times> u32) option" where
  "asm_copy [] fseq buf len = Some (buf, len)"
| "asm_copy (itr # rest) fseq buf len = do {
     src \<leftarrow> mem_read (c_ptr itr) (unat (c_skip itr)) (unat (c_len itr));
     buf' \<leftarrow> mem_write buf (unat (c_seq itr - fseq)) src;
     asm_copy rest fseq buf' (max (take_bit 24 (c_seq itr + c_len itr - fseq)) len) }"

definition asm_construct :: "asm_t \<Rightarrow> clip \<Rightarrow> u32 \<Rightarrow> (asm_result \<times> clip) option" where
  "asm_construct a target must_have =
     (if asm_count a \<le> 1 then Some (ASM_NOP, target)
      else do {
        clips \<leftarrow> asm_foreach a;
        (case asm_scan clips [] 0 (c_seq target) must_have of
           None \<Rightarrow> Some (ASM_NOP, target)
         | Some (run, tot) \<Rightarrow>
             if length run \<le> 1 \<or> u32_lt (c_seq target) (c_seq (hd run)) then Some (ASM_NOP, target)
             else if tot > c_len target then
               Some (ASM_MORE, target\<lparr>c_seq := c_seq (hd run), c_len := take_bit 24 tot\<rparr>)
             else do {
               (buf, len) \<leftarrow> asm_copy run (c_seq (hd run)) (c_ptr target) 0;
               Some (ASM_OK, target\<lparr>c_ptr := buf, c_len := len, c_seq := c_seq (hd run)\<rparr>) }) })"

subsection \<open>Sequence numbers in a window\<close>

text \<open>The position of a sequence number after a base. Within half of the number space the signed
  comparisons are comparisons of positions.\<close>
definition pos :: "u32 \<Rightarrow> u32 \<Rightarrow> nat" where
  "pos b x = unat (x - b)"

lemma pos_diff: "pos b x \<le> pos b y \<Longrightarrow> unat (y - x) = pos b y - pos b x"
proof -
  assume "pos b x \<le> pos b y"
  then have "unat ((y - b) - (x - b)) = unat (y - b) - unat (x - b)"
    by (intro unat_sub) (simp add: pos_def word_le_nat_alt)
  then show ?thesis by (simp add: pos_def)
qed

lemma pos_inj: "pos b x = pos b y \<Longrightarrow> x = y"
  unfolding pos_def by (metis diff_eq_diff_eq unsigned_word_eqI word_unat_eq_iff diff_add_cancel)

lemma window_lt:
  assumes "pos b x < 2 ^ 31" "pos b y < 2 ^ 31"
  shows "u32_lt x y \<longleftrightarrow> pos b x < pos b y"
proof (cases "pos b x \<le> pos b y")
  case True
  then show ?thesis using pos_diff[OF True] assms by (auto simp: u32_lt_iff)
next
  case False
  then have "unat (x - y) = pos b x - pos b y" by (intro pos_diff) simp
  moreover have "x \<noteq> y" using False by auto
  then have "unat (y - x) = 2 ^ 32 - unat (x - y)" using unat_minus_swap[of "x - y"] by simp
  ultimately show ?thesis using False assms by (auto simp: u32_lt_iff)
qed

lemma window_lte:
  assumes "pos b x < 2 ^ 31" "pos b y < 2 ^ 31"
  shows "u32_lte x y \<longleftrightarrow> pos b x \<le> pos b y"
proof -
  have "u32_lte x y \<longleftrightarrow> u32_lt x y \<or> x = y"
    by (auto simp: u32_lte_iff u32_lt_iff unat_gt_0)
  then show ?thesis using window_lt[OF assms] pos_inj by (auto simp: le_less)
qed

lemma window_gt:
  "pos b x < 2 ^ 31 \<Longrightarrow> pos b y < 2 ^ 31 \<Longrightarrow> u32_gt x y \<longleftrightarrow> pos b y < pos b x"
  by (simp add: u32_gt_lte window_lte not_le)

lemma pos_add: "pos b x + k < 2 ^ 32 \<Longrightarrow> pos b (x + of_nat k) = pos b x + k"
proof -
  assume a: "pos b x + k < 2 ^ 32"
  have "x + of_nat k - b = (x - b) + of_nat k" by simp
  moreover have "unat ((x - b) + of_nat k) = unat (x - b) + k"
    using a by (simp add: pos_def unat_word_ariths unat_of_nat)
  ultimately show ?thesis by (simp only: pos_def)
qed

text \<open>The clips of one half-space window, and the order the tree keeps on them.\<close>
definition clip_window :: "u32 \<Rightarrow> clip set" where
  "clip_window b = {c. pos b (c_seq c) < 2 ^ 31}"

lemma asm_compare_window:
  assumes "n \<in> clip_window b" "k \<in> clip_window b"
  shows "asm_compare n k < 0 \<longleftrightarrow> pos b (c_seq n) < pos b (c_seq k)"
    and "asm_compare n k > 0 \<longleftrightarrow> pos b (c_seq k) < pos b (c_seq n)"
    and "asm_compare n k = 0 \<longleftrightarrow> c_seq n = c_seq k"
  using assms pos_inj[of b "c_seq n" "c_seq k"]
  by (auto simp: asm_compare_def clip_window_def window_lt window_gt)

interpretation asm_order: search_order asm_compare "clip_window b" for b
proof
  fix x y z assume "x \<in> clip_window b" "y \<in> clip_window b" "z \<in> clip_window b"
  then show "asm_compare x y < 0 \<Longrightarrow> asm_compare y z < 0 \<Longrightarrow> asm_compare x z < 0"
    "asm_compare x y = 0 \<Longrightarrow> asm_compare y z < 0 \<longleftrightarrow> asm_compare x z < 0"
    by (simp_all add: asm_compare_window)
qed (simp add: asm_compare_window)

subsection \<open>The cache as an ordered list\<close>

abbreviation clips_of :: "asm_t \<Rightarrow> clip list" where
  "clips_of a \<equiv> inorder (t_root (a_tree a))"

definition asm_inv :: "u32 \<Rightarrow> asm_t \<Rightarrow> bool" where
  "asm_inv b a \<longleftrightarrow> set (clips_of a) \<subseteq> clip_window b \<and> sorted_wrt (\<lambda>c d. asm_compare c d < 0) (clips_of a) \<and>
     asm_count a = of_nat (length (clips_of a)) \<and> a_gross a = sum_list (map c_len (clips_of a))"

lemma asm_inv_init: "asm_inv b asm_init"
  by (simp add: asm_inv_def asm_init_def tree_init_def asm_count_def)

text \<open>Splitting a list by comparison with a key that is not in it.\<close>
lemma filter_split_sum:
  assumes "\<forall>y\<in>set xs. f y \<noteq> (0 :: int)"
  shows "length (filter (\<lambda>y. f y > 0) xs) + length (filter (\<lambda>y. f y < 0) xs) = length xs"
    and "sum_list (map g (filter (\<lambda>y. f y > 0) xs)) + sum_list (map g (filter (\<lambda>y. f y < 0) xs)) = (sum_list (map g xs) :: u32)"
  using assms by (induction xs) auto

lemma asm_insert_spec:
  assumes inv: "asm_inv b a" and win: "clip \<in> clip_window b"
  shows "(\<exists>c\<in>set (clips_of a). c_seq c = c_seq clip) \<and> asm_insert a clip = (ASM_FAILURE, a) \<or>
    (\<forall>c\<in>set (clips_of a). c_seq c \<noteq> c_seq clip) \<and> (\<exists>a'. asm_insert a clip = (ASM_OK, a') \<and> asm_inv b a' \<and>
       set (clips_of a') = insert clip (set (clips_of a)) \<and> length (clips_of a') = Suc (length (clips_of a)))"
proof -
  let ?xs = "clips_of a"
  have D: "set ?xs \<subseteq> clip_window b" "sorted_wrt (\<lambda>c d. asm_compare c d < 0) ?xs"
    using inv by (simp_all add: asm_inv_def)
  have eq: "asm_compare clip c = 0 \<longleftrightarrow> c_seq c = c_seq clip" if "c \<in> set ?xs" for c
    using asm_compare_window(3)[OF win, of c] D(1) that by auto
  note ins = asm_order.insert_spec[OF win D]
  show ?thesis
  proof (cases "tree_insert_node asm_compare (a_tree a) clip")
    case None
    then show ?thesis using ins eq by (auto simp: asm_insert_def)
  next
    case (Some t)
    let ?a = "\<lparr>a_tree = t, a_gross = a_gross a + c_len clip\<rparr>"
    from Some ins have t: "\<forall>y\<in>set ?xs. asm_compare clip y \<noteq> 0" "t_count t = t_count (a_tree a) + 1"
      "inorder (t_root t) = filter (\<lambda>y. asm_compare clip y > 0) ?xs @ clip # filter (\<lambda>y. asm_compare clip y < 0) ?xs"
      by simp_all
    have set: "set (clips_of ?a) = insert clip (set ?xs)"
      using t(1) by (auto simp: t(3) simp del: set_inorder)
    have len: "length (clips_of ?a) = Suc (length ?xs)"
      using filter_split_sum(1)[OF t(1)] by (simp add: t(3) del: length_inorder)
    have srt: "sorted_wrt (\<lambda>c d. asm_compare c d < 0) (clips_of ?a)"
      using asm_order.insert_ordered[OF win D] by (simp add: t(3))
    have sum: "sum_list (map c_len (clips_of ?a)) = a_gross a + c_len clip"
      using filter_split_sum(2)[OF t(1), of c_len] inv by (simp add: t(3) asm_inv_def algebra_simps)
    have "asm_inv b ?a"
      unfolding asm_inv_def set sum using D(1) win srt len t(2) inv
      by (simp add: asm_count_def asm_inv_def del: length_inorder set_inorder)
    then show ?thesis
      using Some eq t(1) set len by (auto simp: asm_insert_def)
  qed
qed

subsection \<open>Reassembly\<close>

text \<open>A clip that holds a piece of the stream \<open>strm\<close>, within the window.\<close>
definition clip_ok :: "u32 \<Rightarrow> (u32 \<Rightarrow> byte) \<Rightarrow> clip \<Rightarrow> bool" where
  "clip_ok b strm c \<longleftrightarrow> unat (c_skip c) + unat (c_len c) \<le> length (c_ptr c) \<and>
     pos b (c_seq c) + unat (c_len c) < 2 ^ 31 \<and>
     (\<forall>i < unat (c_len c). c_ptr c ! (unat (c_skip c) + i) = strm (c_seq c + of_nat i))"

definition clip_end :: "u32 \<Rightarrow> clip \<Rightarrow> nat" where
  "clip_end b c = pos b (c_seq c) + unat (c_len c)"

lemma clip_end_pos: "clip_ok b strm c \<Longrightarrow> pos b (c_seq c + c_len c) = clip_end b c"
  using pos_add[of b "c_seq c" "unat (c_len c)"] by (simp add: clip_ok_def clip_end_def)

text \<open>A run of clips without gaps.\<close>
fun chained :: "u32 \<Rightarrow> clip list \<Rightarrow> bool" where
  "chained b (c # d # cs) \<longleftrightarrow> pos b (c_seq c) \<le> pos b (c_seq d) \<and> pos b (c_seq d) \<le> clip_end b c \<and> chained b (d # cs)"
| "chained b _ \<longleftrightarrow> True"

lemma chained_snoc:
  "xs \<noteq> [] \<Longrightarrow> chained b (xs @ [c]) \<longleftrightarrow>
     chained b xs \<and> pos b (c_seq (last xs)) \<le> pos b (c_seq c) \<and> pos b (c_seq c) \<le> clip_end b (last xs)"
  by (induction b xs rule: chained.induct) auto

lemma chained_hd: "chained b xs \<Longrightarrow> c \<in> set xs \<Longrightarrow> pos b (c_seq (hd xs)) \<le> pos b (c_seq c)"
  by (induction b xs rule: chained.induct) auto

lemma asm_scan_spec:
  assumes "asm_scan xs run tot tseq must_have = Some (run', tot')"
    and "\<forall>c\<in>set (run @ xs). clip_ok b strm c" "pos b tseq < 2 ^ 31"
    and "sorted_wrt (\<lambda>c d. pos b (c_seq c) < pos b (c_seq d)) xs"
    and "chained b run" "run \<noteq> [] \<Longrightarrow> xs \<noteq> [] \<Longrightarrow> pos b (c_seq (last run)) \<le> pos b (c_seq (hd xs)) \<and> pos b (c_seq (hd xs)) \<le> clip_end b (last run)"
    and "\<forall>c\<in>set run. clip_end b c \<le> pos b (c_seq (hd run)) + unat tot"
  shows "chained b run' \<and> set run' \<subseteq> set (run @ xs) \<and>
    (\<forall>c\<in>set run'. clip_end b c \<le> pos b (c_seq (hd run')) + unat tot')"
  using assms
proof (induction xs run tot tseq must_have rule: asm_scan.induct)
  case (2 itr rest run tot tseq must_have)
  let ?run = "run @ [itr]" let ?fin = "c_seq itr + c_len itr"
  let ?tot = "max tot (?fin - c_seq (hd ?run))"
  have ok: "clip_ok b strm itr" "\<forall>c\<in>set rest. clip_ok b strm c" "\<forall>c\<in>set run. clip_ok b strm c" using 2(4) by auto
  have e: "pos b ?fin = clip_end b itr" using clip_end_pos[OF ok(1)] .
  have ew: "clip_end b itr < 2 ^ 31" using ok(1) by (simp add: clip_ok_def clip_end_def)
  have ch: "chained b ?run" using 2(7,8) by (cases "run = []") (auto simp: chained_snoc)
  have hd: "pos b (c_seq (hd ?run)) \<le> pos b (c_seq itr)" using chained_hd[OF ch, of itr] by simp
  have tot: "unat (?fin - c_seq (hd ?run)) = clip_end b itr - pos b (c_seq (hd ?run))"
    using hd e by (subst pos_diff[of b]) (auto simp: clip_end_def)
  have mx: "unat ?tot = max (unat tot) (clip_end b itr - pos b (c_seq (hd ?run)))"
    unfolding tot[symmetric] by (simp add: max_def word_le_nat_alt)
  have bound: "\<forall>c\<in>set ?run. clip_end b c \<le> pos b (c_seq (hd ?run)) + unat ?tot"
    using 2(9) hd unfolding mx by (cases "run = []") (auto simp: clip_end_def intro: trans_le_add1)
  have srt: "sorted_wrt (\<lambda>c d. pos b (c_seq c) < pos b (c_seq d)) rest" "rest \<noteq> [] \<Longrightarrow> pos b (c_seq itr) \<le> pos b (c_seq (hd rest))"
    using 2(6) by (auto simp: less_imp_le)
  show ?case
  proof (cases "u32_lte ?fin tseq")
    case True
    then have "asm_scan rest [] ?tot tseq must_have = Some (run', tot')" using 2(3) by (simp add: Let_def)
    from 2(1)[OF refl refl refl True this] ok srt 2(5) show ?thesis by auto
  next
    case False
    show ?thesis
    proof (cases "rest \<noteq> [] \<and> u32_lt ?fin (c_seq (hd rest))")
      case True
      then have "run' = ?run" "tot' = ?tot" using 2(3) False by (auto simp: Let_def split: if_splits)
      then show ?thesis using ch bound by auto
    next
      case nogap: False
      then have "asm_scan rest ?run ?tot tseq must_have = Some (run', tot')" using 2(3) False by (auto simp: Let_def)
      moreover have "pos b (c_seq (hd rest)) \<le> clip_end b itr" if "rest \<noteq> []"
      proof -
        have "clip_ok b strm (hd rest)" using ok(2) that by simp
        then have "pos b (c_seq (hd rest)) < 2 ^ 31" by (simp add: clip_ok_def)
        then show ?thesis using nogap that e ew window_lt[of b ?fin "c_seq (hd rest)"] by auto
      qed
      ultimately show ?thesis
        using 2(2)[OF refl refl refl False nogap] ok srt ch bound 2(5) by auto
    qed
  qed
qed auto

lemma take_bit_24: "unat (x :: u32) < 2 ^ 24 \<Longrightarrow> take_bit 24 x = x"
  by (simp add: word_unat_eq_iff unsigned_take_bit_eq take_bit_nat_eq_self_iff)

lemma mem_read_clip:
  "clip_ok b strm c \<Longrightarrow> \<exists>src. mem_read (c_ptr c) (unat (c_skip c)) (unat (c_len c)) = Some src \<and>
     length src = unat (c_len c) \<and> (\<forall>i < unat (c_len c). src ! i = strm (c_seq c + of_nat i))"
  by (auto simp: mem_read_def clip_ok_def)

lemma mem_write_nth:
  assumes "off + length src \<le> length buf"
  shows "\<exists>buf'. mem_write buf off src = Some buf' \<and> length buf' = length buf \<and>
    (\<forall>i < length buf. buf' ! i = (if off \<le> i \<and> i < off + length src then src ! (i - off) else buf ! i))"
  using assms by (auto simp: mem_write_def nth_append)

lemma asm_copy_spec:
  assumes "chained b run" "\<forall>c\<in>set run. clip_ok b strm c \<and> pos b fseq \<le> pos b (c_seq c) \<and> clip_end b c \<le> pos b fseq + N"
    and "run \<noteq> [] \<Longrightarrow> pos b (c_seq (hd run)) \<le> pos b fseq + unat len"
    and "N \<le> length buf" "N < 2 ^ 24" "unat len \<le> N" "\<forall>i < unat len. buf ! i = strm (fseq + of_nat i)"
  shows "\<exists>buf' len'. asm_copy run fseq buf len = Some (buf', len') \<and> length buf' = length buf \<and>
    unat len \<le> unat len' \<and> unat len' \<le> N \<and> (\<forall>c\<in>set run. clip_end b c \<le> pos b fseq + unat len') \<and>
    (\<forall>i < unat len'. buf' ! i = strm (fseq + of_nat i))"
  using assms
proof (induction run arbitrary: buf len)
  case (Cons c run)
  let ?off = "unat (c_seq c - fseq)" let ?n = "unat (c_len c)"
  let ?fin = "c_seq c + c_len c - fseq"
  have ok: "clip_ok b strm c" and ge: "pos b fseq \<le> pos b (c_seq c)" and ce: "clip_end b c \<le> pos b fseq + N"
    using Cons.prems(2) by auto
  have off: "?off = pos b (c_seq c) - pos b fseq" using ge by (rule pos_diff)
  have fin': "unat ?fin = clip_end b c - pos b fseq"
    using pos_diff[of b fseq "c_seq c + c_len c"] clip_end_pos[OF ok] ge by (simp add: clip_end_def)
  then have fit: "unat ?fin = ?off + ?n" "?off + ?n \<le> N" using off ge ce by (auto simp: clip_end_def)
  then have tb: "take_bit 24 ?fin = ?fin"
    using Cons.prems(5) by (intro take_bit_24) simp
  obtain src where src: "mem_read (c_ptr c) (unat (c_skip c)) ?n = Some src" "length src = ?n"
      "\<forall>i < ?n. src ! i = strm (c_seq c + of_nat i)"
    using mem_read_clip[OF ok] by blast
  obtain buf' where buf': "mem_write buf ?off src = Some buf'" "length buf' = length buf"
      "\<forall>i < length buf. buf' ! i = (if ?off \<le> i \<and> i < ?off + ?n then src ! (i - ?off) else buf ! i)"
    using mem_write_nth[of ?off src buf] fit(2) Cons.prems(4) src(2) by auto
  let ?len = "max ?fin len"
  have ul: "unat ?len = max (?off + ?n) (unat len)" by (simp add: max_def word_le_nat_alt fit(1))
  have seq: "c_seq c = fseq + of_nat ?off" by simp
  have gap: "?off \<le> unat len" using Cons.prems(3) off by simp
  have stream: "buf' ! i = strm (fseq + of_nat i)" if "i < unat ?len" for i
  proof -
    have il: "i < length buf" using that ul fit(2) Cons.prems(4,6) by simp
    show ?thesis
    proof (cases "?off \<le> i \<and> i < ?off + ?n")
      case True
      then have "i - ?off < ?n" by linarith
      then have "src ! (i - ?off) = strm (fseq + (of_nat ?off + of_nat (i - ?off)))"
        using src(3) by (simp add: algebra_simps)
      also have "of_nat ?off + of_nat (i - ?off) = (of_nat i :: u32)"
        using True by (simp flip: of_nat_add)
      finally show ?thesis using buf'(3) il True by simp
    next
      case False
      then have "i < unat len" using that ul gap by auto
      then show ?thesis using buf'(3) il False Cons.prems(7) by auto
    qed
  qed
  have next': "run \<noteq> [] \<Longrightarrow> pos b (c_seq (hd run)) \<le> pos b fseq + unat ?len"
    using Cons.prems(1) off ge ul by (cases run) (auto simp: clip_end_def)
  have "chained b run" using Cons.prems(1) by (cases run) auto
  then have "\<exists>b' l'. asm_copy run fseq buf' ?len = Some (b', l') \<and> length b' = length buf' \<and> unat ?len \<le> unat l' \<and>
     unat l' \<le> N \<and> (\<forall>c\<in>set run. clip_end b c \<le> pos b fseq + unat l') \<and> (\<forall>i < unat l'. b' ! i = strm (fseq + of_nat i))"
    using Cons.prems next' stream buf'(2) fit(2) ul by (intro Cons.IH) auto
  then obtain b' l' where r: "asm_copy run fseq buf' ?len = Some (b', l')" "length b' = length buf'" "unat ?len \<le> unat l'"
      "unat l' \<le> N" "\<forall>c\<in>set run. clip_end b c \<le> pos b fseq + unat l'" "\<forall>i < unat l'. b' ! i = strm (fseq + of_nat i)"
    by blast
  have "clip_end b c - pos b fseq \<le> unat l'" using r(3) ul fin' fit(1) by simp
  then have "clip_end b c \<le> pos b fseq + unat l'" by linarith
  moreover have "unat len \<le> unat l'" using r(3) ul by simp
  moreover have "asm_copy (c # run) fseq buf len = Some (b', l')" using src(1) buf'(1) r(1) tb by simp
  ultimately show ?case using r buf'(2) by simp
qed simp

lemma asm_inv_sorted:
  assumes "asm_inv b a"
  shows "sorted_wrt (\<lambda>c d. pos b (c_seq c) < pos b (c_seq d)) (clips_of a)"
proof -
  have D: "set (clips_of a) \<subseteq> clip_window b" and srt: "sorted_wrt (\<lambda>c d. asm_compare c d < 0) (clips_of a)"
    using assms by (simp_all add: asm_inv_def)
  from srt D show ?thesis
    by (elim sorted_wrt_mono_rel[rotated]) (meson asm_compare_window(1) subsetD)
qed

lemma asm_construct_sound:
  assumes "asm_inv b a" and "\<forall>c\<in>set (clips_of a). clip_ok b strm c"
    and "pos b (c_seq target) < 2 ^ 31" and "unat (c_len target) \<le> length (c_ptr target)" and "unat (c_len target) < 2 ^ 24"
  shows "\<exists>res t. asm_construct a target must_have = Some (res, t) \<and>
    (res = ASM_OK \<longrightarrow> u32_lte (c_seq t) (c_seq target) \<and> unat (c_len t) \<le> unat (c_len target) \<and>
       length (c_ptr t) = length (c_ptr target) \<and>
       (\<forall>i < unat (c_len t). c_ptr t ! i = strm (c_seq t + of_nat i)))"
proof -
  have fe: "asm_foreach a = Some (clips_of a)" by (simp add: asm_foreach_def tree_traverse_inorder)
  show ?thesis
  proof (cases "asm_count a \<le> 1 \<or> asm_scan (clips_of a) [] 0 (c_seq target) must_have = None")
    case False
    then obtain run tot where sc: "asm_scan (clips_of a) [] 0 (c_seq target) must_have = Some (run, tot)" by auto
    have run: "chained b run" "set run \<subseteq> set (clips_of a)" "\<forall>c\<in>set run. clip_end b c \<le> pos b (c_seq (hd run)) + unat tot"
      using asm_scan_spec[OF sc, of b strm] assms(2,3) asm_inv_sorted[OF assms(1)] by auto
    show ?thesis
    proof (cases "length run \<le> 1 \<or> u32_lt (c_seq target) (c_seq (hd run)) \<or> tot > c_len target")
      case True
      then show ?thesis using False fe sc by (auto simp: asm_construct_def)
    next
      case nf: False
      let ?f = "c_seq (hd run)"
      have f: "hd run \<in> set run" using nf by (cases run) auto
      then have "clip_ok b strm (hd run)" using run(2) assms(2) by blast
      then have "pos b ?f < 2 ^ 31" by (simp add: clip_ok_def)
      then have le: "u32_lte ?f (c_seq target)"
        using nf assms(3) by (simp add: window_lt[of b] window_lte[of b])
      have tot: "unat tot \<le> unat (c_len target)" using nf by (simp add: not_less word_le_nat_alt)
      have "\<exists>buf' len'. asm_copy run ?f (c_ptr target) 0 = Some (buf', len') \<and> length buf' = length (c_ptr target) \<and>
          unat (0 :: u32) \<le> unat len' \<and> unat len' \<le> unat tot \<and> (\<forall>c\<in>set run. clip_end b c \<le> pos b ?f + unat len') \<and>
          (\<forall>i < unat len'. buf' ! i = strm (?f + of_nat i))"
        using run assms(2,4,5) tot chained_hd[OF run(1)] by (intro asm_copy_spec) auto
      then obtain buf' len' where cp: "asm_copy run ?f (c_ptr target) 0 = Some (buf', len')"
          "length buf' = length (c_ptr target)" "unat len' \<le> unat tot" "\<forall>i < unat len'. buf' ! i = strm (?f + of_nat i)"
        by blast
      have "asm_construct a target must_have = Some (ASM_OK, target\<lparr>c_ptr := buf', c_len := len', c_seq := ?f\<rparr>)"
        using False fe sc nf cp(1) by (simp add: asm_construct_def)
      then show ?thesis using le cp tot by simp
    qed
  qed (use fe in \<open>auto simp: asm_construct_def\<close>)
qed

text \<open>C7. Reassembly is safe and correct. When every cached clip holds a piece of one byte stream and all
  sequence numbers lie in one half of the number space, \<open>asm_construct\<close> never reads or writes outside
  the clips and the target buffer, and when it reports \<open>ASM_OK\<close> the target holds exactly the stream's
  bytes from the returned sequence number on, starting no later than the requested one, for at most
  the capacity of the buffer.\<close>
theorem asm_construct_stream:
  assumes "asm_inv b a" and "\<forall>c\<in>set (clips_of a). clip_ok b strm c"
    and "pos b (c_seq target) < 2 ^ 31" and "unat (c_len target) \<le> length (c_ptr target)" and "unat (c_len target) < 2 ^ 24"
  shows "\<exists>res t. asm_construct a target must_have = Some (res, t) \<and>
    (res = ASM_OK \<longrightarrow> u32_lte (c_seq t) (c_seq target) \<and> unat (c_len t) \<le> unat (c_len target) \<and>
       length (c_ptr t) = length (c_ptr target) \<and>
       (\<forall>i < unat (c_len t). c_ptr t ! i = strm (c_seq t + of_nat i)))"
  using assms by (rule asm_construct_sound)

definition piece :: "nat \<Rightarrow> nat \<Rightarrow> clip" where
  "piece s n = \<lparr>c_ptr = map (\<lambda>i. of_nat (s + i)) [0..<n], c_seq = of_nat s, c_len = of_nat n, c_action = 0, c_skip = 0\<rparr>"

definition asm_two :: asm_t where
  "asm_two = snd (asm_insert (snd (asm_insert asm_init (piece 4 3))) (piece 0 4))"

lemma asm_two_simps:
  "clips_of asm_two = [piece 0 4, piece 4 3]" "asm_count asm_two = 2"
  by code_simp+

lemma asm_two_inv: "asm_inv 0 asm_two"
proof -
  have "asm_inv 0 (snd (asm_insert asm_init (piece 4 3)))"
    using asm_insert_spec[OF asm_inv_init[of 0], of "piece 4 3"]
    by (auto simp: clip_window_def piece_def pos_def asm_init_def tree_init_def)
  moreover have "clips_of (snd (asm_insert asm_init (piece 4 3))) = [piece 4 3]" by code_simp
  ultimately show ?thesis
    using asm_insert_spec[of 0 "snd (asm_insert asm_init (piece 4 3))" "piece 0 4"]
    by (auto simp: asm_two_def clip_window_def piece_def pos_def)
qed

theorem asm_construct_stream_witness:
  "\<exists>t. asm_construct asm_two \<lparr>c_ptr = replicate 16 0, c_seq = 0, c_len = 16, c_action = 0, c_skip = 0\<rparr> 6 = Some (ASM_OK, t) \<and>
     (\<forall>i < unat (c_len t). c_ptr t ! i = ucast (c_seq t + of_nat i)) \<and> c_len t = 7"
proof -
  let ?t = "\<lparr>c_ptr = replicate 16 0, c_seq = 0, c_len = 16, c_action = 0, c_skip = 0\<rparr>"
  let ?strm = "\<lambda>s :: u32. ucast s :: byte"
  have less4: "i < 4 \<Longrightarrow> i = 0 \<or> i = 1 \<or> i = 2 \<or> i = 3" "i < 3 \<Longrightarrow> i = 0 \<or> i = 1 \<or> i = 2" for i :: nat by linarith+
  have ok: "clip_ok 0 ?strm (piece 0 4)" "clip_ok 0 ?strm (piece 4 3)"
    by (auto simp: clip_ok_def piece_def pos_def dest: less4)
  have p: "\<forall>c\<in>set (clips_of asm_two). clip_ok 0 ?strm c" "pos 0 (c_seq ?t) < 2 ^ 31"
      "unat (c_len ?t) \<le> length (c_ptr ?t)" "unat (c_len ?t) < 2 ^ 24"
    unfolding asm_two_simps using ok by (simp_all add: pos_def)
  have "map_option (\<lambda>(r, t). (r, c_len t)) (asm_construct asm_two ?t 6) = Some (ASM_OK, 7)" by code_simp
  then show ?thesis using asm_construct_stream[OF asm_two_inv p, of 6] by auto
qed

subsection \<open>Flushing\<close>

lemma tree_first_spec:
  assumes "t \<noteq> Leaf"
  obtains a r c where "tree_first_node t = Some (Node Leaf a r, c)" "before c = []" "inorder t = a # inorder r @ after c"
    "up (Node Leaf a r, c) = t"
proof -
  obtain l a r c where f: "follow_left t [] = (Node l a r, c)" "l = Leaf"
      "inorder t @ after [] = a # inorder r @ after c" "before c = before []" "up (Node l a r, c) = up (t, [])"
    using assms by (rule follow_left_spec)
  then show ?thesis using assms by (intro that[of a r c]) (auto simp: tree_first_node_def follow_def)
qed

lemma flush_loop_spec:
  "\<exists>a'. flush_loop a seq = Some (a', takeWhile (\<lambda>c. u32_lte (c_seq c + c_len c) seq) (clips_of a)) \<and>
     clips_of a' = dropWhile (\<lambda>c. u32_lte (c_seq c + c_len c) seq) (clips_of a) \<and>
     asm_count a' = asm_count a - of_nat (length (takeWhile (\<lambda>c. u32_lte (c_seq c + c_len c) seq) (clips_of a))) \<and>
     a_gross a' = a_gross a - sum_list (map c_len (takeWhile (\<lambda>c. u32_lte (c_seq c + c_len c) seq) (clips_of a)))"
proof (induction "length (clips_of a)" arbitrary: a rule: less_induct)
  case less
  show ?case
  proof (cases "t_root (a_tree a) = Leaf")
    case True
    then show ?thesis by (subst flush_loop.simps) (simp add: tree_first_node_def)
  next
    case False
    then obtain x r c where f: "tree_first_node (t_root (a_tree a)) = Some (Node Leaf x r, c)" "before c = []"
        "clips_of a = x # inorder r @ after c" by (rule tree_first_spec)
    let ?a = "asm_remove a (Node Leaf x r, c)"
    have cl: "clips_of ?a = inorder r @ after c"
      by (simp add: asm_remove_def tree_remove_node_inorder f(2))
    have cnt: "asm_count ?a = asm_count a - 1" "a_gross ?a = a_gross a - c_len x"
      by (simp_all add: asm_remove_def asm_count_def tree_remove_node_def Let_def)
    have "length (clips_of ?a) < length (clips_of a)" by (simp only: cl f(3)) simp
    note IH = less.hyps[OF this, unfolded cl]
    show ?thesis
      using IH f cnt
      by (subst flush_loop.simps) (auto simp: cl simp del: length_inorder)
  qed
qed

lemma sorted_wrt_less_inj:
  "sorted_wrt (\<lambda>c d. (f c :: nat) < f d) xs \<Longrightarrow> c \<in> set xs \<Longrightarrow> d \<in> set xs \<Longrightarrow> f c = f d \<Longrightarrow> c = d"
  by (induction xs) auto

lemma asm_lookup_spec:
  assumes "asm_inv b a" "c \<in> set (clips_of a)"
  shows "\<exists>l. asm_lookup a (c_seq c) = Some l \<and> loc_val l = Some c"
proof -
  let ?k = "\<lparr>c_ptr = [], c_seq = c_seq c, c_len = 0, c_action = 0, c_skip = 0\<rparr>"
  have D: "set (clips_of a) \<subseteq> clip_window b" "sorted_wrt (\<lambda>c d. asm_compare c d < 0) (clips_of a)"
    using assms(1) by (simp_all add: asm_inv_def)
  have k: "?k \<in> clip_window b" using D(1) assms(2) by (auto simp: clip_window_def)
  have eq: "asm_compare ?k d = 0 \<longleftrightarrow> d = c" if d: "d \<in> set (clips_of a)" for d
  proof -
    have "c_seq c = c_seq d \<longrightarrow> c = d"
      using sorted_wrt_less_inj[OF asm_inv_sorted[OF assms(1)] assms(2) d] by auto
    then show ?thesis using asm_compare_window(3)[OF k, of d] D(1) d by auto
  qed
  show ?thesis
  proof (cases "tree_find_node asm_compare (a_tree a) ?k")
    case None
    then show ?thesis using asm_order.find_node_spec[OF k D] eq[OF assms(2)] assms(2) by auto
  next
    case (Some y)
    then obtain d where d: "loc_val y = Some d" "asm_compare ?k d = 0" "up y = t_root (a_tree a)"
      using asm_order.find_node_spec[OF k D] by auto
    then obtain l r ctx where "y = (Node l d r, ctx)" by (cases y rule: loc_val.cases) auto
    then have "d \<in> set (clips_of a)" using d(3)[symmetric] inorder_up[where t = "Node l d r" and c = ctx]
      by (simp del: set_inorder)
    then have "d = c" using eq d(2) by blast
    then show ?thesis using Some d(1) by (simp add: asm_lookup_def)
  qed
qed



text \<open>C10. Flushing a cache up to a sequence number ends, removes exactly the leading clips that end at or
  before that number, and keeps the invariant of the cache.\<close>
theorem asm_flush_prefix:
  assumes "asm_inv b a" and "length (clips_of a) < 2 ^ 32"
  shows "\<exists>a'. asm_flush a seq = Some (a', takeWhile (\<lambda>c. u32_lte (c_seq c + c_len c) seq) (clips_of a)) \<and>
    clips_of a' = dropWhile (\<lambda>c. u32_lte (c_seq c + c_len c) seq) (clips_of a) \<and> asm_inv b a'"
proof (cases "asm_count a = 0")
  case True
  then have "unat (of_nat (length (clips_of a)) :: u32) = 0" using assms(1) by (simp add: asm_inv_def del: length_inorder)
  then have "clips_of a = []" using assms(2) by (simp add: unat_of_nat take_bit_nat_eq_self del: length_inorder)
  then show ?thesis using True assms(1) by (simp add: asm_flush_def)
next
  case False
  let ?P = "\<lambda>c. u32_lte (c_seq c + c_len c) seq"
  obtain a' where a': "flush_loop a seq = Some (a', takeWhile ?P (clips_of a))" "clips_of a' = dropWhile ?P (clips_of a)"
      "asm_count a' = asm_count a - of_nat (length (takeWhile ?P (clips_of a)))"
      "a_gross a' = a_gross a - sum_list (map c_len (takeWhile ?P (clips_of a)))"
    using flush_loop_spec[of a seq] by blast
  have split: "clips_of a = takeWhile ?P (clips_of a) @ clips_of a'" by (simp add: a'(2))
  have len: "length (clips_of a) = length (takeWhile ?P (clips_of a)) + length (clips_of a')"
    by (subst split) (simp only: length_append)
  have sum: "sum_list (map c_len (clips_of a)) = sum_list (map c_len (takeWhile ?P (clips_of a))) + sum_list (map c_len (clips_of a'))"
    by (subst split) simp
  have "sorted_wrt (\<lambda>c d. asm_compare c d < 0) (takeWhile ?P (clips_of a) @ clips_of a')"
    "set (takeWhile ?P (clips_of a) @ clips_of a') \<subseteq> clip_window b"
    using assms(1) unfolding split[symmetric] by (simp_all add: asm_inv_def)
  then have "asm_inv b a'"
    using assms(1) a'(3,4) len sum by (simp add: asm_inv_def sorted_wrt_append del: length_inorder set_inorder)
  then show ?thesis using False a'(1,2) by (simp add: asm_flush_def)
qed

theorem asm_flush_prefix_witness:
  "\<exists>a'. asm_flush asm_two 4 = Some (a', [piece 0 4]) \<and> clips_of a' = [piece 4 3]"
proof -
  have e: "takeWhile (\<lambda>c. u32_lte (c_seq c + c_len c) 4) [piece 0 4, piece 4 3] = [piece 0 4]"
    "dropWhile (\<lambda>c. u32_lte (c_seq c + c_len c) 4) [piece 0 4, piece 4 3] = [piece 4 3]" by code_simp+
  show ?thesis using asm_flush_prefix[OF asm_two_inv, of 4] unfolding asm_two_simps(1) e by auto
qed

end
