(* ===== verification/DP_RcuMap.thy ===== *)
theory DP_RcuMap
  imports DP_Helper
begin

text \<open>
  The hash table of \<open>utils/rcu_map.c\<close> on top of the vendored \<open>rculfhash.c\<close>, seen sequentially.
  \<open>rculfhash\<close> keeps all nodes in one list ordered by the bit-reversed hash; bucket nodes are only
  entry points into it and are left out. A new node goes behind every node of the same hash, so a
  lookup meets the oldest of several matching nodes first. The table is the list of the nodes with
  their hashes; the match function of a table is given at each lookup, as the key it closes over.
\<close>

type_synonym 'd rcu_map = "(u32 \<times> 'd) list"

text \<open>\<open>bit_reverse_ulong\<close> on the 32 significant bits of the hash.\<close>
definition bit_reverse :: "u32 \<Rightarrow> u32" where
  "bit_reverse h = horner_sum of_bool 2 (rev (map (bit h) [0..<32]))"

text \<open>\<open>_cds_lfht_add\<close> walks to the first node with a greater reversed hash.\<close>
fun cds_lfht_add :: "'d rcu_map \<Rightarrow> u32 \<Rightarrow> 'd \<Rightarrow> 'd rcu_map" where
  "cds_lfht_add [] h d = [(h, d)]"
| "cds_lfht_add ((h', d') # m) h d =
     (if bit_reverse h' > bit_reverse h then (h, d) # (h', d') # m
      else (h', d') # cds_lfht_add m h d)"

fun cds_lfht_lookup :: "'d rcu_map \<Rightarrow> u32 \<Rightarrow> ('d \<Rightarrow> bool) \<Rightarrow> 'd option" where
  "cds_lfht_lookup [] h match = None"
| "cds_lfht_lookup ((h', d) # m) h match =
     (if bit_reverse h' > bit_reverse h then None
      else if bit_reverse h' = bit_reverse h \<and> match d then Some d
      else cds_lfht_lookup m h match)"

definition rcu_map_init :: "'d rcu_map" where
  "rcu_map_init = []"

definition rcu_map_add :: "'d rcu_map \<Rightarrow> ('k \<Rightarrow> u32) \<Rightarrow> 'd \<Rightarrow> 'k \<Rightarrow> 'd rcu_map" where
  "rcu_map_add m hash data key = cds_lfht_add m (hash key) data"

definition rcu_map_lookup ::
  "'d rcu_map \<Rightarrow> ('k \<Rightarrow> u32) \<Rightarrow> ('d \<Rightarrow> 'k \<Rightarrow> bool) \<Rightarrow> 'k \<Rightarrow> 'd option" where
  "rcu_map_lookup m hash match key = cds_lfht_lookup m (hash key) (\<lambda>d. match d key)"

text \<open>\<open>rcu_map_for_each\<close>: the callback may stop the walk; its state is threaded.\<close>
fun rcu_map_for_each :: "'d rcu_map \<Rightarrow> ('d \<Rightarrow> 's \<Rightarrow> 's \<times> bool) \<Rightarrow> 's \<Rightarrow> 's" where
  "rcu_map_for_each [] f s = s"
| "rcu_map_for_each ((h, d) # m) f s =
     (let (s', stop) = f d s in if stop then s' else rcu_map_for_each m f s')"

text \<open>\<open>rcu_map_del\<close> unlinks one node, found by its address (the predicate \<open>is_node\<close>); the second
  component is whether the node was linked.\<close>
definition rcu_map_del :: "'d rcu_map \<Rightarrow> ('d \<Rightarrow> bool) \<Rightarrow> 'd rcu_map \<times> bool" where
  "rcu_map_del m is_node = (filter (\<lambda>(h, d). \<not> is_node d) m, \<exists>(h, d) \<in> set m. is_node d)"

text \<open>An update of node contents in place, through a pointer to the node.\<close>
definition rcu_map_upd :: "'d rcu_map \<Rightarrow> ('d \<Rightarrow> bool) \<Rightarrow> ('d \<Rightarrow> 'd) \<Rightarrow> 'd rcu_map" where
  "rcu_map_upd m is_node f = map (\<lambda>(h, d). (h, if is_node d then f d else d)) m"

subsection \<open>The order of the list\<close>

lemma bit_bit_reverse: "i < 32 \<Longrightarrow> bit (bit_reverse h) i = bit h (31 - i)"
  unfolding bit_reverse_def bit_horner_sum_bit_word_iff by (simp add: rev_nth del: upt_rec_numeral)

lemma bit_reverse_inj [simp]: "bit_reverse a = bit_reverse b \<longleftrightarrow> a = b"
proof
  assume eq: "bit_reverse a = bit_reverse b"
  show "a = b"
  proof (rule bit_word_eqI)
    fix n assume "n < LENGTH(32)"
    then have "bit a n = bit (bit_reverse a) (31 - n)" "bit b n = bit (bit_reverse b) (31 - n)"
      by (simp_all add: bit_bit_reverse)
    then show "bit a n = bit b n" using eq by simp
  qed
qed simp

definition rm_sorted :: "'d rcu_map \<Rightarrow> bool" where
  "rm_sorted m = sorted (map (bit_reverse \<circ> fst) m)"

lemma set_cds_lfht_add [simp]: "set (cds_lfht_add m h d) = insert (h, d) (set m)"
  by (induction m h d rule: cds_lfht_add.induct) auto

lemma rm_sorted_init [simp]: "rm_sorted rcu_map_init"
  by (simp add: rm_sorted_def rcu_map_init_def)

lemma rm_sorted_lfht_add: "rm_sorted m \<Longrightarrow> rm_sorted (cds_lfht_add m h d)"
  unfolding rm_sorted_def
  by (induction m h d rule: cds_lfht_add.induct) (auto simp: not_less less_imp_le intro: order_trans)

lemma rm_sorted_add: "rm_sorted m \<Longrightarrow> rm_sorted (rcu_map_add m hash d k)"
  by (simp add: rcu_map_add_def rm_sorted_lfht_add)

lemma rm_sorted_filter: "rm_sorted m \<Longrightarrow> rm_sorted (filter P m)"
  unfolding rm_sorted_def by (rule sorted_filter)

lemma rm_sorted_upd [simp]: "rm_sorted (rcu_map_upd m n f) = rm_sorted m"
  by (simp add: rm_sorted_def rcu_map_upd_def comp_def case_prod_beta)

text \<open>In an ordered list the early exit loses nothing: the lookup is the first node with the hash
  that matches.\<close>
lemma cds_lfht_lookup_find:
  "rm_sorted m \<Longrightarrow> cds_lfht_lookup m h P = map_option snd (find (\<lambda>(h', d). h' = h \<and> P d) m)"
proof (induction m h P rule: cds_lfht_lookup.induct)
  case (2 h' d m h P)
  have sorted: "rm_sorted m" using 2(2) by (simp add: rm_sorted_def)
  show ?case
  proof (cases "bit_reverse h' > bit_reverse h")
    case True
    have "h'' \<noteq> h" if "(h'', d'') \<in> set ((h', d) # m)" for h'' d''
      using True 2(2) that by (auto simp: rm_sorted_def dest: leD)
    then have "find (\<lambda>(h', d). h' = h \<and> P d) ((h', d) # m) = None"
      unfolding find_None_iff by auto
    then show ?thesis using True by simp
  next
    case False
    then show ?thesis using 2(1) sorted by auto
  qed
qed simp

lemma find_lfht_add:
  "rm_sorted m \<Longrightarrow> find (\<lambda>(h', d). h' = h \<and> P d) (cds_lfht_add m h0 d0) =
     (case find (\<lambda>(h', d). h' = h \<and> P d) m of
        Some x \<Rightarrow> Some x | None \<Rightarrow> if h0 = h \<and> P d0 then Some (h0, d0) else None)"
proof (induction m h0 d0 rule: cds_lfht_add.induct)
  case (2 h' d' m h0 d0)
  have sorted: "rm_sorted m" using 2(2) by (simp add: rm_sorted_def)
  show ?case
  proof (cases "bit_reverse h' > bit_reverse h0")
    case True
    have "find (\<lambda>(h', d). h' = h \<and> P d) ((h', d') # m) = None" if "h0 = h"
      using True 2(2) that unfolding find_None_iff by (auto simp: rm_sorted_def dest: leD)
    then show ?thesis using True by (auto split: option.splits)
  next
    case False
    then show ?thesis using 2(1) sorted by auto
  qed
qed simp

subsection \<open>First-match stores: the interface of the table's clients\<close>

text \<open>A store of nodes that are added at the end and looked up first match first.\<close>
locale first_match_store =
  fixes inv :: "'m \<Rightarrow> bool" and init :: 'm
    and add :: "'m \<Rightarrow> 'd \<Rightarrow> 'k \<Rightarrow> 'm" and lookup :: "'m \<Rightarrow> 'k \<Rightarrow> 'd option"
    and match :: "'d \<Rightarrow> 'k \<Rightarrow> bool"
  assumes inv_init: "inv init"
    and inv_add: "inv m \<Longrightarrow> inv (add m d k)"
    and lookup_init: "lookup init k = None"
    and lookup_add: "inv m \<Longrightarrow> match d k0 \<Longrightarrow> lookup (add m d k0) k =
      (case lookup m k of Some x \<Rightarrow> Some x | None \<Rightarrow> if match d k then Some d else None)"
begin

lemma inv_fold: "inv m \<Longrightarrow> inv (foldl (\<lambda>m (d, k). add m d k) m xs)"
  by (induction xs arbitrary: m) (auto intro: inv_add)

lemma lookup_fold:
  assumes "inv m" "\<And>d k. (d, k) \<in> set xs \<Longrightarrow> match d k"
  shows "lookup (foldl (\<lambda>m (d, k). add m d k) m xs) k =
     (case lookup m k of Some x \<Rightarrow> Some x | None \<Rightarrow> find (\<lambda>d. match d k) (map fst xs))"
  using assms
proof (induction xs arbitrary: m)
  case (Cons x xs)
  obtain d k0 where x: "x = (d, k0)" by (cases x)
  have "lookup (foldl (\<lambda>m (d, k). add m d k) (add m d k0) xs) k =
      (case lookup (add m d k0) k of Some x \<Rightarrow> Some x | None \<Rightarrow> find (\<lambda>d. match d k) (map fst xs))"
    using Cons x by (intro Cons.IH inv_add) auto
  moreover have "match d k0" using Cons.prems(2) x by simp
  ultimately show ?case
    using x lookup_add[OF Cons.prems(1), of d k0 k] by (simp split: option.splits)
qed (simp split: option.splits)

lemma lookup_build:
  assumes "\<And>d k. (d, k) \<in> set xs \<Longrightarrow> match d k"
  shows "lookup (foldl (\<lambda>m (d, k). add m d k) init xs) k = find (\<lambda>d. match d k) (map fst xs)"
  using lookup_fold[OF inv_init assms, of xs k] by (simp add: lookup_init)

lemma lookup_add_Some: "inv m \<Longrightarrow> match d k0 \<Longrightarrow> lookup m k = Some x \<Longrightarrow> lookup (add m d k0) k = Some x"
  by (simp add: lookup_add)

lemma lookup_add_None:
  "inv m \<Longrightarrow> match d k0 \<Longrightarrow> lookup m k = None \<Longrightarrow>
     lookup (add m d k0) k = (if match d k then Some d else None)"
  by (simp add: lookup_add)

end

text \<open>What a table's hash and match functions have to satisfy: two keys that match a common node
  have the same hash.\<close>
definition hash_respects :: "('k \<Rightarrow> u32) \<Rightarrow> ('d \<Rightarrow> 'k \<Rightarrow> bool) \<Rightarrow> bool" where
  "hash_respects hash match \<longleftrightarrow> (\<forall>d k k'. match d k \<longrightarrow> match d k' \<longrightarrow> hash k = hash k')"

lemma rcu_map_lookup_add:
  assumes "rm_sorted m" "hash_respects hash match" "match d k0"
  shows "rcu_map_lookup (rcu_map_add m hash d k0) hash match k =
      (case rcu_map_lookup m hash match k of
         Some x \<Rightarrow> Some x | None \<Rightarrow> if match d k then Some d else None)"
proof -
  have "match d k \<Longrightarrow> hash k0 = hash k" using assms(2,3) unfolding hash_respects_def by blast
  then show ?thesis
    by (auto simp: assms(1) rcu_map_lookup_def rcu_map_add_def cds_lfht_lookup_find rm_sorted_lfht_add
        find_lfht_add split: option.splits)
qed

lemma rcu_first_match:
  assumes "hash_respects hash match"
  shows "first_match_store rm_sorted rcu_map_init (\<lambda>m d k. rcu_map_add m hash d k)
     (\<lambda>m k. rcu_map_lookup m hash match k) match"
  by unfold_locales
    (simp_all add: rm_sorted_add rcu_map_lookup_add[OF _ assms],
      simp add: rcu_map_lookup_def rcu_map_init_def)

lemma rcu_map_lookup_SomeD:
  assumes "rcu_map_lookup m hash match k = Some d"
  shows "(hash k, d) \<in> set m \<and> match d k"
proof -
  have "cds_lfht_lookup m h P = Some d \<Longrightarrow> (h, d) \<in> set m \<and> P d" for h P
    by (induction m h P rule: cds_lfht_lookup.induct) (auto split: if_splits)
  then show ?thesis using assms by (auto simp: rcu_map_lookup_def)
qed

lemma set_rcu_map_add: "set (rcu_map_add m hash d k) = insert (hash k, d) (set m)"
  by (simp add: rcu_map_add_def)

lemma rcu_map_lookup_upd:
  assumes "\<And>d. n d \<Longrightarrow> match (f d) k = match d k"
  shows "rcu_map_lookup (rcu_map_upd m n f) hash match k =
     map_option (\<lambda>d. if n d then f d else d) (rcu_map_lookup m hash match k)"
proof -
  have "cds_lfht_lookup (map (\<lambda>(h, d). (h, if n d then f d else d)) m) h P =
      map_option (\<lambda>d. if n d then f d else d) (cds_lfht_lookup m h P)"
    if "\<And>d. n d \<Longrightarrow> P (f d) = P d" for h P
    using that by (induction m h P rule: cds_lfht_lookup.induct) auto
  then show ?thesis using assms by (simp add: rcu_map_lookup_def rcu_map_upd_def)
qed

lemma rcu_map_for_each_fold:
  "(\<And>d s. snd (f d s) = False) \<Longrightarrow> rcu_map_for_each m f s = foldl (\<lambda>s (h, d). fst (f d s)) s m"
  by (induction m arbitrary: s) (auto simp: split_beta Let_def)

end
