(* ===== verification/DP_PolicyTable.thy ===== *)
theory DP_PolicyTable
  imports DP_RcuMap
begin

text \<open>
  The policy rule tables of \<open>dpi/dpi_policy.c\<close>: the exact-match table \<open>policy_map\<close>, the table
  \<open>range_policy_map\<close> of range-rule lists keyed by workload address, protocol and direction, and the
  lookup of one key in them. IP addresses are the 32-bit values the code holds, in network byte
  order; the ranges compare them after \<^const>\<open>ntohl\<close>.
\<close>

record dpi_rule_key =
  k_sip :: u32
  k_dip :: u32
  k_dport :: u16
  k_proto :: u16
  k_app :: u32

record dpi_policy_desc =
  d_id :: u32
  d_action :: byte
  d_flags :: byte
  d_hdl_ver :: u16
  d_order :: u32

record dpi_rule =
  r_desc :: dpi_policy_desc
  r_key :: dpi_rule_key

record dpi_range_rule_key =
  rk_ip :: u32
  rk_proto :: u16
  rk_flag :: u16

record dpi_range_rule_item =
  i_desc :: dpi_policy_desc
  i_key_l :: dpi_rule_key
  i_key_h :: dpi_rule_key

record dpi_range_rule =
  rr_key :: dpi_range_rule_key
  rr_list :: "dpi_range_rule_item list"

record dpi_policy_hdl =
  h_ref_cnt :: u16
  h_ver :: u16
  h_policy_map :: "dpi_rule rcu_map"
  h_range_policy_map :: "dpi_range_rule rcu_map"
  h_def_action :: int
  h_apply_dir :: int
  h_flag :: u32

text \<open>The two rule counters of \<open>th_counter\<close>.\<close>
record rule_counter =
  type1_rules :: u32
  type2_rules :: u32

datatype rule_dir = POLICY_RULE_DIR_EGRESS | POLICY_RULE_DIR_INGRESS | POLICY_RULE_DIR_NONE

definition DP_RANGE_RULE_INGRESS :: u16 where "DP_RANGE_RULE_INGRESS = 1"
definition DP_RANGE_RULE_EGRESS :: u16 where "DP_RANGE_RULE_EGRESS = 2"

definition POLICY_DESC_CHECK_VER :: byte where "POLICY_DESC_CHECK_VER = 0x01"
definition POLICY_DESC_INTERNAL :: byte where "POLICY_DESC_INTERNAL = 0x02"
definition POLICY_DESC_EXTERNAL :: byte where "POLICY_DESC_EXTERNAL = 0x04"
definition POLICY_DESC_TUNNEL :: byte where "POLICY_DESC_TUNNEL = 0x08"
definition POLICY_DESC_UNKNOWN_IP :: byte where "POLICY_DESC_UNKNOWN_IP = 0x10"
definition POLICY_DESC_SVC_EXTIP :: byte where "POLICY_DESC_SVC_EXTIP = 0x20"
definition POLICY_DESC_HOSTIP :: byte where "POLICY_DESC_HOSTIP = 0x40"

definition DP_POLICY_ACTION_OPEN :: byte where "DP_POLICY_ACTION_OPEN = 0"
definition DP_POLICY_ACTION_LEARN :: byte where "DP_POLICY_ACTION_LEARN = 1"
definition DP_POLICY_ACTION_ALLOW :: byte where "DP_POLICY_ACTION_ALLOW = 2"
definition DP_POLICY_ACTION_CHECK_APP :: byte where "DP_POLICY_ACTION_CHECK_APP = 3"
definition DP_POLICY_ACTION_VIOLATE :: byte where "DP_POLICY_ACTION_VIOLATE = 4"
definition DP_POLICY_ACTION_DENY :: byte where "DP_POLICY_ACTION_DENY = 5"

lemmas policy_consts [dp_eval] =
  DP_RANGE_RULE_INGRESS_def DP_RANGE_RULE_EGRESS_def
  POLICY_DESC_CHECK_VER_def POLICY_DESC_INTERNAL_def POLICY_DESC_EXTERNAL_def
  POLICY_DESC_TUNNEL_def POLICY_DESC_UNKNOWN_IP_def POLICY_DESC_SVC_EXTIP_def POLICY_DESC_HOSTIP_def
  DP_POLICY_ACTION_OPEN_def DP_POLICY_ACTION_LEARN_def DP_POLICY_ACTION_ALLOW_def
  DP_POLICY_ACTION_CHECK_APP_def DP_POLICY_ACTION_VIOLATE_def DP_POLICY_ACTION_DENY_def

definition zero_desc :: dpi_policy_desc where
  "zero_desc = \<lparr>d_id = 0, d_action = 0, d_flags = 0, d_hdl_ver = 0, d_order = 0\<rparr>"

definition zero_key :: dpi_rule_key where
  "zero_key = \<lparr>k_sip = 0, k_dip = 0, k_dport = 0, k_proto = 0, k_app = 0\<rparr>"

subsection \<open>Matching and hashing\<close>

definition rule_key_bytes :: "dpi_rule_key \<Rightarrow> bytes" where
  "rule_key_bytes k = u32_bytes (k_sip k) @ u32_bytes (k_dip k) @ u16_bytes (k_dport k)
     @ u16_bytes (k_proto k) @ u32_bytes (k_app k)"

definition rule_match :: "dpi_rule \<Rightarrow> dpi_rule_key \<Rightarrow> bool" where
  "rule_match s k \<longleftrightarrow> r_key s = k"

definition rule_hash :: "dpi_rule_key \<Rightarrow> u32" where
  "rule_hash k = sdbm_hash (rule_key_bytes k)"

definition range_key_bytes :: "dpi_range_rule_key \<Rightarrow> bytes" where
  "range_key_bytes k = u32_bytes (rk_ip k) @ u16_bytes (rk_proto k) @ u16_bytes (rk_flag k)"

definition range_rule_match :: "dpi_range_rule \<Rightarrow> dpi_range_rule_key \<Rightarrow> bool" where
  "range_rule_match s k \<longleftrightarrow> rr_key s = k"

definition range_rule_hash :: "dpi_range_rule_key \<Rightarrow> u32" where
  "range_rule_hash k = sdbm_hash (range_key_bytes k)"

definition IS_X_IN_RANGE :: "'a::linorder \<Rightarrow> 'a \<Rightarrow> 'a \<Rightarrow> bool" where
  "IS_X_IN_RANGE x y z \<longleftrightarrow> x \<ge> y \<and> x \<le> z"

definition rule_key_in_range :: "dpi_range_rule_item \<Rightarrow> dpi_rule_key \<Rightarrow> bool" where
  "rule_key_in_range item k \<longleftrightarrow>
     IS_X_IN_RANGE (k_dport k) (k_dport (i_key_l item)) (k_dport (i_key_h item)) \<and>
     IS_X_IN_RANGE (ntohl (k_sip k)) (ntohl (k_sip (i_key_l item))) (ntohl (k_sip (i_key_h item))) \<and>
     IS_X_IN_RANGE (ntohl (k_dip k)) (ntohl (k_dip (i_key_l item))) (ntohl (k_dip (i_key_h item))) \<and>
     IS_X_IN_RANGE (k_app k) (k_app (i_key_l item)) (k_app (i_key_h item))"

subsection \<open>Handles\<close>

definition dpi_policy_hdl_init :: "bool \<Rightarrow> int \<Rightarrow> dpi_policy_hdl option" where
  "dpi_policy_hdl_init alloc_ok def_action =
     (if \<not> alloc_ok then None
      else Some \<lparr>h_ref_cnt = 0, h_ver = 0, h_policy_map = rcu_map_init,
                 h_range_policy_map = rcu_map_init, h_def_action = def_action,
                 h_apply_dir = 0, h_flag = 0\<rparr>)"

definition iter_delete_one_rule :: "dpi_rule \<Rightarrow> rule_counter \<Rightarrow> rule_counter \<times> bool" where
  "iter_delete_one_rule r c = (c\<lparr>type1_rules := type1_rules c - 1\<rparr>, False)"

fun free_items :: "dpi_range_rule_item list \<Rightarrow> rule_counter \<Rightarrow> rule_counter" where
  "free_items [] c = c"
| "free_items (p # ps) c = free_items ps (c\<lparr>type2_rules := type2_rules c - 1\<rparr>)"

definition iter_delete_one_range_rule :: "dpi_range_rule \<Rightarrow> rule_counter \<Rightarrow> rule_counter \<times> bool" where
  "iter_delete_one_range_rule r c = (free_items (rr_list r) c, False)"

text \<open>The handle left behind (\<^term>\<open>None\<close> when it is freed) and the counters.\<close>
definition dpi_policy_hdl_destroy ::
  "dpi_policy_hdl \<Rightarrow> rule_counter \<Rightarrow> dpi_policy_hdl option \<times> rule_counter" where
  "dpi_policy_hdl_destroy hdl c =
     (if h_ref_cnt hdl > 1 then (Some (hdl\<lparr>h_ref_cnt := h_ref_cnt hdl - 1\<rparr>), c)
      else (None, rcu_map_for_each (h_range_policy_map hdl) iter_delete_one_range_rule
                    (rcu_map_for_each (h_policy_map hdl) iter_delete_one_rule c)))"

subsection \<open>Range rules\<close>

text \<open>\<open>get_range_key\<close>: the rule's bucket, or \<open>-1\<close>.\<close>
definition get_range_key :: "dpi_rule_key \<Rightarrow> dpi_rule_key \<Rightarrow> rule_dir \<Rightarrow> dpi_range_rule_key option" where
  "get_range_key key_l key_h dir =
     (if k_proto key_l \<noteq> k_proto key_h then None
      else Some (case dir of
          POLICY_RULE_DIR_INGRESS \<Rightarrow>
            \<lparr>rk_ip = k_dip key_l, rk_proto = k_proto key_l, rk_flag = DP_RANGE_RULE_INGRESS\<rparr>
        | POLICY_RULE_DIR_EGRESS \<Rightarrow>
            \<lparr>rk_ip = k_sip key_l, rk_proto = k_proto key_l, rk_flag = DP_RANGE_RULE_EGRESS\<rparr>
        | POLICY_RULE_DIR_NONE \<Rightarrow> \<lparr>rk_ip = 0, rk_proto = k_proto key_l, rk_flag = 0\<rparr>))"

definition same_item :: "dpi_rule_key \<Rightarrow> dpi_rule_key \<Rightarrow> dpi_range_rule_item \<Rightarrow> bool" where
  "same_item key_l key_h p \<longleftrightarrow> i_key_l p = key_l \<and> i_key_h p = key_h"

text \<open>The outcome of adding a rule: \<open>-1\<close>, \<open>0\<close> (already there) or \<open>1\<close>, with the updated handle,
  counters and \<open>*exist_desc\<close>.\<close>
type_synonym add_result = "int \<times> dpi_policy_hdl \<times> rule_counter \<times> dpi_policy_desc"

text \<open>\<open>oom1\<close> and \<open>oom2\<close>: the first or the second allocation fails. The bucket is found in the table
  or added to it; it is updated in place.\<close>
definition dpi_range_rule_add ::
  "bool \<Rightarrow> bool \<Rightarrow> dpi_policy_hdl \<Rightarrow> rule_counter \<Rightarrow> dpi_rule_key \<Rightarrow> dpi_rule_key \<Rightarrow> rule_dir
     \<Rightarrow> dpi_policy_desc \<Rightarrow> dpi_policy_desc \<Rightarrow> add_result" where
  "dpi_range_rule_add oom1 oom2 hdl c key_l key_h dir desc exist_desc =
     (case get_range_key key_l key_h dir of None \<Rightarrow> (-1, hdl, c, exist_desc)
      | Some key \<Rightarrow>
         let found = rcu_map_lookup (h_range_policy_map hdl) range_rule_hash range_rule_match key;
             hdl1 = (if found = None
                     then hdl\<lparr>h_range_policy_map := rcu_map_add (h_range_policy_map hdl) range_rule_hash
                                \<lparr>rr_key = key, rr_list = []\<rparr> key\<rparr>
                     else hdl);
             items = (case found of None \<Rightarrow> [] | Some r \<Rightarrow> rr_list r);
             item = \<lparr>i_desc = desc, i_key_l = key_l, i_key_h = key_h\<rparr>
         in if found = None \<and> oom1 then (-1, hdl, c, exist_desc)
            else if oom2 then (-1, hdl1, c, exist_desc)
            else (case find (same_item key_l key_h) items of
                Some p \<Rightarrow> (0, hdl1, c, i_desc p)
              | None \<Rightarrow>
                 (1, hdl1\<lparr>h_range_policy_map := rcu_map_upd (h_range_policy_map hdl1)
                       (\<lambda>r. rr_key r = key) (\<lambda>r. r\<lparr>rr_list := rr_list r @ [item]\<rparr>)\<rparr>,
                  c\<lparr>type2_rules := type2_rules c + 1\<rparr>, exist_desc)))"

fun dpi_range_rule_match :: "dpi_range_rule_item list \<Rightarrow> dpi_rule_key \<Rightarrow> dpi_range_rule_item option" where
  "dpi_range_rule_match [] key = None"
| "dpi_range_rule_match (item # rest) key =
     (if rule_key_in_range item key then Some item else dpi_range_rule_match rest key)"

subsection \<open>The lookup of one key\<close>

definition default_desc :: "dpi_policy_hdl \<Rightarrow> dpi_policy_desc" where
  "default_desc hdl = \<lparr>d_id = 0, d_action = word_of_int (h_def_action hdl),
     d_flags = POLICY_DESC_CHECK_VER, d_hdl_ver = 0, d_order = 0xffffffff\<rparr>"

definition lookup_bucket_item ::
  "dpi_policy_hdl \<Rightarrow> dpi_range_rule_key \<Rightarrow> dpi_rule_key \<Rightarrow> dpi_range_rule_item option" where
  "lookup_bucket_item hdl key2 key =
     (case rcu_map_lookup (h_range_policy_map hdl) range_rule_hash range_rule_match key2 of
        None \<Rightarrow> None | Some r2 \<Rightarrow> dpi_range_rule_match (rr_list r2) key)"

text \<open>\<open>_dpi_policy_lookup_by_key\<close>, the descriptor it stores.\<close>
definition policy_lookup_key :: "dpi_policy_hdl \<Rightarrow> dpi_rule_key \<Rightarrow> bool \<Rightarrow> dpi_policy_desc" where
  "policy_lookup_key hdl key is_ingress =
     (case rcu_map_lookup (h_policy_map hdl) rule_hash rule_match key of
        Some r \<Rightarrow> r_desc r
      | None \<Rightarrow>
         let key2 = (if is_ingress
               then \<lparr>rk_ip = k_dip key, rk_proto = k_proto key, rk_flag = DP_RANGE_RULE_INGRESS\<rparr>
               else \<lparr>rk_ip = k_sip key, rk_proto = k_proto key, rk_flag = DP_RANGE_RULE_EGRESS\<rparr>)
         in case lookup_bucket_item hdl key2 key of
              Some item \<Rightarrow> i_desc item
            | None \<Rightarrow>
               (case lookup_bucket_item hdl (key2\<lparr>rk_ip := 0, rk_flag := 0\<rparr>) key of
                  Some item \<Rightarrow> i_desc item
                | None \<Rightarrow> default_desc hdl))"

definition policy_desc_merge :: "dpi_policy_desc \<Rightarrow> dpi_policy_desc \<Rightarrow> dpi_policy_desc" where
  "policy_desc_merge desc1 desc2 =
     (if d_id desc2 > 0 \<and> d_order desc2 < d_order desc1 then desc2 else desc1)"


subsection \<open>Both tables are first-match stores\<close>

lemma rule_hash_respects: "hash_respects rule_hash rule_match"
  by (auto simp: hash_respects_def rule_match_def)

lemma range_rule_hash_respects: "hash_respects range_rule_hash range_rule_match"
  by (auto simp: hash_respects_def range_rule_match_def)

interpretation pmap: first_match_store rm_sorted rcu_map_init
  "\<lambda>m d k. rcu_map_add m rule_hash d k" "\<lambda>m k. rcu_map_lookup m rule_hash rule_match k" rule_match
  by (rule rcu_first_match[OF rule_hash_respects])

interpretation rmap: first_match_store rm_sorted rcu_map_init
  "\<lambda>m d k. rcu_map_add m range_rule_hash d k"
  "\<lambda>m k. rcu_map_lookup m range_rule_hash range_rule_match k" range_rule_match
  by (rule rcu_first_match[OF range_rule_hash_respects])

subsection \<open>The abstract table\<close>

definition hdl_inv :: "dpi_policy_hdl \<Rightarrow> bool" where
  "hdl_inv hdl \<longleftrightarrow> rm_sorted (h_policy_map hdl) \<and> rm_sorted (h_range_policy_map hdl)"

text \<open>What a lookup can see of a handle: the descriptor stored for a key, and the items of a bucket.\<close>
definition exact_of :: "dpi_policy_hdl \<Rightarrow> dpi_rule_key \<Rightarrow> dpi_policy_desc option" where
  "exact_of hdl k = map_option r_desc (rcu_map_lookup (h_policy_map hdl) rule_hash rule_match k)"

definition items_of :: "dpi_policy_hdl \<Rightarrow> dpi_range_rule_key \<Rightarrow> dpi_range_rule_item list" where
  "items_of hdl rk =
     (case rcu_map_lookup (h_range_policy_map hdl) range_rule_hash range_rule_match rk of
        None \<Rightarrow> [] | Some r \<Rightarrow> rr_list r)"

definition bucket_key :: "dpi_rule_key \<Rightarrow> bool \<Rightarrow> dpi_range_rule_key" where
  "bucket_key k g = (if g
     then \<lparr>rk_ip = k_dip k, rk_proto = k_proto k, rk_flag = DP_RANGE_RULE_INGRESS\<rparr>
     else \<lparr>rk_ip = k_sip k, rk_proto = k_proto k, rk_flag = DP_RANGE_RULE_EGRESS\<rparr>)"

definition nodir_key :: "dpi_rule_key \<Rightarrow> dpi_range_rule_key" where
  "nodir_key k = \<lparr>rk_ip = 0, rk_proto = k_proto k, rk_flag = 0\<rparr>"

lemma dpi_range_rule_match_find:
  "dpi_range_rule_match items key = find (\<lambda>i. rule_key_in_range i key) items"
  by (induction items key rule: dpi_range_rule_match.induct) auto

lemma lookup_bucket_item_eq:
  "lookup_bucket_item hdl rk k = find (\<lambda>i. rule_key_in_range i k) (items_of hdl rk)"
  by (simp add: lookup_bucket_item_def items_of_def dpi_range_rule_match_find split: option.splits)

lemma bucket_key_nodir: "(bucket_key k g)\<lparr>rk_ip := 0, rk_flag := 0\<rparr> = nodir_key k"
  by (simp add: bucket_key_def nodir_key_def)

lemma policy_lookup_key_eq:
  "policy_lookup_key hdl k g =
     (case exact_of hdl k of Some d \<Rightarrow> d
      | None \<Rightarrow> (case find (\<lambda>i. rule_key_in_range i k) (items_of hdl (bucket_key k g)) of
          Some i \<Rightarrow> i_desc i
        | None \<Rightarrow> (case find (\<lambda>i. rule_key_in_range i k) (items_of hdl (nodir_key k)) of
            Some i \<Rightarrow> i_desc i | None \<Rightarrow> default_desc hdl)))"
  unfolding policy_lookup_key_def exact_of_def lookup_bucket_item_eq bucket_key_def[symmetric]
    bucket_key_nodir Let_def
  by (simp add: if_distrib bucket_key_nodir split: option.splits)

lemma hdl_inv_init: "dpi_policy_hdl_init ok a = Some hdl \<Longrightarrow> hdl_inv hdl"
  by (auto simp: dpi_policy_hdl_init_def hdl_inv_def split: if_splits)

lemma init_empty:
  assumes "dpi_policy_hdl_init ok a = Some hdl"
  shows "exact_of hdl k = None" "items_of hdl rk = []"
  using assms by (auto simp: dpi_policy_hdl_init_def exact_of_def items_of_def pmap.lookup_init
      rmap.lookup_init split: if_splits)

lemma get_range_key_ingress:
  "k_proto l = k_proto h \<Longrightarrow> get_range_key l h POLICY_RULE_DIR_INGRESS = Some (bucket_key l True)"
  by (simp add: get_range_key_def bucket_key_def)

lemma get_range_key_egress:
  "k_proto l = k_proto h \<Longrightarrow> get_range_key l h POLICY_RULE_DIR_EGRESS = Some (bucket_key l False)"
  by (simp add: get_range_key_def bucket_key_def)

lemma get_range_key_none:
  "k_proto l = k_proto h \<Longrightarrow> get_range_key l h POLICY_RULE_DIR_NONE = Some (nodir_key l)"
  by (simp add: get_range_key_def nodir_key_def)

text \<open>A range rule is appended to its bucket unless the bucket holds the same range already; no
  other bucket and no exact rule changes.\<close>
lemma range_rule_add_spec:
  assumes inv: "hdl_inv hdl" and key: "get_range_key l h dir = Some key"
    and add: "dpi_range_rule_add False False hdl c l h dir desc ex = (ret, hdl', c', ex')"
  shows "hdl_inv hdl'" "exact_of hdl' k = exact_of hdl k"
    and "items_of hdl' rk = items_of hdl rk @
      (if rk = key \<and> find (same_item l h) (items_of hdl key) = None
       then [\<lparr>i_desc = desc, i_key_l = l, i_key_h = h\<rparr>] else [])"
    and "h_def_action hdl' = h_def_action hdl" "h_apply_dir hdl' = h_apply_dir hdl"
    and "h_flag hdl' = h_flag hdl" "h_ver hdl' = h_ver hdl" "h_ref_cnt hdl' = h_ref_cnt hdl"
    and "ret = (if find (same_item l h) (items_of hdl key) = None then 1 else 0)"
proof -
  let ?rm = "h_range_policy_map hdl"
  let ?found = "rcu_map_lookup ?rm range_rule_hash range_rule_match key"
  define rm1 where "rm1 = (if ?found = None
     then rcu_map_add ?rm range_rule_hash \<lparr>rr_key = key, rr_list = []\<rparr> key else ?rm)"
  have s1: "rm_sorted rm1"
    using inv by (simp add: rm1_def hdl_inv_def rm_sorted_add)
  have srt: "rm_sorted ?rm" using inv by (simp add: hdl_inv_def)
  have m0: "range_rule_match \<lparr>rr_key = key, rr_list = []\<rparr> key" by (simp add: range_rule_match_def)
  have l1: "(case rcu_map_lookup rm1 range_rule_hash range_rule_match rk of
       None \<Rightarrow> [] | Some r \<Rightarrow> rr_list r) = items_of hdl rk" for rk
    using rmap.lookup_add[OF srt m0, of rk]
    by (auto simp: rm1_def items_of_def range_rule_match_def split: option.splits)
  have l2: "\<exists>r. rcu_map_lookup rm1 range_rule_hash range_rule_match key = Some r \<and> rr_key r = key"
    using rmap.lookup_add[OF srt m0, of key] rcu_map_lookup_SomeD
    by (fastforce simp: rm1_def range_rule_match_def split: option.splits)
  define rm2 where "rm2 = rcu_map_upd rm1 (\<lambda>r. rr_key r = key)
     (\<lambda>r. r\<lparr>rr_list := rr_list r @ [\<lparr>i_desc = desc, i_key_l = l, i_key_h = h\<rparr>]\<rparr>)"
  have s2: "rm_sorted rm2" using s1 by (simp add: rm2_def)
  have l3: "(case rcu_map_lookup rm2 range_rule_hash range_rule_match rk of
       None \<Rightarrow> [] | Some r \<Rightarrow> rr_list r) = items_of hdl rk @
         (if rk = key then [\<lparr>i_desc = desc, i_key_l = l, i_key_h = h\<rparr>] else [])" for rk
  proof -
    have "rcu_map_lookup rm2 range_rule_hash range_rule_match rk =
       map_option (\<lambda>r. if rr_key r = key then
          r\<lparr>rr_list := rr_list r @ [\<lparr>i_desc = desc, i_key_l = l, i_key_h = h\<rparr>]\<rparr> else r)
        (rcu_map_lookup rm1 range_rule_hash range_rule_match rk)"
      unfolding rm2_def by (rule rcu_map_lookup_upd) (simp add: range_rule_match_def)
    then show ?thesis
      using l1[of rk] l2 rcu_map_lookup_SomeD[of rm1 range_rule_hash range_rule_match rk]
      by (cases "rcu_map_lookup rm1 range_rule_hash range_rule_match rk")
        (auto simp: range_rule_match_def)
  qed
  have items: "(case ?found of None \<Rightarrow> [] | Some r \<Rightarrow> rr_list r) = items_of hdl key"
    by (simp add: items_of_def)
  have res: "(ret, hdl') = (case find (same_item l h) (items_of hdl key) of
      Some p \<Rightarrow> (0, hdl\<lparr>h_range_policy_map := rm1\<rparr>)
    | None \<Rightarrow> (1, hdl\<lparr>h_range_policy_map := rm2\<rparr>))"
    using add unfolding dpi_range_rule_add_def key option.case Let_def items
    by (auto simp: rm1_def rm2_def split: option.splits if_splits)
  show "hdl_inv hdl'" using res s1 s2 inv by (auto simp: hdl_inv_def split: option.splits)
  show "exact_of hdl' k = exact_of hdl k"
    using res by (auto simp: exact_of_def split: option.splits)
  show "items_of hdl' rk = items_of hdl rk @
      (if rk = key \<and> find (same_item l h) (items_of hdl key) = None
       then [\<lparr>i_desc = desc, i_key_l = l, i_key_h = h\<rparr>] else [])"
    using res l1[of rk] l3[of rk]
    by (auto simp: items_of_def[of hdl'] split: option.splits)
  show "h_def_action hdl' = h_def_action hdl" "h_apply_dir hdl' = h_apply_dir hdl"
    "h_flag hdl' = h_flag hdl" "h_ver hdl' = h_ver hdl" "h_ref_cnt hdl' = h_ref_cnt hdl"
    "ret = (if find (same_item l h) (items_of hdl key) = None then 1 else 0)"
    using res by (auto split: option.splits)
qed

end
