(* ===== verification/DP_TimerWheel.thy ===== *)
theory DP_TimerWheel
  imports DP_Helper
begin

text \<open>
  The timing wheel of \<open>utils/timer_wheel.c\<close> and the timeout queue of \<open>utils/timer_queue.c\<close>. Timer
  entries are embedded in other objects; an entry is named by a number and its fields are kept in
  \<open>tw_entries\<close>. The callbacks of a roll may change the wheel and the rest of the state \<open>'x\<close>.
\<close>

record 'cb timer_entry =
  te_callback :: "'cb option"
  te_expire_slot :: u16
  te_timeout :: u16

record 'cb timer_wheel =
  tw_slots :: "nat \<Rightarrow> nat list"
  tw_count :: u32
  tw_current :: u32
  tw_entries :: "nat \<Rightarrow> 'cb timer_entry"

definition MAX_TIMER_SLOTS :: nat where "MAX_TIMER_SLOTS = 3600"

definition entry_zero :: "'cb timer_entry" where
  "entry_zero = \<lparr>te_callback = None, te_expire_slot = 0, te_timeout = 0\<rparr>"

definition timer_wheel_init :: "'cb timer_wheel" where
  "timer_wheel_init = \<lparr>tw_slots = (\<lambda>_. []), tw_count = 0, tw_current = 0, tw_entries = (\<lambda>_. entry_zero)\<rparr>"

definition timer_wheel_start :: "'cb timer_wheel \<Rightarrow> u32 \<Rightarrow> 'cb timer_wheel" where
  "timer_wheel_start w now = w\<lparr>tw_current := now\<rparr>"

definition timer_wheel_started :: "'cb timer_wheel \<Rightarrow> bool" where
  "timer_wheel_started w \<longleftrightarrow> tw_current w > 0"

definition set_entry :: "'cb timer_wheel \<Rightarrow> nat \<Rightarrow> ('cb timer_entry \<Rightarrow> 'cb timer_entry) \<Rightarrow> 'cb timer_wheel" where
  "set_entry w n f = w\<lparr>tw_entries := (tw_entries w)(n := f (tw_entries w n))\<rparr>"

definition timer_wheel_entry_init :: "'cb timer_wheel \<Rightarrow> nat \<Rightarrow> 'cb timer_wheel" where
  "timer_wheel_entry_init w n = set_entry w n (\<lambda>e. e\<lparr>te_expire_slot := -1, te_callback := None\<rparr>)"

definition timer_wheel_entry_insert :: "'cb timer_wheel \<Rightarrow> nat \<Rightarrow> u32 \<Rightarrow> 'cb timer_wheel" where
  "timer_wheel_entry_insert w n now =
     (let expire_at = now + ucast (te_timeout (tw_entries w n));
          slot = unat expire_at mod MAX_TIMER_SLOTS;
          w1 = set_entry w n (\<lambda>e. e\<lparr>te_expire_slot := of_nat slot\<rparr>)
      in w1\<lparr>tw_slots := (tw_slots w1)(slot := tw_slots w1 slot @ [n]), tw_count := tw_count w1 + 1\<rparr>)"

text \<open>\<open>cds_list_del\<close> unlinks the entry from the list it is in.\<close>
definition timer_wheel_entry_remove :: "'cb timer_wheel \<Rightarrow> nat \<Rightarrow> 'cb timer_wheel" where
  "timer_wheel_entry_remove w n =
     (set_entry w n (\<lambda>e. e\<lparr>te_callback := None\<rparr>))
        \<lparr>tw_slots := (\<lambda>s. filter (\<lambda>x. x \<noteq> n) (tw_slots w s)), tw_count := tw_count w - 1\<rparr>"

definition timer_wheel_entry_refresh :: "'cb timer_wheel \<Rightarrow> nat \<Rightarrow> u32 \<Rightarrow> 'cb timer_wheel" where
  "timer_wheel_entry_refresh w n now =
     (let fn = te_callback (tw_entries w n);
          w1 = set_entry (timer_wheel_entry_remove w n) n (\<lambda>e. e\<lparr>te_callback := fn\<rparr>)
      in timer_wheel_entry_insert w1 n now)"

definition timer_wheel_entry_start :: "'cb timer_wheel \<Rightarrow> nat \<Rightarrow> 'cb \<Rightarrow> u16 \<Rightarrow> u32 \<Rightarrow> 'cb timer_wheel" where
  "timer_wheel_entry_start w n cb timeout0 now =
     (let timeout = (if unat timeout0 \<ge> MAX_TIMER_SLOTS then 0 else timeout0)
      in timer_wheel_entry_insert
           (set_entry w n (\<lambda>e. e\<lparr>te_callback := Some cb, te_timeout := timeout\<rparr>)) n now)"

definition timer_wheel_entry_set_timeout :: "'cb timer_wheel \<Rightarrow> nat \<Rightarrow> u16 \<Rightarrow> 'cb timer_wheel" where
  "timer_wheel_entry_set_timeout w n timeout =
     (if unat timeout \<ge> MAX_TIMER_SLOTS then w else set_entry w n (\<lambda>e. e\<lparr>te_timeout := timeout\<rparr>))"

definition timer_wheel_entry_is_active :: "'cb timer_entry \<Rightarrow> bool" where
  "timer_wheel_entry_is_active e \<longleftrightarrow> te_callback e \<noteq> None"

definition get_expire_at :: "'cb timer_entry \<Rightarrow> u32 \<Rightarrow> u32" where
  "get_expire_at n now =
     (let slot = of_nat (unat now mod MAX_TIMER_SLOTS) :: u16 in
      if te_callback n = None \<or> te_expire_slot n \<ge> slot
      then now + ucast (te_expire_slot n) - ucast slot
      else now + ucast (te_expire_slot n) + of_nat MAX_TIMER_SLOTS - ucast slot)"

definition timer_wheel_entry_get_idle :: "'cb timer_entry \<Rightarrow> u32 \<Rightarrow> u16" where
  "timer_wheel_entry_get_idle n now = ucast (now - (get_expire_at n now - ucast (te_timeout n)))"

definition timer_wheel_entry_get_life :: "'cb timer_entry \<Rightarrow> u32 \<Rightarrow> u16" where
  "timer_wheel_entry_get_life n now = ucast (get_expire_at n now - now)"

subsection \<open>Rolling\<close>

text \<open>The \<open>while (!cds_list_empty(head))\<close> loop on one slot. \<open>fn\<close> runs an entry's callback; it may
  insert into the slot again, so the loop need not end.\<close>
partial_function (option) roll_slot ::
  "('cb option \<Rightarrow> nat \<Rightarrow> 'cb timer_wheel \<times> 'x \<Rightarrow> 'cb timer_wheel \<times> 'x) \<Rightarrow> nat
     \<Rightarrow> 'cb timer_wheel \<times> 'x \<Rightarrow> u32 \<Rightarrow> (('cb timer_wheel \<times> 'x) \<times> u32) option" where
  "roll_slot fn s st cnt =
     (case tw_slots (fst st) s of
        [] \<Rightarrow> Some (st, cnt)
      | itr # _ \<Rightarrow>
          let cb = te_callback (tw_entries (fst st) itr);
              w1 = timer_wheel_entry_remove (fst st) itr
          in roll_slot fn s (fn cb itr (w1, snd st)) (cnt + 1))"

declare roll_slot.simps [code]

fun roll_slots ::
  "('cb option \<Rightarrow> nat \<Rightarrow> 'cb timer_wheel \<times> 'x \<Rightarrow> 'cb timer_wheel \<times> 'x) \<Rightarrow> nat list
     \<Rightarrow> 'cb timer_wheel \<times> 'x \<Rightarrow> u32 \<Rightarrow> (('cb timer_wheel \<times> 'x) \<times> u32) option" where
  "roll_slots fn [] st cnt = Some (st, cnt)"
| "roll_slots fn (s # ss) st cnt = do {
     (st', cnt') \<leftarrow> roll_slot fn (s mod MAX_TIMER_SLOTS) st cnt;
     roll_slots fn ss st' cnt' }"

definition timer_wheel_roll ::
  "('cb option \<Rightarrow> nat \<Rightarrow> 'cb timer_wheel \<times> 'x \<Rightarrow> 'cb timer_wheel \<times> 'x)
     \<Rightarrow> 'cb timer_wheel \<times> 'x \<Rightarrow> u32 \<Rightarrow> (('cb timer_wheel \<times> 'x) \<times> u32) option" where
  "timer_wheel_roll fn st now =
     (let cur = tw_current (fst st) in
      if now < cur then Some (st, 0)
      else do {
        let m = min now (cur + of_nat MAX_TIMER_SLOTS);
        ((w, x), cnt) \<leftarrow> roll_slots fn [unat cur ..< unat m] st 0;
        Some ((w\<lparr>tw_current := now\<rparr>, x), cnt) })"

subsection \<open>The timeout queue\<close>

record timer_queue =
  tq_head :: "nat list"
  tq_count :: u32
  tq_timeout :: u32
  tq_last :: "nat \<Rightarrow> u32"

definition timer_queue_init :: "u32 \<Rightarrow> timer_queue" where
  "timer_queue_init timeout = \<lparr>tq_head = [], tq_count = 0, tq_timeout = timeout, tq_last = (\<lambda>_. 0)\<rparr>"

definition timer_queue_touch :: "timer_queue \<Rightarrow> nat \<Rightarrow> u32 \<Rightarrow> timer_queue" where
  "timer_queue_touch q n now =
     q\<lparr>tq_last := (tq_last q)(n := now), tq_head := filter (\<lambda>x. x \<noteq> n) (tq_head q) @ [n]\<rparr>"

definition timer_queue_remove :: "timer_queue \<Rightarrow> nat \<Rightarrow> timer_queue" where
  "timer_queue_remove q n = q\<lparr>tq_head := filter (\<lambda>x. x \<noteq> n) (tq_head q), tq_count := tq_count q - 1\<rparr>"

definition timer_queue_append :: "timer_queue \<Rightarrow> nat \<Rightarrow> u32 \<Rightarrow> timer_queue" where
  "timer_queue_append q n now =
     q\<lparr>tq_last := (tq_last q)(n := now), tq_head := tq_head q @ [n], tq_count := tq_count q + 1\<rparr>"

text \<open>\<open>cds_list_for_each_entry_safe\<close> reads the successor of the node at hand before the body runs.
  \<open>itr # rest\<close> is the list from that node on. A touched node moves to the end of the list and is met
  again there, unless it was the last node, whose successor is the list head.\<close>
function trim_loop :: "timer_queue \<Rightarrow> u32 \<Rightarrow> nat list \<Rightarrow> nat list \<Rightarrow> timer_queue \<times> nat list" where
  "trim_loop q now [] gone = (q, gone)"
| "trim_loop q now (itr # rest) gone =
     (if now < tq_last q itr
      then trim_loop (timer_queue_touch q itr now) now (if rest = [] then [] else rest @ [itr]) gone
      else if now < tq_last q itr + tq_timeout q then (q, gone)
      else trim_loop (timer_queue_remove q itr) now rest (gone @ [itr]))"
  by pat_completeness auto
termination
proof (relation "measures [\<lambda>(q, now, l, _). length (filter (\<lambda>n. now < tq_last q n) l), \<lambda>(_, _, l, _). length l]",
    goal_cases)
  case (2 q now itr rest gone)
  have "length (filter (\<lambda>n. now < tq_last (timer_queue_touch q itr now) n) l)
      \<le> length (filter (\<lambda>n. now < tq_last q n) l)" for l
    by (induction l) (auto simp: timer_queue_touch_def)
  from this[of rest] 2 show ?case by (auto simp: timer_queue_touch_def less_Suc_eq_le)
qed (auto simp: timer_queue_remove_def)

text \<open>The second component is the nodes \<open>remove\<close> is called on, in order.\<close>
definition timer_queue_trim :: "timer_queue \<Rightarrow> u32 \<Rightarrow> timer_queue \<times> nat list" where
  "timer_queue_trim q now = trim_loop q now (tq_head q) []"

definition timer_queue_purge :: "timer_queue \<Rightarrow> timer_queue \<times> nat list" where
  "timer_queue_purge q = (foldl timer_queue_remove q (tq_head q), tq_head q)"


subsection \<open>The invariant of the wheel\<close>

text \<open>An entry is linked exactly when it has a callback, in the slot it names and once; \<open>count\<close> is the
  number of linked entries.\<close>
definition wheel_inv :: "'cb timer_wheel \<Rightarrow> bool" where
  "wheel_inv w \<longleftrightarrow>
     (\<forall>s n. n \<in> set (tw_slots w s) \<longleftrightarrow>
        te_callback (tw_entries w n) \<noteq> None \<and> s = unat (te_expire_slot (tw_entries w n))) \<and>
     (\<forall>n. te_callback (tw_entries w n) \<noteq> None \<longrightarrow> unat (te_expire_slot (tw_entries w n)) < MAX_TIMER_SLOTS) \<and>
     (\<forall>s. distinct (tw_slots w s)) \<and>
     tw_count w = of_nat (\<Sum>s<MAX_TIMER_SLOTS. length (tw_slots w s))"

definition tw_active :: "'cb timer_wheel \<Rightarrow> nat \<Rightarrow> bool" where
  "tw_active w n \<longleftrightarrow> timer_wheel_entry_is_active (tw_entries w n)"

lemmas wheel_defs = timer_wheel_entry_insert_def timer_wheel_entry_remove_def set_entry_def
  timer_wheel_entry_is_active_def tw_active_def Let_def

lemma wheel_linked: "wheel_inv w \<Longrightarrow> n \<in> set (tw_slots w s) \<longleftrightarrow>
    tw_active w n \<and> s = unat (te_expire_slot (tw_entries w n))"
  by (simp add: wheel_inv_def wheel_defs)

lemma wheel_slot_less: "wheel_inv w \<Longrightarrow> tw_active w n \<Longrightarrow> unat (te_expire_slot (tw_entries w n)) < 3600"
  by (simp add: wheel_inv_def wheel_defs MAX_TIMER_SLOTS_def)

lemma wheel_distinct: "wheel_inv w \<Longrightarrow> distinct (tw_slots w s)"
  by (simp add: wheel_inv_def)

lemma wheel_count: "wheel_inv w \<Longrightarrow> tw_count w = of_nat (\<Sum>s<3600. length (tw_slots w s))"
  by (simp add: wheel_inv_def MAX_TIMER_SLOTS_def)

lemma unat_slot: "unat (of_nat (k mod MAX_TIMER_SLOTS) :: u16) = k mod MAX_TIMER_SLOTS"
  by (simp add: MAX_TIMER_SLOTS_def unat_of_nat)

lemma length_filter_neq:
  "distinct xs \<Longrightarrow> x \<in> set xs \<Longrightarrow> Suc (length (filter (\<lambda>y. y \<noteq> x) xs)) = length xs"
proof (induction xs)
  case (Cons a xs)
  then show ?case by (cases "a = x") (auto simp: filter_id_conv intro!: arg_cong[of _ _ length])
qed simp

lemma wheel_inv_init: "wheel_inv timer_wheel_init"
  by (simp add: wheel_inv_def timer_wheel_init_def entry_zero_def)

lemma wheel_inv_insert:
  assumes inv: "wheel_inv w" and new: "\<not> tw_active w n"
  shows "wheel_inv (timer_wheel_entry_insert (set_entry w n (\<lambda>e. e\<lparr>te_callback := Some cb, te_timeout := t\<rparr>)) n now)"
proof -
  let ?slot = "unat (now + ucast t) mod MAX_TIMER_SLOTS"
  let ?w = "timer_wheel_entry_insert (set_entry w n (\<lambda>e. e\<lparr>te_callback := Some cb, te_timeout := t\<rparr>)) n now"
  have notin: "n \<notin> set (tw_slots w s)" for s
    using new wheel_linked[OF inv] by blast
  have lt: "?slot < MAX_TIMER_SLOTS" by (simp add: MAX_TIMER_SLOTS_def)
  have slots: "tw_slots ?w = (tw_slots w)(?slot := tw_slots w ?slot @ [n])"
    and ent: "tw_entries ?w = (tw_entries w)(n := (tw_entries w n)\<lparr>te_callback := Some cb, te_timeout := t,
        te_expire_slot := of_nat ?slot\<rparr>)"
    and cnt: "tw_count ?w = tw_count w + 1"
    by (simp_all add: wheel_defs)
  have "(\<Sum>s<MAX_TIMER_SLOTS. length (tw_slots ?w s)) = Suc (\<Sum>s<MAX_TIMER_SLOTS. length (tw_slots w s))"
    using lt by (simp add: slots sum.remove[of "{..<MAX_TIMER_SLOTS}" ?slot])
  moreover have "n' \<in> set (tw_slots ?w s) \<longleftrightarrow>
      te_callback (tw_entries ?w n') \<noteq> None \<and> s = unat (te_expire_slot (tw_entries ?w n'))" for n' s
    using notin inv by (auto simp: slots ent unat_slot wheel_inv_def)
  ultimately show ?thesis
    using inv notin lt unfolding wheel_inv_def cnt by (auto simp: slots ent unat_slot)
qed

lemma wheel_inv_remove:
  assumes inv: "wheel_inv w" and act: "tw_active w n"
  shows "wheel_inv (timer_wheel_entry_remove w n)"
proof -
  let ?w = "timer_wheel_entry_remove w n"
  let ?s = "unat (te_expire_slot (tw_entries w n))"
  have lt: "?s < MAX_TIMER_SLOTS" using wheel_slot_less[OF inv act] by (simp add: MAX_TIMER_SLOTS_def)
  have mem: "n \<in> set (tw_slots w s) \<longleftrightarrow> s = ?s" for s using act wheel_linked[OF inv] by blast
  have slots: "tw_slots ?w s = filter (\<lambda>x. x \<noteq> n) (tw_slots w s)" for s by (simp add: wheel_defs)
  have ent: "tw_entries ?w = (tw_entries w)(n := (tw_entries w n)\<lparr>te_callback := None\<rparr>)" by (simp add: wheel_defs)
  have other: "s \<noteq> ?s \<Longrightarrow> tw_slots ?w s = tw_slots w s" for s
    using mem[of s] by (auto simp: slots filter_id_conv)
  have "Suc (length (tw_slots ?w ?s)) = length (tw_slots w ?s)"
    using mem[of ?s] wheel_distinct[OF inv, of ?s] by (simp add: slots length_filter_neq)
  moreover have "(\<Sum>s\<in>{..<MAX_TIMER_SLOTS} - {?s}. length (tw_slots ?w s)) =
      (\<Sum>s\<in>{..<MAX_TIMER_SLOTS} - {?s}. length (tw_slots w s))"
    by (rule sum.cong) (simp_all add: other)
  ultimately have "Suc (\<Sum>s<MAX_TIMER_SLOTS. length (tw_slots ?w s)) = (\<Sum>s<MAX_TIMER_SLOTS. length (tw_slots w s))"
    using lt by (simp add: sum.remove[of "{..<MAX_TIMER_SLOTS}" ?s])
  then have "of_nat (\<Sum>s<MAX_TIMER_SLOTS. length (tw_slots w s)) = of_nat (\<Sum>s<MAX_TIMER_SLOTS. length (tw_slots ?w s)) + (1 :: u32)"
    by (metis of_nat_Suc add.commute)
  moreover have "tw_count ?w = tw_count w - 1" by (simp add: timer_wheel_entry_remove_def)
  ultimately have "tw_count ?w = of_nat (\<Sum>s<MAX_TIMER_SLOTS. length (tw_slots ?w s))"
    using inv by (simp add: wheel_inv_def)
  moreover have "n' \<in> set (tw_slots ?w s) \<longleftrightarrow>
      te_callback (tw_entries ?w n') \<noteq> None \<and> s = unat (te_expire_slot (tw_entries ?w n'))" for n' s
    using inv by (auto simp: slots ent wheel_inv_def)
  ultimately show ?thesis
    using inv unfolding wheel_inv_def by (simp add: slots ent)
qed

subsection \<open>What a roll fires\<close>

lemma remove_simps [simp]:
  "tw_slots (timer_wheel_entry_remove w n) s = filter (\<lambda>x. x \<noteq> n) (tw_slots w s)"
  "tw_current (timer_wheel_entry_remove w n) = tw_current w"
  "tw_entries (timer_wheel_entry_remove w n) m =
     (if m = n then (tw_entries w n)\<lparr>te_callback := None\<rparr> else tw_entries w m)"
  by (simp_all add: timer_wheel_entry_remove_def set_entry_def)

text \<open>The wheel with all of a list of entries unlinked.\<close>
abbreviation remove_list :: "'cb timer_wheel \<Rightarrow> nat list \<Rightarrow> 'cb timer_wheel" where
  "remove_list \<equiv> foldl timer_wheel_entry_remove"

lemma remove_list_simps [simp]:
  "tw_slots (remove_list w ns) s = filter (\<lambda>x. x \<notin> set ns) (tw_slots w s)"
  "tw_current (remove_list w ns) = tw_current w"
  by (induction ns arbitrary: w) (auto intro: filter_cong)

lemma remove_list_entries [simp]:
  "tw_entries (remove_list w ns) m =
     (if m \<in> set ns then (tw_entries w m)\<lparr>te_callback := None\<rparr> else tw_entries w m)"
  by (induction ns arbitrary: w) auto

lemma tw_active_remove [simp]: "tw_active (timer_wheel_entry_remove w n) m \<longleftrightarrow> m \<noteq> n \<and> tw_active w m"
  by (simp add: tw_active_def timer_wheel_entry_is_active_def)

lemma wheel_inv_remove_list:
  "wheel_inv w \<Longrightarrow> distinct ns \<Longrightarrow> \<forall>n\<in>set ns. tw_active w n \<Longrightarrow> wheel_inv (remove_list w ns)"
proof (induction ns arbitrary: w)
  case (Cons n ns)
  have "wheel_inv (timer_wheel_entry_remove w n)" using Cons.prems by (simp add: wheel_inv_remove)
  then show ?case using Cons.prems by (auto intro!: Cons.IH)
qed simp

lemma wheel_inv_current: "wheel_inv (w\<lparr>tw_current := c\<rparr>) = wheel_inv w"
  by (simp add: wheel_inv_def)

text \<open>A release callback: it frees the object the entry is in and does not touch the wheel.\<close>
definition releases :: "('cb option \<Rightarrow> nat \<Rightarrow> 'cb timer_wheel \<times> 'x \<Rightarrow> 'cb timer_wheel \<times> 'x) \<Rightarrow>
    ('cb option \<Rightarrow> nat \<Rightarrow> 'x \<Rightarrow> 'x) \<Rightarrow> bool" where
  "releases fn rel \<longleftrightarrow> (\<forall>cb n w x. fn cb n (w, x) = (w, rel cb n x))"

definition fire :: "('cb option \<Rightarrow> nat \<Rightarrow> 'x \<Rightarrow> 'x) \<Rightarrow> 'cb timer_wheel \<Rightarrow> nat list \<Rightarrow> 'x \<Rightarrow> 'x" where
  "fire rel w ns x = foldl (\<lambda>x n. rel (te_callback (tw_entries w n)) n x) x ns"

lemma fire_cong: "(\<And>n. n \<in> set ns \<Longrightarrow> te_callback (tw_entries w n) = te_callback (tw_entries w' n)) \<Longrightarrow>
    fire rel w ns x = fire rel w' ns x"
  unfolding fire_def by (induction ns arbitrary: x) simp_all

lemma roll_slot_releases:
  assumes "releases fn rel" and "distinct ns" and "tw_slots w s = ns"
  shows "roll_slot fn s (w, x) cnt = Some ((remove_list w ns, fire rel w ns x), cnt + of_nat (length ns))"
  using assms(2,3)
proof (induction ns arbitrary: w x cnt)
  case Nil
  then show ?case by (subst roll_slot.simps) (simp add: fire_def)
next
  case (Cons n ns)
  let ?w = "timer_wheel_entry_remove w n"
  have slots: "tw_slots ?w s = ns" using Cons.prems by (auto simp: filter_id_conv)
  have "roll_slot fn s (w, x) cnt = roll_slot fn s (fn (te_callback (tw_entries w n)) n (?w, x)) (cnt + 1)"
    using Cons.prems by (subst roll_slot.simps) (simp add: Let_def)
  also have "\<dots> = roll_slot fn s (?w, rel (te_callback (tw_entries w n)) n x) (cnt + 1)"
    using assms(1) by (simp add: releases_def)
  also have "\<dots> = Some ((remove_list ?w ns, fire rel ?w ns (rel (te_callback (tw_entries w n)) n x)),
      cnt + 1 + of_nat (length ns))"
    using Cons.prems by (intro Cons.IH slots) simp_all
  also have "fire rel ?w ns (rel (te_callback (tw_entries w n)) n x) = fire rel w (n # ns) x"
  proof -
    have "fire rel ?w ns y = fire rel w ns y" for y using Cons.prems by (intro fire_cong) auto
    then show ?thesis by (simp add: fire_def)
  qed
  finally show ?case by (simp add: add.commute add.left_commute)
qed

lemma roll_slots_releases:
  assumes rel: "releases fn rel" and "wheel_inv w" and "distinct (map (\<lambda>s. s mod MAX_TIMER_SLOTS) ss)"
  defines "due \<equiv> concat (map (\<lambda>s. tw_slots w (s mod MAX_TIMER_SLOTS)) ss)"
  shows "roll_slots fn ss (w, x) cnt = Some ((remove_list w due, fire rel w due x), cnt + of_nat (length due))"
  using assms(2,3) unfolding due_def
proof (induction ss arbitrary: w x cnt)
  case Nil
  then show ?case by (simp add: fire_def)
next
  case (Cons s ss)
  let ?s = "s mod MAX_TIMER_SLOTS"
  let ?w = "remove_list w (tw_slots w ?s)"
  have inv: "wheel_inv ?w"
    using Cons.prems(1) wheel_distinct[OF Cons.prems(1)] wheel_linked[OF Cons.prems(1)]
    by (intro wheel_inv_remove_list) auto
  have neq: "?s \<noteq> t mod MAX_TIMER_SLOTS" if "t \<in> set ss" for t using that Cons.prems(2) by auto
  have other: "tw_slots ?w (t mod MAX_TIMER_SLOTS) = tw_slots w (t mod MAX_TIMER_SLOTS)" if "t \<in> set ss" for t
    using neq[OF that] wheel_linked[OF Cons.prems(1)] by (auto simp: filter_id_conv)
  then have due: "map (\<lambda>s. tw_slots ?w (s mod MAX_TIMER_SLOTS)) ss = map (\<lambda>s. tw_slots w (s mod MAX_TIMER_SLOTS)) ss"
    by (intro map_cong refl) blast
  let ?due = "concat (map (\<lambda>s. tw_slots w (s mod MAX_TIMER_SLOTS)) ss)"
  have "fire rel ?w ?due y = fire rel w ?due y" for y
    using wheel_linked[OF Cons.prems(1)] neq by (intro fire_cong) (auto, metis)
  then have "fire rel ?w ?due (fire rel w (tw_slots w ?s) x) = fire rel w (tw_slots w ?s @ ?due) x"
    by (simp add: fire_def)
  moreover have "roll_slots fn ss (?w, y) c =
      Some ((remove_list ?w ?due, fire rel ?w ?due y), c + of_nat (length ?due))" for y c
    using Cons.IH[OF inv] Cons.prems(2) unfolding due by simp
  ultimately show ?case
    by (simp add: roll_slot_releases[OF rel wheel_distinct[OF Cons.prems(1)] refl] add.assoc)
qed

text \<open>The tick an entry is due at: the first tick from the wheel's current one on whose slot is the
  entry's.\<close>
definition deadline :: "'cb timer_wheel \<Rightarrow> nat \<Rightarrow> nat" where
  "deadline w n = (let c = unat (tw_current w); s = unat (te_expire_slot (tw_entries w n))
     in c + (s + MAX_TIMER_SLOTS - c mod MAX_TIMER_SLOTS) mod MAX_TIMER_SLOTS)"

lemma mod_window:
  fixes c s :: nat
  assumes "s < m"
  shows "(c + (s + m - c mod m) mod m) mod m = s" "c + (s + m - c mod m) mod m < c + m"
proof -
  have "(c + (s + m - c mod m) mod m) mod m = (c mod m + (s + m - c mod m)) mod m"
    by (simp add: mod_add_left_eq mod_add_right_eq)
  also have "\<dots> = (s + m) mod m" using assms by (intro arg_cong[where f = "\<lambda>k. k mod m"])
      (metis add_diff_inverse_nat mod_less_divisor not_less_iff_gr_or_eq order_less_le_trans trans_less_add2 le_add2 gr_zeroI not_less0)
  finally show "(c + (s + m - c mod m) mod m) mod m = s" using assms by simp
qed (use assms in simp)

lemma mod_window_inj:
  fixes x y :: nat
  assumes "x mod m = y mod m" "c \<le> x" "x < c + m" "c \<le> y" "y < c + m"
  shows "x = y"
proof -
  have "a = b" if "a mod m = b mod m" "c \<le> a" "a \<le> b" "b < c + m" for a b
  proof -
    have "m dvd b - a" using that by (metis mod_eq_dvd_iff_nat)
    moreover have "b - a < m" using that by linarith
    ultimately show ?thesis using that by (metis dvd_imp_le linorder_not_less zero_less_diff order_antisym)
  qed
  then show ?thesis using assms by (metis nat_le_linear)
qed

lemma deadline_bounds:
  assumes "wheel_inv w" "tw_active w n"
  shows "unat (tw_current w) \<le> deadline w n" "deadline w n < unat (tw_current w) + MAX_TIMER_SLOTS"
    "deadline w n mod MAX_TIMER_SLOTS = unat (te_expire_slot (tw_entries w n))"
  using wheel_slot_less[OF assms] mod_window[of "unat (te_expire_slot (tw_entries w n))" MAX_TIMER_SLOTS "unat (tw_current w)"]
  by (simp_all add: deadline_def Let_def MAX_TIMER_SLOTS_def)

lemma deadline_unique:
  assumes "wheel_inv w" "tw_active w n" "unat (tw_current w) \<le> e" "e < unat (tw_current w) + MAX_TIMER_SLOTS"
    "e mod MAX_TIMER_SLOTS = unat (te_expire_slot (tw_entries w n))"
  shows "deadline w n = e"
  using deadline_bounds[OF assms(1,2)] assms(3-) by (metis mod_window_inj)

definition due_list :: "'cb timer_wheel \<Rightarrow> nat \<Rightarrow> nat list" where
  "due_list w now = concat (map (\<lambda>s. tw_slots w (s mod MAX_TIMER_SLOTS))
     [unat (tw_current w) ..< min now (unat (tw_current w) + MAX_TIMER_SLOTS)])"

lemma window_distinct: "b \<le> a + MAX_TIMER_SLOTS \<Longrightarrow> distinct (map (\<lambda>s. s mod MAX_TIMER_SLOTS) [a..<b])"
  by (auto simp: distinct_map inj_on_def intro: mod_window_inj[where c = a])

lemma due_list_mem:
  assumes "wheel_inv w"
  shows "n \<in> set (due_list w now) \<longleftrightarrow> tw_active w n \<and> deadline w n < now"
proof
  assume "n \<in> set (due_list w now)"
  then obtain s where s: "unat (tw_current w) \<le> s" "s < now" "s < unat (tw_current w) + MAX_TIMER_SLOTS"
      "n \<in> set (tw_slots w (s mod MAX_TIMER_SLOTS))" by (auto simp: due_list_def)
  then have "tw_active w n" "s mod MAX_TIMER_SLOTS = unat (te_expire_slot (tw_entries w n))"
    using wheel_linked[OF assms] by auto
  with s deadline_unique[OF assms] show "tw_active w n \<and> deadline w n < now" by metis
next
  assume "tw_active w n \<and> deadline w n < now"
  then show "n \<in> set (due_list w now)"
    using deadline_bounds[OF assms, of n] wheel_linked[OF assms, of n]
    by (auto simp: due_list_def intro!: bexI[of _ "deadline w n"])
qed

lemma due_list_distinct:
  assumes "wheel_inv w"
  shows "distinct (due_list w now)"
proof -
  have "distinct (concat (map (tw_slots w) ss))" if "distinct ss" for ss
    using that by (induction ss) (auto simp: wheel_distinct[OF assms] wheel_linked[OF assms])
  from this[OF window_distinct[of "min now (unat (tw_current w) + MAX_TIMER_SLOTS)" "unat (tw_current w)"]]
  show ?thesis by (simp add: due_list_def comp_def)
qed

lemma timer_wheel_roll_releases:
  assumes rel: "releases fn rel" and inv: "wheel_inv w" and le: "tw_current w \<le> now"
    and nowrap: "unat (tw_current w) + MAX_TIMER_SLOTS < 2 ^ 32"
  shows "timer_wheel_roll fn (w, x) now =
    Some (((remove_list w (due_list w (unat now)))\<lparr>tw_current := now\<rparr>, fire rel w (due_list w (unat now)) x),
          of_nat (length (due_list w (unat now))))"
proof -
  let ?c = "tw_current w"
  have "unat (?c + of_nat MAX_TIMER_SLOTS) = unat ?c + MAX_TIMER_SLOTS"
    using nowrap by (simp add: unat_word_ariths unat_of_nat MAX_TIMER_SLOTS_def)
  then have m: "unat (min now (?c + of_nat MAX_TIMER_SLOTS)) = min (unat now) (unat ?c + MAX_TIMER_SLOTS)"
    by (simp add: min_def word_le_nat_alt)
  have "roll_slots fn [unat ?c ..< unat (min now (?c + of_nat MAX_TIMER_SLOTS))] (w, x) 0 =
      Some ((remove_list w (due_list w (unat now)), fire rel w (due_list w (unat now)) x),
            0 + of_nat (length (due_list w (unat now))))"
    unfolding m due_list_def by (rule roll_slots_releases[OF rel inv window_distinct]) simp
  then show ?thesis using le by (simp add: timer_wheel_roll_def Let_def not_less[symmetric])
qed

lemma wheel_inv_start:
  "wheel_inv w \<Longrightarrow> \<not> tw_active w n \<Longrightarrow> wheel_inv (timer_wheel_entry_start w n cb t now)"
  by (simp add: timer_wheel_entry_start_def Let_def wheel_inv_insert)

lemma start_simps:
  "tw_active (timer_wheel_entry_start w n cb t now) m \<longleftrightarrow> m = n \<or> tw_active w m"
  "tw_current (timer_wheel_entry_start w n cb t now) = tw_current w"
  by (auto simp: timer_wheel_entry_start_def wheel_defs)

lemma unat_ucast_u16_u32: "unat (ucast (x :: u16) :: u32) = unat x"
  using unat16_lt[of x] by (simp add: unsigned_ucast_eq take_bit_nat_eq_self_iff)

lemma start_entry:
  assumes "unat t < MAX_TIMER_SLOTS" "unat now + unat t < 2 ^ 32"
  shows "te_expire_slot (tw_entries (timer_wheel_entry_start w n cb t now) n) =
      of_nat ((unat now + unat t) mod MAX_TIMER_SLOTS)"
    "te_timeout (tw_entries (timer_wheel_entry_start w n cb t now) n) = t"
    "te_callback (tw_entries (timer_wheel_entry_start w n cb t now) n) = Some cb"
  using assms by (simp_all add: timer_wheel_entry_start_def wheel_defs unat_word_ariths unat_ucast_u16_u32)

lemma deadline_start:
  assumes inv: "wheel_inv w" and new: "\<not> tw_active w n" and t: "unat t < MAX_TIMER_SLOTS"
    and le: "tw_current w \<le> now" and lag: "unat now + unat t < unat (tw_current w) + MAX_TIMER_SLOTS"
    and nowrap: "unat now + unat t < 2 ^ 32"
  shows "deadline (timer_wheel_entry_start w n cb t now) n = unat now + unat t"
proof (rule deadline_unique)
  show "wheel_inv (timer_wheel_entry_start w n cb t now)" using inv new by (rule wheel_inv_start)
qed (use le lag in \<open>auto simp: start_simps start_entry[OF t nowrap] unat_slot word_le_nat_alt\<close>)


lemma distinct_singleton_set: "distinct xs \<Longrightarrow> set xs = {a} \<Longrightarrow> xs = [a]"
  by (cases xs) (auto simp: subset_singleton_iff)

definition wheel_one :: "unit timer_wheel" where
  "wheel_one = timer_wheel_entry_start (timer_wheel_start timer_wheel_init 100) 7 () 20 100"

lemma wheel_one_inv: "wheel_inv wheel_one" "tw_active wheel_one n \<longleftrightarrow> n = 7" "deadline wheel_one 7 = 120"
    "tw_current wheel_one = 100"
proof -
  have 0: "wheel_inv (timer_wheel_start timer_wheel_init 100)" "\<not> tw_active (timer_wheel_start timer_wheel_init 100) n" for n
    by (simp add: timer_wheel_start_def wheel_inv_current wheel_inv_init)
       (simp add: timer_wheel_start_def tw_active_def timer_wheel_init_def entry_zero_def timer_wheel_entry_is_active_def)
  show "wheel_inv wheel_one" "tw_active wheel_one n \<longleftrightarrow> n = 7" "tw_current wheel_one = 100"
    using 0 by (auto simp: wheel_one_def start_simps intro: wheel_inv_start) (simp add: timer_wheel_start_def)
  show "deadline wheel_one 7 = 120"
    using deadline_start[OF 0, where t = 20 and now = 100 and cb = "()"] by (simp add: wheel_one_def MAX_TIMER_SLOTS_def timer_wheel_start_def)
qed

definition note_released :: "unit option \<Rightarrow> nat \<Rightarrow> nat list \<Rightarrow> nat list" where
  "note_released cb n x = n # x"

definition note_callback :: "unit option \<Rightarrow> nat \<Rightarrow> unit timer_wheel \<times> nat list \<Rightarrow> unit timer_wheel \<times> nat list" where
  "note_callback cb n st = (fst st, note_released cb n (snd st))"


subsection \<open>Life and idle time of an entry\<close>

lemma ucast_of_nat_u32_u16: "ucast (of_nat m :: u32) = (of_nat m :: u16)"
  by transfer simp

lemma of_nat_slot: "ucast (of_nat (k mod MAX_TIMER_SLOTS) :: u16) = (of_nat (k mod MAX_TIMER_SLOTS) :: u32)"
  by (simp add: word_unat_eq_iff unat_ucast_u16_u32 unat_of_nat MAX_TIMER_SLOTS_def)

lemma mod_gap:
  fixes l e :: nat
  assumes "l \<le> e" "e < l + m"
  shows "l mod m \<le> e mod m \<Longrightarrow> l + e mod m - l mod m = e"
    and "\<not> l mod m \<le> e mod m \<Longrightarrow> l + e mod m + m - l mod m = e"
proof -
  have m: "0 < m" using assms by linarith
  have w: "l + (e mod m + m - l mod m) mod m = e"
    by (rule mod_window_inj[OF mod_window(1)[OF mod_less_divisor[OF m]] le_add1 mod_window(2)[OF mod_less_divisor[OF m]] assms])
  have le: "l mod m \<le> l" and lt: "l mod m < m" "e mod m < m" using m by simp_all
  show "l + e mod m - l mod m = e" if "l mod m \<le> e mod m"
  proof -
    have "e mod m + m - l mod m = e mod m - l mod m + m" using that by linarith
    then have "(e mod m + m - l mod m) mod m = e mod m - l mod m"
      using lt by (metis mod_add_self2 mod_less less_imp_diff_less)
    with w have "l + (e mod m - l mod m) = e" by (simp only:)
    then show ?thesis using that by (simp only: Nat.add_diff_assoc)
  qed
  show "l + e mod m + m - l mod m = e" if "\<not> l mod m \<le> e mod m"
  proof -
    have "(e mod m + m - l mod m) mod m = e mod m + m - l mod m" using lt that by (intro mod_less) linarith
    with w have "l + (e mod m + m - l mod m) = e" by (simp only:)
    moreover have "l mod m \<le> e mod m + m" using lt(1) by (simp add: trans_le_add2)
    ultimately show ?thesis by (simp only: Nat.add_diff_assoc add.assoc)
  qed
qed

lemma get_expire_at_start:
  assumes t: "unat t < MAX_TIMER_SLOTS" and k: "k \<le> unat t" and nowrap: "unat now + unat t + MAX_TIMER_SLOTS < 2 ^ 32"
  shows "get_expire_at (tw_entries (timer_wheel_entry_start w n cb t now) n) (now + of_nat k) = now + of_nat (unat t)"
proof -
  let ?l = "unat now + k" let ?e = "unat now + unat t"
  have l: "now + of_nat k = of_nat ?l" and e: "now + of_nat (unat t) = of_nat ?e" by simp_all
  have lu: "unat (of_nat ?l :: u32) = ?l" using k nowrap by (simp add: unat_of_nat del: of_nat_add)
  have nw: "unat now + unat t < 2 ^ 32" using nowrap by simp
  have cmp: "(of_nat (?l mod MAX_TIMER_SLOTS) :: u16) \<le> of_nat (?e mod MAX_TIMER_SLOTS)
      \<longleftrightarrow> ?l mod MAX_TIMER_SLOTS \<le> ?e mod MAX_TIMER_SLOTS"
    by (simp add: word_le_nat_alt unat_slot)
  have le: "?l mod MAX_TIMER_SLOTS \<le> ?l + ?e mod MAX_TIMER_SLOTS" "?l mod MAX_TIMER_SLOTS \<le> ?l + ?e mod MAX_TIMER_SLOTS + MAX_TIMER_SLOTS"
    using mod_less_eq_dividend[of ?l MAX_TIMER_SLOTS] by linarith+
  show ?thesis
  proof (cases "?l mod MAX_TIMER_SLOTS \<le> ?e mod MAX_TIMER_SLOTS")
    case True
    then have "of_nat ?e = (of_nat (?l + ?e mod MAX_TIMER_SLOTS - ?l mod MAX_TIMER_SLOTS) :: u32)"
      using mod_gap(1)[of ?l ?e MAX_TIMER_SLOTS] k t by simp
    with True show ?thesis
      unfolding get_expire_at_def Let_def l e lu start_entry[OF t nw] of_nat_slot cmp
      by (simp only: simp_thms if_True of_nat_diff[OF le(1)] of_nat_add)
  next
    case False
    then have "of_nat ?e = (of_nat (?l + ?e mod MAX_TIMER_SLOTS + MAX_TIMER_SLOTS - ?l mod MAX_TIMER_SLOTS) :: u32)"
      using mod_gap(2)[of ?l ?e MAX_TIMER_SLOTS] k t by simp
    with False show ?thesis
      unfolding get_expire_at_def Let_def l e lu start_entry[OF t nw] of_nat_slot cmp
      by (simp only: simp_thms option.distinct if_False of_nat_diff[OF le(2)] of_nat_add)
  qed
qed

text \<open>C11. An entry started at tick \<open>now\<close> with a timeout of less than 3600 ticks has, \<open>k\<close> ticks later and not
  past its deadline, a life of \<open>timeout - k\<close> and an idle time of \<open>k\<close>, however the slot numbers wrap
  around the wheel in between.\<close>
theorem timer_entry_life:
  assumes "unat t < MAX_TIMER_SLOTS" and "k \<le> unat t" and "unat now + unat t + MAX_TIMER_SLOTS < 2 ^ 32"
    and e_def: "e = tw_entries (timer_wheel_entry_start w n cb t now) n"
  shows "timer_wheel_entry_get_life e (now + of_nat k) = t - of_nat k \<and>
    timer_wheel_entry_get_idle e (now + of_nat k) = of_nat k"
proof -
  have k: "unat (of_nat k :: u32) = k" "k < 2 ^ 16" using assms(1,2) by (simp_all add: unat_of_nat MAX_TIMER_SLOTS_def)
  have tm: "te_timeout e = t" using assms(1,3) by (simp add: e_def start_entry)
  have exp: "get_expire_at e (now + of_nat k) = now + of_nat (unat t)"
    unfolding e_def by (rule get_expire_at_start[OF assms(1-3)])
  have "ucast (of_nat (unat t) - of_nat k :: u32) = t - of_nat k"
  proof -
    have "of_nat (unat t) - of_nat k = (of_nat (unat t - k) :: u32)" "t - of_nat k = of_nat (unat t - k)"
      by (simp_all add: of_nat_diff[OF assms(2)])
    then show ?thesis by (simp only: ucast_of_nat_u32_u16)
  qed
  then show ?thesis
    by (simp add: timer_wheel_entry_get_life_def timer_wheel_entry_get_idle_def exp tm ucast_of_nat_u32_u16)
qed

theorem timer_entry_life_witness:
  "timer_wheel_entry_get_life (tw_entries (timer_wheel_entry_start timer_wheel_init 1 () 300 3500) 1) (3500 + of_nat 200) =
     300 - of_nat 200"
proof -
  have p: "unat (300 :: u16) < MAX_TIMER_SLOTS" "200 \<le> unat (300 :: u16)"
    "unat (3500 :: u32) + unat (300 :: u16) + MAX_TIMER_SLOTS < 2 ^ 32" by (simp_all add: MAX_TIMER_SLOTS_def)
  show ?thesis by (rule timer_entry_life[OF p refl, THEN conjunct1])
qed

subsection \<open>Trimming the queue\<close>

lemma trim_loop_takeWhile:
  assumes "\<forall>n\<in>set l. tq_last q n \<le> now"
  shows "trim_loop q now l gone =
    (let out = takeWhile (\<lambda>n. \<not> now < tq_last q n + tq_timeout q) l in (foldl timer_queue_remove q out, gone @ out))"
  using assms
proof (induction l arbitrary: q gone)
  case (Cons n l)
  have "tq_last (timer_queue_remove q m) = tq_last q" "tq_timeout (timer_queue_remove q m) = tq_timeout q" for m
    by (simp_all add: timer_queue_remove_def)
  then show ?case using Cons by (auto simp: Let_def not_less)
qed simp

lemma queue_remove_list:
  "tq_head (foldl timer_queue_remove q ns) = filter (\<lambda>x. x \<notin> set ns) (tq_head q)"
  "tq_count (foldl timer_queue_remove q ns) = tq_count q - of_nat (length ns)"
  by (induction ns arbitrary: q) (simp_all add: timer_queue_remove_def conj_commute)

lemma takeWhile_sorted_filter:
  "sorted_wrt (\<lambda>a b. P b \<longrightarrow> P a) xs \<Longrightarrow> takeWhile P xs = filter P xs"
  by (induction xs) (auto simp: filter_empty_conv)

text \<open>C13. Trimming a timeout queue whose nodes were appended in the order of their time stamps, none of
  them in the future, removes exactly the nodes that are at least \<open>timeout\<close> old, oldest first, keeps the
  others in order, and lowers the count by the number of removed nodes.\<close>
theorem timer_queue_trim_expired:
  assumes "distinct (tq_head q)" and "sorted (map (tq_last q) (tq_head q))"
    and "\<forall>n\<in>set (tq_head q). tq_last q n \<le> now" and "unat now + unat (tq_timeout q) < 2 ^ 32"
  shows "\<exists>q'. timer_queue_trim q now = (q', filter (\<lambda>n. tq_last q n + tq_timeout q \<le> now) (tq_head q)) \<and>
    tq_head q' = filter (\<lambda>n. now < tq_last q n + tq_timeout q) (tq_head q) \<and>
    tq_count q' = tq_count q - of_nat (length (filter (\<lambda>n. tq_last q n + tq_timeout q \<le> now) (tq_head q)))"
proof -
  let ?P = "\<lambda>n. tq_last q n + tq_timeout q \<le> now"
  have add: "unat (x + tq_timeout q) = unat x + unat (tq_timeout q)" if "x \<le> now" for x
    using that assms(4) by (simp add: unat_word_ariths word_le_nat_alt)
  have "sorted_wrt (\<lambda>a b. tq_last q a \<le> tq_last q b) (tq_head q)"
    using assms(2) by (simp add: sorted_wrt_map)
  then have "sorted_wrt (\<lambda>a b. ?P b \<longrightarrow> ?P a) (tq_head q)"
    using assms(3) add by (elim sorted_wrt_mono_rel[rotated]) (simp add: word_le_nat_alt)
  then have tw: "takeWhile ?P (tq_head q) = filter ?P (tq_head q)" by (rule takeWhile_sorted_filter)
  have "timer_queue_trim q now = (foldl timer_queue_remove q (filter ?P (tq_head q)), filter ?P (tq_head q))"
    using trim_loop_takeWhile[OF assms(3)] by (simp add: timer_queue_trim_def Let_def not_less tw)
  then show ?thesis by (auto simp: queue_remove_list not_le intro: filter_cong)
qed

definition tq_two :: timer_queue where
  "tq_two = timer_queue_append (timer_queue_append (timer_queue_init 10) 1 100) 2 105"

theorem timer_queue_trim_expired_witness:
  "\<exists>q'. timer_queue_trim tq_two 112 = (q', [1]) \<and> tq_head q' = [2] \<and> tq_count q' = 1"
proof -
  have p: "distinct (tq_head tq_two)" "sorted (map (tq_last tq_two) (tq_head tq_two))"
    "\<forall>n\<in>set (tq_head tq_two). tq_last tq_two n \<le> 112" by code_simp+
  have b: "unat (112 :: u32) + unat (tq_timeout tq_two) < 2 ^ 32"
    by (simp add: tq_two_def timer_queue_append_def timer_queue_init_def)
  have f: "filter (\<lambda>n. tq_last tq_two n + tq_timeout tq_two \<le> 112) (tq_head tq_two) = [1]"
    "filter (\<lambda>n. 112 < tq_last tq_two n + tq_timeout tq_two) (tq_head tq_two) = [2]"
    "tq_count tq_two - of_nat (length [1 :: nat]) = 1"
    by code_simp+
  show ?thesis using timer_queue_trim_expired[OF p b] unfolding f .
qed

end
