(* ===== verification/DP_Types.thy ===== *)
theory DP_Types
  imports DP_PolicyTable DP_Asm DP_TimerWheel
begin

text \<open>
  The records the packet path shares: packets, the two wings of a session, sessions (\<open>dpi/dpi_packet.h\<close>,
  \<open>dpi/dpi_session.h\<close>), and loads of 16- and 32-bit fields from packet memory. A field loaded from a
  header is the value the little-endian machine sees; the code turns it round with \<open>ntohs\<close> and
  \<open>ntohl\<close> where it needs to.
\<close>

record buf =
  b_data :: bytes
  b_seq :: u32

text \<open>\<open>p_ip6_fragh\<close> is the position of the fragment header in the packet, \<open>p_frag_trac\<close> names the fragments a
  reassembled packet was made of.\<close>
record dpi_packet =
  p_pkt :: bytes
  p_ip6_fragh :: "nat option"
  p_flags :: u32
  p_l2 :: u16
  p_l3 :: u16
  p_l4 :: u16
  p_cap_len :: u16
  p_len :: u16
  p_eth_type :: u16
  p_sport :: u16
  p_dport :: u16
  p_ip_proto :: byte
  p_tcp_wscale :: byte
  p_tcp_mss :: u16
  p_tcp_ts_value :: u32
  p_tcp_ts_echo :: u32
  p_threat_id :: u32
  p_action :: byte
  p_severity :: byte
  p_raw :: buf
  p_ep_mac :: bytes
  p_frag_trac :: "nat option"

text \<open>\<open>tcp_state\<close> holds the values of \<open>netinet/tcp.h\<close>. The union of TCP and ICMP fields is kept as
  separate fields: a session is of one protocol. \<open>w_ip4\<close> and \<open>w_ip6\<close> are the two views of \<open>io_ip_t\<close>.\<close>
record dpi_wing =
  w_mac :: bytes
  w_port :: u16
  w_ip4 :: u32
  w_ip6 :: bytes
  w_next_seq :: u32
  w_init_seq :: u32
  w_asm_seq :: u32
  w_tcp_acked :: u32
  w_tcp_win :: u32
  w_icmp_echo_hash :: u32
  w_icmp_echo_seq :: u16
  w_icmp_times :: byte
  w_tcp_mss :: u16
  w_tcp_state :: nat
  w_tcp_wscale :: byte
  w_flags :: byte
  w_asm_cache :: asm_t
  w_pkts :: u32
  w_bytes :: u32
  w_reported_pkts :: u32
  w_reported_bytes :: u32

record dpi_session =
  s_id :: u32
  s_created_at :: u32
  s_last_report :: u32
  s_client :: dpi_wing
  s_server :: dpi_wing
  s_flags :: u16
  s_tick_flags :: byte
  s_meter_flags :: byte
  s_only_parser :: nat
  s_small_window_tick :: u32
  s_parser_bits :: bytes
  s_app :: u16
  s_base_app :: u16
  s_ip_proto :: byte
  s_action :: byte
  s_severity :: byte
  s_term_reason :: byte
  s_threat_id :: u32
  s_policy_desc :: dpi_policy_desc
  s_xff_desc :: dpi_policy_desc
  s_xff_client_ip :: u32
  s_xff_app :: u16
  s_xff_port :: u16

definition FLAGS_TEST :: "'a::len word \<Rightarrow> 'a word \<Rightarrow> bool" where
  "FLAGS_TEST f b \<longleftrightarrow> f AND b \<noteq> 0"

definition DPI_PKT_FLAG_SACKOK :: u32 where "DPI_PKT_FLAG_SACKOK = 0x00000001"
definition DPI_PKT_FLAG_TCP_TS :: u32 where "DPI_PKT_FLAG_TCP_TS = 0x00000002"
definition DPI_PKT_FLAG_CLIENT :: u32 where "DPI_PKT_FLAG_CLIENT = 0x00000004"
definition DPI_PKT_FLAG_NEW_SESSION :: u32 where "DPI_PKT_FLAG_NEW_SESSION = 0x00000008"
definition DPI_PKT_FLAG_ASSEMBLED :: u32 where "DPI_PKT_FLAG_ASSEMBLED = 0x00000010"
definition DPI_PKT_FLAG_CACHED :: u32 where "DPI_PKT_FLAG_CACHED = 0x00000020"
definition DPI_PKT_FLAG_SKIP_PARSER :: u32 where "DPI_PKT_FLAG_SKIP_PARSER = 0x00000040"
definition DPI_PKT_FLAG_INGRESS :: u32 where "DPI_PKT_FLAG_INGRESS = 0x00000100"
definition DPI_PKT_FLAG_LOG_MID :: u32 where "DPI_PKT_FLAG_LOG_MID = 0x00000800"
definition DPI_PKT_FLAG_LOG_VIOLATE :: u32 where "DPI_PKT_FLAG_LOG_VIOLATE = 0x00001000"
definition DPI_PKT_FLAG_LOG_XFF :: u32 where "DPI_PKT_FLAG_LOG_XFF = 0x00002000"

definition DPI_SESS_FLAG_IPV4 :: u16 where "DPI_SESS_FLAG_IPV4 = 0x0001"
definition DPI_SESS_FLAG_SKIP_PARSER :: u16 where "DPI_SESS_FLAG_SKIP_PARSER = 0x0002"
definition DPI_SESS_FLAG_FINAL_PARSER :: u16 where "DPI_SESS_FLAG_FINAL_PARSER = 0x0004"
definition DPI_SESS_FLAG_LAST_PARSER :: u16 where "DPI_SESS_FLAG_LAST_PARSER = 0x0008"
definition DPI_SESS_FLAG_INGRESS :: u16 where "DPI_SESS_FLAG_INGRESS = 0x0010"
definition DPI_SESS_FLAG_TAP :: u16 where "DPI_SESS_FLAG_TAP = 0x0020"
definition DPI_SESS_FLAG_MID_STREAM :: u16 where "DPI_SESS_FLAG_MID_STREAM = 0x0040"
definition DPI_SESS_FLAG_ESTABLISHED :: u16 where "DPI_SESS_FLAG_ESTABLISHED = 0x0100"
definition DPI_SESS_FLAG_POLICY_APP_READY :: u16 where "DPI_SESS_FLAG_POLICY_APP_READY = 0x0200"
definition DPI_SESS_FLAG_XFF :: u16 where "DPI_SESS_FLAG_XFF = 0x2000"

lemmas flag_consts [dp_eval] =
  DPI_PKT_FLAG_SACKOK_def DPI_PKT_FLAG_TCP_TS_def DPI_PKT_FLAG_CLIENT_def DPI_PKT_FLAG_NEW_SESSION_def
  DPI_PKT_FLAG_ASSEMBLED_def DPI_PKT_FLAG_CACHED_def DPI_PKT_FLAG_SKIP_PARSER_def DPI_PKT_FLAG_INGRESS_def
  DPI_PKT_FLAG_LOG_MID_def DPI_PKT_FLAG_LOG_VIOLATE_def DPI_PKT_FLAG_LOG_XFF_def
  DPI_SESS_FLAG_IPV4_def DPI_SESS_FLAG_SKIP_PARSER_def DPI_SESS_FLAG_FINAL_PARSER_def
  DPI_SESS_FLAG_LAST_PARSER_def DPI_SESS_FLAG_INGRESS_def DPI_SESS_FLAG_TAP_def DPI_SESS_FLAG_MID_STREAM_def
  DPI_SESS_FLAG_ESTABLISHED_def DPI_SESS_FLAG_POLICY_APP_READY_def DPI_SESS_FLAG_XFF_def

text \<open>Loads of little-endian fields; outside the object they fail.\<close>
definition ld16 :: "bytes \<Rightarrow> nat \<Rightarrow> u16 option" where
  "ld16 m i = do { a \<leftarrow> rd8 m i; b \<leftarrow> rd8 m (i + 1); Some (ucast a OR push_bit 8 (ucast b)) }"

definition ld32 :: "bytes \<Rightarrow> nat \<Rightarrow> u32 option" where
  "ld32 m i = do {
     a \<leftarrow> rd8 m i; b \<leftarrow> rd8 m (i + 1); c \<leftarrow> rd8 m (i + 2); d \<leftarrow> rd8 m (i + 3);
     Some (ucast a OR push_bit 8 (ucast b) OR push_bit 16 (ucast c) OR push_bit 24 (ucast d)) }"

lemma rd8_Some [read_bounds]: "i < length m \<Longrightarrow> rd8 m i = Some (m ! i)"
  by (simp add: rd8_def)

lemma ld16_Some [read_bounds]: "i + 2 \<le> length m \<Longrightarrow> \<exists>v. ld16 m i = Some v"
  by (simp add: ld16_def rd8_def)

lemma ld32_Some [read_bounds]: "i + 4 \<le> length m \<Longrightarrow> \<exists>v. ld32 m i = Some v"
  by (simp add: ld32_def rd8_def)

text \<open>The callbacks the timers of the packet path carry.\<close>
datatype timer_cb =
  CB_unknown_ip_release | CB_session_timeout | CB_session_nodata_timeout | CB_session_tick
  | CB_meter_release | CB_log_release | CB_frag_release | CB_frag6_release

end
