(* ===== verification/DP_Asn1.thy ===== *)
theory DP_Asn1
  imports DP_Types
begin

text \<open>
  The BER reader of \<open>utils/asn1.c\<close>. A buffer is the memory behind \<open>buf->ptr\<close> with the length and the
  position the code keeps; the length may claim more than the memory holds, and a read outside of the memory is
  \<^term>\<open>None\<close>. An \<open>int\<close> is a 32-bit word compared as signed; a shift that leaves its width wraps, as the
  compilers the code is built with define it. An object identifier is the list of the nodes written so far.
\<close>

datatype asn1_err = ASN1_ERR_NONE | ASN1_ERR_LONG | ASN1_ERR_FORMAT

record asn1 =
  a_length :: u32
  a_class :: byte
  a_tag :: byte
  a_constructed :: bool

record abuf =
  ab_mem :: bytes
  ab_len :: u32
  ab_seq :: u32

definition ASN1_CLASS_CONTEXT :: byte where "ASN1_CLASS_CONTEXT = 2"
definition ASN1_TAG_BOOLEAN :: byte where "ASN1_TAG_BOOLEAN = 1"
definition ASN1_TAG_INTEGER :: byte where "ASN1_TAG_INTEGER = 2"
definition ASN1_TAG_BITSTR :: byte where "ASN1_TAG_BITSTR = 3"
definition ASN1_TAG_OCTSTR :: byte where "ASN1_TAG_OCTSTR = 4"
definition ASN1_TAG_NULL :: byte where "ASN1_TAG_NULL = 5"
definition ASN1_TAG_OBJID :: byte where "ASN1_TAG_OBJID = 6"
definition ASN1_TAG_ENUMERATED :: byte where "ASN1_TAG_ENUMERATED = 10"
definition ASN1_TAG_UTF8STR :: byte where "ASN1_TAG_UTF8STR = 12"
definition ASN1_TAG_SEQUENCE :: byte where "ASN1_TAG_SEQUENCE = 16"
definition ASN1_TAG_SET :: byte where "ASN1_TAG_SET = 17"
definition ASN1_TAG_NUMSTR :: byte where "ASN1_TAG_NUMSTR = 18"
definition ASN1_TAG_PRINTSTR :: byte where "ASN1_TAG_PRINTSTR = 19"
definition ASN1_TAG_TELESTR :: byte where "ASN1_TAG_TELESTR = 20"
definition ASN1_TAG_VIDEOSTR :: byte where "ASN1_TAG_VIDEOSTR = 21"
definition ASN1_TAG_IA5STR :: byte where "ASN1_TAG_IA5STR = 22"
definition ASN1_TAG_UTCTIME :: byte where "ASN1_TAG_UTCTIME = 23"
definition ASN1_TAG_GENTIME :: byte where "ASN1_TAG_GENTIME = 24"
definition ASN1_TAG_GRASTR :: byte where "ASN1_TAG_GRASTR = 25"
definition ASN1_TAG_VISSTR :: byte where "ASN1_TAG_VISSTR = 26"
definition ASN1_TAG_GENSTR :: byte where "ASN1_TAG_GENSTR = 27"
definition ASN1_TAG_UNIVSTR :: byte where "ASN1_TAG_UNIVSTR = 28"
definition ASN1_TAG_CHARSTR :: byte where "ASN1_TAG_CHARSTR = 29"
definition ASN1_TAG_BMPSTR :: byte where "ASN1_TAG_BMPSTR = 30"
definition ASN1_TAG_VARYSIZE :: byte where "ASN1_TAG_VARYSIZE = 31"

lemmas asn1_consts [dp_eval] = ASN1_CLASS_CONTEXT_def ASN1_TAG_BOOLEAN_def ASN1_TAG_INTEGER_def
  ASN1_TAG_BITSTR_def ASN1_TAG_OCTSTR_def ASN1_TAG_NULL_def ASN1_TAG_OBJID_def ASN1_TAG_ENUMERATED_def
  ASN1_TAG_UTF8STR_def ASN1_TAG_SEQUENCE_def ASN1_TAG_SET_def ASN1_TAG_NUMSTR_def ASN1_TAG_PRINTSTR_def
  ASN1_TAG_TELESTR_def ASN1_TAG_VIDEOSTR_def ASN1_TAG_IA5STR_def ASN1_TAG_UTCTIME_def ASN1_TAG_GENTIME_def
  ASN1_TAG_GRASTR_def ASN1_TAG_VISSTR_def ASN1_TAG_GENSTR_def ASN1_TAG_UNIVSTR_def ASN1_TAG_CHARSTR_def
  ASN1_TAG_BMPSTR_def ASN1_TAG_VARYSIZE_def

definition ASN1_GET_CLASS :: "byte \<Rightarrow> byte" where "ASN1_GET_CLASS c = drop_bit 6 (c AND 0xc0)"
definition ASN1_GET_TAG :: "byte \<Rightarrow> byte" where "ASN1_GET_TAG c = c AND 0x1f"
definition ASN1_IS_CONSTRUCTED :: "byte \<Rightarrow> bool" where "ASN1_IS_CONSTRUCTED c \<longleftrightarrow> c AND 0x20 \<noteq> 0"

abbreviation skip :: "abuf \<Rightarrow> u32 \<Rightarrow> abuf" where
  "skip buf n \<equiv> buf\<lparr>ab_seq := ab_seq buf + n\<rparr>"

abbreviation cur :: "abuf \<Rightarrow> byte option" where
  "cur buf \<equiv> rd8 (ab_mem buf) (unat (ab_seq buf))"

text \<open>The loop that gathers \<open>count\<close> bytes, most significant first; it is the one of the integers and of the long
  lengths.\<close>
fun gather :: "nat \<Rightarrow> abuf \<Rightarrow> u32 \<Rightarrow> (u32 \<times> abuf) option" where
  "gather 0 buf v = Some (v, buf)"
| "gather (Suc n) buf v = do {
     ch \<leftarrow> cur buf;
     gather n (skip buf 1) (push_bit 8 v OR ucast ch) }"

text \<open>\<open>value\<close> is written only when the integer fits.\<close>
definition asn1_read_integer :: "asn1 \<Rightarrow> abuf \<Rightarrow> u32 \<Rightarrow> (asn1_err \<times> abuf \<times> u32) option" where
  "asn1_read_integer a buf val =
     (if 4 <s a_length a then Some (ASN1_ERR_LONG, skip buf (a_length a), val)
      else do {
        (v, buf1) \<leftarrow> gather (nat (sint (a_length a))) buf 0;
        Some (ASN1_ERR_NONE, buf1, v) })"

definition asn1_read_string :: "asn1 \<Rightarrow> abuf \<Rightarrow> asn1_err \<times> abuf" where
  "asn1_read_string a buf = (ASN1_ERR_NONE, skip buf (a_length a))"

definition ASN1_MAX_OID_LEN :: nat where "ASN1_MAX_OID_LEN = 128"
definition ASN1_MAX_NODE_ID :: u32 where "ASN1_MAX_NODE_ID = 0xffffffff"

lemma unat_inc: "x < y \<Longrightarrow> unat (x + 1) = Suc (unat x)" for x y :: u32
  using unat_less_pow [of y] by (simp add: word_less_nat_alt unat_word_ariths)

text \<open>One node: seven bits a byte, until a byte without the top bit.\<close>
function asn1_node :: "abuf \<Rightarrow> u32 \<Rightarrow> (asn1_err \<times> abuf \<times> u32) option" where
  "asn1_node buf node =
     (if ab_len buf \<le> ab_seq buf then Some (ASN1_ERR_FORMAT, buf, node)
      else if node > drop_bit 7 ASN1_MAX_NODE_ID then Some (ASN1_ERR_FORMAT, buf, node)
      else do {
        ch \<leftarrow> cur buf;
        (let node1 = push_bit 7 node OR ucast (ch AND 0x7f) in
         if ch \<ge> 0x80 then asn1_node (skip buf 1) node1 else Some (ASN1_ERR_NONE, skip buf 1, node1)) })"
  by pat_completeness auto
termination
  by (relation "measure (\<lambda>(buf, _). unat (ab_len buf) - unat (ab_seq buf))")
    (auto simp: not_le unat_inc word_less_nat_alt intro!: diff_less_mono2)

declare asn1_node.simps [simp del]

function asn1_oid_loop :: "abuf \<Rightarrow> u32 \<Rightarrow> u32 list \<Rightarrow> (asn1_err \<times> abuf \<times> u32 list) option" where
  "asn1_oid_loop buf oid_fin oid =
     (if oid_fin \<le> ab_seq buf then Some (ASN1_ERR_NONE, buf, oid)
      else if length oid \<ge> ASN1_MAX_OID_LEN then Some (ASN1_ERR_FORMAT, buf, oid)
      else do {
        (err, buf1, node) \<leftarrow> asn1_node buf 0;
        if err \<noteq> ASN1_ERR_NONE then Some (err, buf1, oid)
        else asn1_oid_loop buf1 oid_fin
               (if oid = [] then (if node < 80 then [node div 40, node mod 40] else [2, node - 80])
                else oid @ [node]) })"
  by pat_completeness auto
termination
  by (relation "measure (\<lambda>(_, _, oid). ASN1_MAX_OID_LEN - length oid)") auto

declare asn1_oid_loop.simps [simp del]

definition asn1_read_oid :: "asn1 \<Rightarrow> abuf \<Rightarrow> (asn1_err \<times> abuf \<times> u32 list) option" where
  "asn1_read_oid a buf =
     (if a_length a = 0 then Some (ASN1_ERR_FORMAT, buf, [])
      else asn1_oid_loop buf (ab_seq buf + a_length a) [])"

function asn1_tag_loop :: "abuf \<Rightarrow> u32 \<Rightarrow> (asn1_err \<times> abuf \<times> u32) option" where
  "asn1_tag_loop buf tag =
     (if ab_len buf \<le> ab_seq buf then Some (ASN1_ERR_FORMAT, buf, tag)
      else do {
        ch \<leftarrow> cur buf;
        (let tag1 = push_bit 7 tag OR ucast (ch AND 0x7f) in
         if ch \<ge> 0x80 then asn1_tag_loop (skip buf 1) tag1 else Some (ASN1_ERR_NONE, skip buf 1, tag1)) })"
  by pat_completeness auto
termination
  by (relation "measure (\<lambda>(buf, _). unat (ab_len buf) - unat (ab_seq buf))")
    (auto simp: not_le unat_inc word_less_nat_alt intro!: diff_less_mono2)

declare asn1_tag_loop.simps [simp del]

text \<open>The tag is kept in eight bits.\<close>
definition asn1_read_tag :: "asn1 \<Rightarrow> abuf \<Rightarrow> (asn1_err \<times> asn1 \<times> abuf) option" where
  "asn1_read_tag a buf = do {
     (err, buf1, tag) \<leftarrow> asn1_tag_loop buf 0;
     if err \<noteq> ASN1_ERR_NONE then Some (err, a, buf1)
     else if tag <s 0 then Some (ASN1_ERR_FORMAT, a, buf1)
     else Some (ASN1_ERR_NONE, a\<lparr>a_tag := ucast tag\<rparr>, buf1) }"

definition asn1_read_length :: "asn1 \<Rightarrow> abuf \<Rightarrow> (asn1_err \<times> asn1 \<times> abuf) option" where
  "asn1_read_length a buf =
     (if ab_len buf \<le> ab_seq buf then Some (ASN1_ERR_FORMAT, a, buf)
      else do {
        ch \<leftarrow> cur buf;
        if ch = 0x80 \<or> ch = 0xff then Some (ASN1_ERR_FORMAT, a, buf)
        else if ch < 0x80 then Some (ASN1_ERR_NONE, a\<lparr>a_length := ucast ch\<rparr>, skip buf 1)
        else let buf1 = skip buf 1; num = ucast (ch AND 0x7f) in
          if ab_len buf \<le> ab_seq buf1 + num \<or> num > 4 then Some (ASN1_ERR_FORMAT, a, buf1)
          else do {
            (v, buf2) \<leftarrow> gather (unat num) buf1 0;
            if v <s 0 then Some (ASN1_ERR_FORMAT, a, buf2)
            else Some (ASN1_ERR_NONE, a\<lparr>a_length := v\<rparr>, buf2) } })"

definition asn1_read_header :: "asn1 \<Rightarrow> abuf \<Rightarrow> (asn1_err \<times> asn1 \<times> abuf) option" where
  "asn1_read_header a buf =
     (if ab_len buf < 2 \<or> ab_len buf \<le> ab_seq buf then Some (ASN1_ERR_FORMAT, a, buf)
      else do {
        ch \<leftarrow> cur buf;
        let a1 = a\<lparr>a_class := ASN1_GET_CLASS ch, a_constructed := ASN1_IS_CONSTRUCTED ch, a_tag := ASN1_GET_TAG ch\<rparr>;
        (err, a2, buf2) \<leftarrow> (if a_tag a1 = ASN1_TAG_VARYSIZE then asn1_read_tag a1 (skip buf 1)
                             else Some (ASN1_ERR_NONE, a1, skip buf 1));
        if err \<noteq> ASN1_ERR_NONE then Some (err, a2, buf2)
        else do {
          (err3, a3, buf3) \<leftarrow> asn1_read_length a2 buf2;
          if err3 \<noteq> ASN1_ERR_NONE then Some (err3, a3, buf3)
          else if ab_seq buf3 + a_length a3 > ab_len buf3 then Some (ASN1_ERR_FORMAT, a3, buf3)
          else Some (ASN1_ERR_NONE, a3, buf3) } })"

definition asn1_parse_bool :: "abuf \<Rightarrow> (asn1_err \<times> abuf) option" where
  "asn1_parse_bool buf =
     (if ab_len buf \<le> ab_seq buf + 3 then Some (ASN1_ERR_FORMAT, buf)
      else do {
        i \<leftarrow> cur buf; len \<leftarrow> cur (skip buf 1); v \<leftarrow> cur (skip buf 2);
        if i = 1 \<and> len = 1 \<and> (v = 0 \<or> v = 0xff) then Some (ASN1_ERR_NONE, skip buf 3)
        else Some (ASN1_ERR_FORMAT, buf) })"

definition asn1_parse_integer :: "asn1 \<Rightarrow> abuf \<Rightarrow> u32 \<Rightarrow> (asn1_err \<times> asn1 \<times> abuf \<times> u32) option" where
  "asn1_parse_integer a buf val = do {
     (err, a1, buf1) \<leftarrow> asn1_read_header a buf;
     if err \<noteq> ASN1_ERR_NONE then Some (err, a1, buf1, val)
     else if a_constructed a1 \<or> a_tag a1 \<noteq> ASN1_TAG_INTEGER then Some (ASN1_ERR_FORMAT, a1, buf1, val)
     else map_option (\<lambda>(e, b, v). (e, a1, b, v)) (asn1_read_integer a1 buf1 val) }"

definition asn1_parse_enum :: "asn1 \<Rightarrow> abuf \<Rightarrow> u32 \<Rightarrow> (asn1_err \<times> asn1 \<times> abuf \<times> u32) option" where
  "asn1_parse_enum a buf val = do {
     (err, a1, buf1) \<leftarrow> asn1_read_header a buf;
     if err \<noteq> ASN1_ERR_NONE then Some (err, a1, buf1, val)
     else if a_constructed a1 \<or> a_tag a1 \<noteq> ASN1_TAG_ENUMERATED then Some (ASN1_ERR_FORMAT, a1, buf1, val)
     else map_option (\<lambda>(e, b, v). (e, a1, b, v)) (asn1_read_integer a1 buf1 val) }"

definition asn1_parse_string :: "asn1 \<Rightarrow> abuf \<Rightarrow> byte \<Rightarrow> (asn1_err \<times> asn1 \<times> abuf) option" where
  "asn1_parse_string a buf tag = do {
     (err, a1, buf1) \<leftarrow> asn1_read_header a buf;
     if err \<noteq> ASN1_ERR_NONE then Some (err, a1, buf1)
     else if a_constructed a1 \<or> a_tag a1 \<noteq> tag \<and> a_tag a1 \<noteq> ASN1_TAG_NULL then Some (ASN1_ERR_FORMAT, a1, buf1)
     else Some (case asn1_read_string a1 buf1 of (e, b) \<Rightarrow> (e, a1, b)) }"

definition asn1_parse_octstr :: "asn1 \<Rightarrow> abuf \<Rightarrow> (asn1_err \<times> asn1 \<times> abuf) option" where
  "asn1_parse_octstr a buf = asn1_parse_string a buf ASN1_TAG_OCTSTR"

definition asn1_parse_bitstr :: "asn1 \<Rightarrow> abuf \<Rightarrow> (asn1_err \<times> asn1 \<times> abuf) option" where
  "asn1_parse_bitstr a buf = asn1_parse_string a buf ASN1_TAG_BITSTR"

definition asn1_parse_charstr :: "asn1 \<Rightarrow> abuf \<Rightarrow> (asn1_err \<times> asn1 \<times> abuf) option" where
  "asn1_parse_charstr a buf = asn1_parse_string a buf ASN1_TAG_CHARSTR"

definition asn1_parse_printstr :: "asn1 \<Rightarrow> abuf \<Rightarrow> (asn1_err \<times> asn1 \<times> abuf) option" where
  "asn1_parse_printstr a buf = asn1_parse_string a buf ASN1_TAG_PRINTSTR"

definition asn1_parse_ia5str :: "asn1 \<Rightarrow> abuf \<Rightarrow> (asn1_err \<times> asn1 \<times> abuf) option" where
  "asn1_parse_ia5str a buf = asn1_parse_string a buf ASN1_TAG_IA5STR"

definition asn1_parse_sequence :: "asn1 \<Rightarrow> abuf \<Rightarrow> (asn1_err \<times> asn1 \<times> abuf) option" where
  "asn1_parse_sequence a buf = do {
     (err, a1, buf1) \<leftarrow> asn1_read_header a buf;
     if err \<noteq> ASN1_ERR_NONE then Some (err, a1, buf1)
     else if \<not> a_constructed a1 \<or> a_tag a1 \<noteq> ASN1_TAG_SEQUENCE then Some (ASN1_ERR_FORMAT, a1, buf1)
     else Some (ASN1_ERR_NONE, a1, buf1) }"

definition asn1_parse_setseq :: "asn1 \<Rightarrow> abuf \<Rightarrow> (asn1_err \<times> asn1 \<times> abuf) option" where
  "asn1_parse_setseq a buf = do {
     (err, a1, buf1) \<leftarrow> asn1_read_header a buf;
     if err \<noteq> ASN1_ERR_NONE then Some (err, a1, buf1)
     else if \<not> a_constructed a1 \<or> a_tag a1 \<noteq> ASN1_TAG_SET then Some (ASN1_ERR_FORMAT, a1, buf1)
     else Some (ASN1_ERR_NONE, a1, buf1) }"

definition asn1_parse_oid :: "asn1 \<Rightarrow> abuf \<Rightarrow> u32 list \<Rightarrow> (asn1_err \<times> asn1 \<times> abuf \<times> u32 list) option" where
  "asn1_parse_oid a buf oid = do {
     (err, a1, buf1) \<leftarrow> asn1_read_header a buf;
     if err \<noteq> ASN1_ERR_NONE then Some (err, a1, buf1, oid)
     else if a_constructed a1 \<or> a_tag a1 \<noteq> ASN1_TAG_OBJID then Some (ASN1_ERR_FORMAT, a1, buf1, oid)
     else map_option (\<lambda>(e, b, v). (e, a1, b, v)) (asn1_read_oid a1 buf1) }"

definition asn1_parse_object :: "asn1 \<Rightarrow> abuf \<Rightarrow> (asn1_err \<times> asn1 \<times> abuf) option" where
  "asn1_parse_object a buf = do {
     (err, a1, buf1) \<leftarrow> asn1_read_header a buf;
     if err \<noteq> ASN1_ERR_NONE then Some (err, a1, buf1)
     else Some (ASN1_ERR_NONE, a1, skip buf1 (a_length a1)) }"

end
