(* ===== verification/DP_Asn1Props.thy ===== *)
theory DP_Asn1Props
  imports DP_Asn1
begin

text \<open>
  What the BER reader promises: it stays inside of its buffer, moves forward, and reads back what the
  distinguished encoding of a header or of an object identifier wrote.
\<close>

subsection \<open>The bytes in front of the reader\<close>

text \<open>The length is the one of the memory, or less, and an \<open>int\<close>.\<close>
definition buf_ok :: "abuf \<Rightarrow> bool" where
  "buf_ok buf \<longleftrightarrow> unat (ab_len buf) \<le> length (ab_mem buf) \<and> unat (ab_len buf) < 2147483648"

definition view :: "abuf \<Rightarrow> bytes" where
  "view buf = drop (unat (ab_seq buf)) (take (unat (ab_len buf)) (ab_mem buf))"

lemma view_nil: "buf_ok buf \<Longrightarrow> view buf = [] \<longleftrightarrow> ab_len buf \<le> ab_seq buf"
  by (auto simp: view_def buf_ok_def word_le_nat_alt)

lemma buf_ok_skip [simp]: "buf_ok (skip buf n) = buf_ok buf"
  by (simp add: buf_ok_def)

lemma unat_of_nat32: "n < 4294967296 \<Longrightarrow> unat (of_nat n :: u32) = n"
  by (simp add: unat_of_nat)

lemma view_skip:
  assumes "buf_ok buf" and "view buf = xs @ ys"
  shows "view (skip buf (of_nat (length xs))) = ys"
    and "xs \<noteq> [] \<Longrightarrow> unat (ab_seq buf + of_nat (length xs)) = unat (ab_seq buf) + length xs"
    and "xs \<noteq> [] \<Longrightarrow> unat (ab_seq buf) + length xs + length ys = unat (ab_len buf)"
proof -
  have l: "length (view buf) = unat (ab_len buf) - unat (ab_seq buf)"
    using assms(1) by (simp add: view_def buf_ok_def)
  have n: "xs \<noteq> [] \<Longrightarrow> unat (ab_seq buf) + length xs + length ys = unat (ab_len buf)"
    using assms(2) l by (cases xs) auto
  then show "xs \<noteq> [] \<Longrightarrow> unat (ab_seq buf) + length xs + length ys = unat (ab_len buf)" .
  have u: "xs \<noteq> [] \<Longrightarrow> unat (ab_seq buf + of_nat (length xs)) = unat (ab_seq buf) + length xs"
    using n unat32_lt[of "ab_len buf"] by (simp add: unat_word_ariths unat_of_nat)
  then show "xs \<noteq> [] \<Longrightarrow> unat (ab_seq buf + of_nat (length xs)) = unat (ab_seq buf) + length xs" .
  show "view (skip buf (of_nat (length xs))) = ys"
  proof (cases "xs = []")
    case False
    then have "view (skip buf (of_nat (length xs))) = drop (length xs) (view buf)"
      by (simp add: view_def u add.commute)
    then show ?thesis by (simp add: assms(2))
  qed (use assms in simp)
qed

lemma view_Cons:
  assumes "buf_ok buf" and "view buf = c # ys"
  shows "cur buf = Some c" and "view (skip buf 1) = ys" and "ab_seq buf < ab_len buf"
    and "unat (ab_seq buf + 1) = Suc (unat (ab_seq buf))"
proof -
  show "view (skip buf 1) = ys" using view_skip(1)[of buf "[c]" ys] assms by simp
  have "view buf ! 0 = c" "0 < length (view buf)" using assms(2) by auto
  then show "cur buf = Some c" using assms(1) by (auto simp: view_def buf_ok_def rd8_def)
  show "unat (ab_seq buf + 1) = Suc (unat (ab_seq buf))" using view_skip(2)[of buf "[c]" ys] assms by simp
  show "ab_seq buf < ab_len buf" using view_nil[OF assms(1)] assms(2) by (simp add: not_le)
qed

lemma view_cases:
  assumes "buf_ok buf"
  obtains "ab_len buf \<le> ab_seq buf" "view buf = []"
  | c ys where "ab_seq buf < ab_len buf" "view buf = c # ys"
  using view_nil[OF assms] by (cases "view buf") (auto simp: not_le)

subsection \<open>Safety\<close>

text \<open>The operation leaves the memory and the length alone and moves forward inside of them.\<close>
definition forward :: "abuf \<Rightarrow> abuf \<Rightarrow> bool" where
  "forward buf buf1 \<longleftrightarrow> ab_mem buf1 = ab_mem buf \<and> ab_len buf1 = ab_len buf \<and>
     ab_seq buf \<le> ab_seq buf1 \<and> (ab_seq buf1 \<le> ab_len buf \<or> ab_seq buf1 = ab_seq buf)"

lemma forward_refl [simp]: "forward buf buf"
  by (simp add: forward_def)

lemma forward_trans: "forward a b \<Longrightarrow> forward b c \<Longrightarrow> forward a c"
  by (auto simp: forward_def)

lemma forward_ok: "forward a b \<Longrightarrow> buf_ok b = buf_ok a"
  by (simp add: forward_def buf_ok_def)

lemma forward_skip1:
  assumes "ab_seq buf < ab_len buf"
  shows "forward buf (skip buf 1)"
  using unat_inc[OF assms] assms by (simp add: forward_def word_le_nat_alt word_less_nat_alt)

lemma forward_skip:
  assumes "unat (ab_seq buf) + unat n \<le> unat (ab_len buf)"
  shows "forward buf (skip buf n)"
proof -
  have "unat (ab_seq buf + n) = unat (ab_seq buf) + unat n"
    using assms unat32_lt[of "ab_len buf"] by (simp add: unat_word_ariths)
  then show ?thesis using assms by (simp add: forward_def word_le_nat_alt)
qed

lemma cur_ok: "buf_ok buf \<Longrightarrow> ab_seq buf < ab_len buf \<Longrightarrow> \<exists>ch. cur buf = Some ch"
  by (simp add: buf_ok_def rd8_def word_less_nat_alt)

lemma gather_safe:
  "buf_ok buf \<Longrightarrow> unat (ab_seq buf) + n \<le> unat (ab_len buf) \<Longrightarrow>
   \<exists>w buf1. gather n buf v = Some (w, buf1) \<and> forward buf buf1 \<and> unat (ab_seq buf1) = unat (ab_seq buf) + n"
proof (induction n arbitrary: buf v)
  case (Suc n)
  then have lt: "ab_seq buf < ab_len buf" by (simp add: word_less_nat_alt)
  then obtain ch where ch: "cur buf = Some ch" using cur_ok Suc.prems(1) by blast
  from Suc.prems have "unat (ab_seq (skip buf 1)) + n \<le> unat (ab_len (skip buf 1))"
    by (simp add: unat_inc[OF lt])
  then show ?case
    using Suc.IH[of "skip buf 1" "push_bit 8 v OR ucast ch"] Suc.prems(1) forward_skip1[OF lt]
    by (auto simp: ch unat_inc[OF lt] intro: forward_trans)
qed auto

lemma node_safe:
  "buf_ok buf \<Longrightarrow> \<exists>e buf1 v. asn1_node buf node = Some (e, buf1, v) \<and> forward buf buf1 \<and>
     (e = ASN1_ERR_NONE \<longrightarrow> ab_seq buf < ab_seq buf1)"
proof (induction buf node rule: asn1_node.induct)
  case (1 buf node)
  consider (err) "ab_len buf \<le> ab_seq buf \<or> node > drop_bit 7 ASN1_MAX_NODE_ID"
    | (ok) "ab_seq buf < ab_len buf" "\<not> ab_len buf \<le> ab_seq buf" "\<not> node > drop_bit 7 ASN1_MAX_NODE_ID"
    by fastforce
  then show ?case
  proof cases
    case err
    then show ?thesis by (subst asn1_node.simps) auto
  next
    case ok
    obtain ch where ch: "cur buf = Some ch" using cur_ok[OF 1(2) ok(1)] by blast
    have lt: "ab_seq buf < ab_seq buf + 1" using unat_inc[OF ok(1)] by (simp add: word_less_nat_alt)
    show ?thesis
    proof (cases "ch \<ge> 0x80")
      case True
      obtain e buf1 v where "asn1_node (skip buf 1) (push_bit 7 node OR ucast (ch AND 0x7f)) = Some (e, buf1, v)"
        "forward (skip buf 1) buf1"
        using 1(1)[OF ok(2,3) ch refl True] 1(2) by auto
      then show ?thesis
        using ok lt forward_skip1[OF ok(1)]
        by (subst asn1_node.simps) (auto simp: ch True forward_def)
    next
      case False
      then show ?thesis using ok lt forward_skip1[OF ok(1)] by (subst asn1_node.simps) (auto simp: ch)
    qed
  qed
qed

lemma oid_loop_safe:
  "buf_ok buf \<Longrightarrow> \<exists>e buf1 o1. asn1_oid_loop buf fin oid = Some (e, buf1, o1) \<and> forward buf buf1 \<and>
     (length oid \<le> ASN1_MAX_OID_LEN \<longrightarrow> length o1 \<le> ASN1_MAX_OID_LEN)"
proof (induction buf fin oid rule: asn1_oid_loop.induct)
  case (1 buf fin oid)
  show ?case
  proof (cases "fin \<le> ab_seq buf \<or> length oid \<ge> ASN1_MAX_OID_LEN")
    case True
    then show ?thesis by (subst asn1_oid_loop.simps) auto
  next
    case False
    then have c: "\<not> fin \<le> ab_seq buf" "\<not> length oid \<ge> ASN1_MAX_OID_LEN" by auto
    obtain e buf1 v where n: "asn1_node buf 0 = Some (e, buf1, v)" "forward buf buf1"
      using node_safe[OF 1(2), of 0] by blast
    show ?thesis
    proof (cases "e = ASN1_ERR_NONE")
      case True
      let ?o = "if oid = [] then if v < 80 then [v div 40, v mod 40] else [2, v - 80] else oid @ [v]"
      have l: "length ?o \<le> ASN1_MAX_OID_LEN" using c(2) by (auto simp: ASN1_MAX_OID_LEN_def)
      obtain e2 buf2 o2 where "asn1_oid_loop buf1 fin ?o = Some (e2, buf2, o2)" "forward buf1 buf2"
        "length o2 \<le> ASN1_MAX_OID_LEN"
        using 1(1)[OF c n(1) refl refl] True forward_ok[OF n(2)] 1(2) l by auto
      then show ?thesis
        using c n(2) by (subst asn1_oid_loop.simps) (auto simp: n(1) True intro: forward_trans)
    next
      case False
      then show ?thesis using c n(2) by (subst asn1_oid_loop.simps) (auto simp: n(1))
    qed
  qed
qed

lemma tag_loop_safe:
  "buf_ok buf \<Longrightarrow> \<exists>e buf1 v. asn1_tag_loop buf tag = Some (e, buf1, v) \<and> forward buf buf1"
proof (induction buf tag rule: asn1_tag_loop.induct)
  case (1 buf tag)
  show ?case
  proof (cases "ab_len buf \<le> ab_seq buf")
    case True
    then show ?thesis by (subst asn1_tag_loop.simps) auto
  next
    case False
    then have lt: "ab_seq buf < ab_len buf" by simp
    obtain ch where ch: "cur buf = Some ch" using cur_ok[OF 1(2) lt] by blast
    note f = forward_skip1[OF lt]
    show ?thesis
    proof (cases "ch \<ge> 0x80")
      case True
      obtain e buf1 v where "asn1_tag_loop (skip buf 1) (push_bit 7 tag OR ucast (ch AND 0x7f)) = Some (e, buf1, v)"
        "forward (skip buf 1) buf1"
        using 1(1)[OF False ch refl True] 1(2) by auto
      then show ?thesis using False by (subst asn1_tag_loop.simps) (auto simp: ch True intro: forward_trans[OF f])
    next
      case no: False
      then show ?thesis using False f by (subst asn1_tag_loop.simps) (auto simp: ch)
    qed
  qed
qed

lemma read_tag_safe:
  "buf_ok buf \<Longrightarrow> \<exists>e a1 buf1. asn1_read_tag a buf = Some (e, a1, buf1) \<and> forward buf buf1"
  using tag_loop_safe[of buf 0] by (auto simp: asn1_read_tag_def)

lemma not_neg: "\<not> v <s 0 \<Longrightarrow> unat v < 2147483648" for v :: u32
proof -
  assume "\<not> v <s 0"
  then have "\<not> sint v < 0" by (simp add: word_sless_alt)
  then have "\<not> bit v 31" using bit_last_iff[of v] by simp
  then have "take_bit 31 v = v"
    by (intro bit_word_eqI) (auto simp: bit_simps less_Suc_eq numeral_eq_Suc)
  then have "unat v = unat (take_bit 31 v)" by simp
  also have "\<dots> < 2 ^ 31" unfolding unsigned_take_bit_eq by (rule take_bit_nat_less_exp)
  finally show ?thesis by simp
qed

lemma read_length_safe:
  assumes ok: "buf_ok buf"
  shows "\<exists>e a1 buf1. asn1_read_length a buf = Some (e, a1, buf1) \<and> forward buf buf1 \<and>
    (e = ASN1_ERR_NONE \<longrightarrow> ab_seq buf < ab_seq buf1 \<and> unat (a_length a1) < 2147483648)"
proof (cases "ab_len buf \<le> ab_seq buf")
  case False
  then have lt: "ab_seq buf < ab_len buf" by simp
  obtain ch where ch: "cur buf = Some ch" using cur_ok[OF ok lt] by blast
  note f = forward_skip1[OF lt]
  have lt1: "ab_seq buf < ab_seq buf + 1" using unat_inc[OF lt] by (simp add: word_less_nat_alt)
  consider (bad) "ch = 0x80 \<or> ch = 0xff" | (short) "ch < 0x80" "\<not> (ch = 0x80 \<or> ch = 0xff)"
    | (long) "\<not> ch < 0x80" "\<not> (ch = 0x80 \<or> ch = 0xff)" by blast
  then show ?thesis
  proof cases
    case short
    then have "unat (ucast ch :: u32) < 2147483648"
      using unat8_lt[of ch] by (simp add: unsigned_ucast_eq take_bit_nat_eq_self)
    then show ?thesis using short f lt1 False ch by (auto simp: asn1_read_length_def)
  next
    case long
    let ?n = "ucast (ch AND 0x7f) :: u32"
    show ?thesis
    proof (cases "ab_len buf \<le> ab_seq (skip buf 1) + ?n \<or> ?n > 4")
      case True
      then show ?thesis using long f False ch by (auto simp: asn1_read_length_def Let_def)
    next
      case c: False
      then have n: "unat ?n \<le> 4" by (simp add: word_le_nat_alt not_less)
      have "unat (ab_seq buf + 1 + ?n) = Suc (unat (ab_seq buf)) + unat ?n"
        using n unat_inc[OF lt] ok lt
        by (subst unat_word_ariths) (simp add: buf_ok_def word_less_nat_alt)
      then have "unat (ab_seq (skip buf 1)) + unat ?n \<le> unat (ab_len (skip buf 1))"
        using c unat_inc[OF lt] by (auto simp: not_le word_less_nat_alt)
      then obtain w buf2 where g: "gather (unat ?n) (skip buf 1) 0 = Some (w, buf2)" "forward (skip buf 1) buf2"
        using gather_safe[of "skip buf 1" "unat ?n" 0] ok by auto
      then have "forward buf buf2" "ab_seq buf < ab_seq buf2"
        using forward_trans[OF f] lt1 by (auto simp: forward_def)
      then show ?thesis
        using long False ch c g(1) not_neg[of w]
        by (auto simp: asn1_read_length_def Let_def)
    qed
  qed (use False ch in \<open>auto simp: asn1_read_length_def\<close>)
qed (auto simp: asn1_read_length_def)

lemma read_header_safe:
  assumes ok: "buf_ok buf"
  shows "\<exists>e a1 buf1. asn1_read_header a buf = Some (e, a1, buf1) \<and> forward buf buf1 \<and>
    (e = ASN1_ERR_NONE \<longrightarrow> ab_seq buf < ab_seq buf1 \<and>
       unat (ab_seq buf1) + unat (a_length a1) \<le> unat (ab_len buf))"
proof (cases "ab_len buf < 2 \<or> ab_len buf \<le> ab_seq buf")
  case False
  then have lt: "ab_seq buf < ab_len buf" by (simp add: not_le)
  obtain ch where ch: "cur buf = Some ch" using cur_ok[OF ok lt] by blast
  note f = forward_skip1[OF lt]
  define a1 where "a1 = a\<lparr>a_class := ASN1_GET_CLASS ch, a_constructed := ASN1_IS_CONSTRUCTED ch, a_tag := ASN1_GET_TAG ch\<rparr>"
  define tg where "tg = (if a_tag a1 = ASN1_TAG_VARYSIZE then asn1_read_tag a1 (skip buf 1)
                         else Some (ASN1_ERR_NONE, a1, skip buf 1))"
  obtain e a2 buf2 where t: "tg = Some (e, a2, buf2)" "forward (skip buf 1) buf2"
    using read_tag_safe[of "skip buf 1" a1] ok by (cases "a_tag a1 = ASN1_TAG_VARYSIZE") (auto simp: tg_def)
  have f2: "forward buf buf2" using forward_trans[OF f t(2)] .
  have hd: "asn1_read_header a buf = (if e \<noteq> ASN1_ERR_NONE then Some (e, a2, buf2)
        else do {
          (err3, a3, buf3) \<leftarrow> asn1_read_length a2 buf2;
          if err3 \<noteq> ASN1_ERR_NONE then Some (err3, a3, buf3)
          else if ab_seq buf3 + a_length a3 > ab_len buf3 then Some (ASN1_ERR_FORMAT, a3, buf3)
          else Some (ASN1_ERR_NONE, a3, buf3) })"
  proof (cases "a_tag a1 = ASN1_TAG_VARYSIZE")
    case True
    then have "asn1_read_tag a1 (skip buf 1) = Some (e, a2, buf2)" using t(1) by (simp add: tg_def)
    then show ?thesis using False ch True by (simp add: asn1_read_header_def a1_def Let_def)
  next
    case no: False
    then show ?thesis using False ch t(1) by (auto simp: asn1_read_header_def tg_def a1_def Let_def)
  qed
  obtain e3 a3 buf3 where l: "asn1_read_length a2 buf2 = Some (e3, a3, buf3)" "forward buf2 buf3"
      "e3 = ASN1_ERR_NONE \<longrightarrow> ab_seq buf2 < ab_seq buf3 \<and> unat (a_length a3) < 2147483648"
    using read_length_safe[of buf2 a2] forward_ok[OF f2] ok by auto
  have f3: "forward buf buf3" using forward_trans[OF f2 l(2)] .
  have fit: "unat (ab_seq buf3) + unat (a_length a3) \<le> unat (ab_len buf) \<and> ab_seq buf < ab_seq buf3"
    if "e3 = ASN1_ERR_NONE" "\<not> ab_seq buf3 + a_length a3 > ab_len buf3"
  proof -
    have lts: "ab_seq buf < ab_seq buf3" using l(3) that(1) f2 by (auto simp: forward_def)
    then have "unat (ab_seq buf3) \<le> unat (ab_len buf)" using f3 by (auto simp: forward_def word_le_nat_alt)
    then have "unat (ab_seq buf3 + a_length a3) = unat (ab_seq buf3) + unat (a_length a3)"
      using l(3) that(1) ok by (subst unat_word_ariths) (simp add: buf_ok_def)
    then show ?thesis using that(2) f3 lts by (simp add: forward_def word_less_nat_alt)
  qed
  show ?thesis using hd l(1) f2 f3 fit by auto
qed (auto simp: asn1_read_header_def)

text \<open>What every reader of an object promises, and a client that reads objects one after the other.\<close>
fun scan :: "(asn1 \<Rightarrow> abuf \<Rightarrow> (asn1_err \<times> asn1 \<times> abuf) option) \<Rightarrow> nat \<Rightarrow> asn1 \<Rightarrow> abuf \<Rightarrow> (asn1_err \<times> abuf) option" where
  "scan rd 0 a buf = Some (ASN1_ERR_NONE, buf)"
| "scan rd (Suc n) a buf = do {
     (e, a1, buf1) \<leftarrow> rd a buf;
     if e = ASN1_ERR_NONE then scan rd n a1 buf1 else Some (e, buf1) }"

locale asn1_op =
  fixes rd :: "asn1 \<Rightarrow> abuf \<Rightarrow> (asn1_err \<times> asn1 \<times> abuf) option"
  assumes safe: "buf_ok buf \<Longrightarrow> \<exists>e a1 buf1. rd a buf = Some (e, a1, buf1) \<and> forward buf buf1 \<and>
      (e = ASN1_ERR_NONE \<longrightarrow> ab_seq buf < ab_seq buf1)"
begin

lemma scan_safe: "buf_ok buf \<Longrightarrow> \<exists>e buf1. scan rd n a buf = Some (e, buf1) \<and> forward buf buf1"
proof (induction n arbitrary: a buf)
  case (Suc n)
  obtain e a1 buf1 where r: "rd a buf = Some (e, a1, buf1)" "forward buf buf1" using safe[OF Suc.prems] by blast
  then show ?case
    using Suc.IH[of buf1 a1] forward_ok[OF r(2)] Suc.prems by (auto intro: forward_trans)
qed simp

lemma scan_stops:
  "buf_ok buf \<Longrightarrow> unat (ab_len buf) - unat (ab_seq buf) < n \<Longrightarrow> \<exists>e buf1. scan rd n a buf = Some (e, buf1) \<and> e \<noteq> ASN1_ERR_NONE"
proof (induction n arbitrary: a buf)
  case (Suc n)
  obtain e a1 buf1 where r: "rd a buf = Some (e, a1, buf1)" "forward buf buf1" "e = ASN1_ERR_NONE \<longrightarrow> ab_seq buf < ab_seq buf1"
    using safe[OF Suc.prems(1)] by blast
  show ?case
  proof (cases "e = ASN1_ERR_NONE")
    case True
    then have "unat (ab_len buf1) - unat (ab_seq buf1) < n"
      using r(2,3) Suc.prems(2) by (auto simp: forward_def word_less_nat_alt word_le_nat_alt)
    then show ?thesis using Suc.IH[of buf1 a1] forward_ok[OF r(2)] Suc.prems(1) by (auto simp: r(1) True)
  qed (simp add: r(1))
qed simp

end

interpretation asn1_hdr: asn1_op asn1_read_header
  using read_header_safe by unfold_locales blast

interpretation asn1_seq: asn1_op asn1_parse_sequence
proof
  fix buf a assume "buf_ok buf"
  then obtain e a1 buf1 where "asn1_read_header a buf = Some (e, a1, buf1)" "forward buf buf1"
    "e = ASN1_ERR_NONE \<longrightarrow> ab_seq buf < ab_seq buf1"
    using read_header_safe by blast
  then show "\<exists>e a1 buf1. asn1_parse_sequence a buf = Some (e, a1, buf1) \<and> forward buf buf1 \<and>
      (e = ASN1_ERR_NONE \<longrightarrow> ab_seq buf < ab_seq buf1)"
    by (auto simp: asn1_parse_sequence_def)
qed

interpretation asn1_set: asn1_op asn1_parse_setseq
proof
  fix buf a assume "buf_ok buf"
  then obtain e a1 buf1 where "asn1_read_header a buf = Some (e, a1, buf1)" "forward buf buf1"
    "e = ASN1_ERR_NONE \<longrightarrow> ab_seq buf < ab_seq buf1"
    using read_header_safe by blast
  then show "\<exists>e a1 buf1. asn1_parse_setseq a buf = Some (e, a1, buf1) \<and> forward buf buf1 \<and>
      (e = ASN1_ERR_NONE \<longrightarrow> ab_seq buf < ab_seq buf1)"
    by (auto simp: asn1_parse_setseq_def)
qed

lemma forward_content:
  assumes "forward buf buf1" "ab_seq buf < ab_seq buf1" "unat (ab_seq buf1) + unat n \<le> unat (ab_len buf)"
  shows "forward buf (skip buf1 n) \<and> ab_seq buf < ab_seq (skip buf1 n)"
proof -
  have f: "forward buf1 (skip buf1 n)" using forward_skip[of buf1 n] assms(1,3) by (simp add: forward_def)
  then have "ab_seq buf1 \<le> ab_seq (skip buf1 n)" unfolding forward_def by blast
  then show ?thesis using forward_trans[OF assms(1) f] less_le_trans[OF assms(2)] by blast
qed

interpretation asn1_str: asn1_op "\<lambda>a buf. asn1_parse_string a buf tag" for tag
proof
  fix buf a assume "buf_ok buf"
  then obtain e a1 buf1 where "asn1_read_header a buf = Some (e, a1, buf1)" "forward buf buf1"
    "e = ASN1_ERR_NONE \<longrightarrow> ab_seq buf < ab_seq buf1 \<and> unat (ab_seq buf1) + unat (a_length a1) \<le> unat (ab_len buf)"
    using read_header_safe by blast
  then show "\<exists>e a1 buf1. asn1_parse_string a buf tag = Some (e, a1, buf1) \<and> forward buf buf1 \<and>
      (e = ASN1_ERR_NONE \<longrightarrow> ab_seq buf < ab_seq buf1)"
    using forward_content[of buf buf1 "a_length a1"] by (auto simp: asn1_parse_string_def asn1_read_string_def)
qed

interpretation asn1_obj: asn1_op asn1_parse_object
proof
  fix buf a assume "buf_ok buf"
  then obtain e a1 buf1 where "asn1_read_header a buf = Some (e, a1, buf1)" "forward buf buf1"
    "e = ASN1_ERR_NONE \<longrightarrow> ab_seq buf < ab_seq buf1 \<and> unat (ab_seq buf1) + unat (a_length a1) \<le> unat (ab_len buf)"
    using read_header_safe by blast
  then show "\<exists>e a1 buf1. asn1_parse_object a buf = Some (e, a1, buf1) \<and> forward buf buf1 \<and>
      (e = ASN1_ERR_NONE \<longrightarrow> ab_seq buf < ab_seq buf1)"
    using forward_content[of buf buf1 "a_length a1"] by (auto simp: asn1_parse_object_def)
qed

lemma sint_le_uint: "sint v \<le> uint v" for v :: u32
  using take_bit_int_less_eq_self_iff[of 32 "uint v"] by (simp add: sint_uint signed_take_bit_eq_take_bit_minus of_bool_def)

lemma read_integer_safe:
  assumes "buf_ok buf" and "unat (ab_seq buf) + unat (a_length a) \<le> unat (ab_len buf)"
  shows "\<exists>e buf1 v. asn1_read_integer a buf val = Some (e, buf1, v) \<and> forward buf buf1"
proof (cases "4 <s a_length a")
  case True
  then show ?thesis using forward_skip[OF assms(2)] by (simp add: asn1_read_integer_def)
next
  case False
  have "nat (sint (a_length a)) \<le> unat (a_length a)" 
    unfolding unat_eq_nat_uint by (rule nat_mono) (rule sint_le_uint)
  then show ?thesis
    using gather_safe[OF assms(1), of "nat (sint (a_length a))" 0] assms(2) False by (auto simp: asn1_read_integer_def)
qed

lemma read_oid_safe:
  "buf_ok buf \<Longrightarrow> \<exists>e buf1 oid. asn1_read_oid a buf = Some (e, buf1, oid) \<and> forward buf buf1 \<and> length oid \<le> ASN1_MAX_OID_LEN"
  using oid_loop_safe[of buf "ab_seq buf + a_length a" "[]"] by (auto simp: asn1_read_oid_def)

subsection \<open>Round trips\<close>

text \<open>The distinguished encoding of lengths, headers and object identifiers.\<close>
fun be_bytes :: "nat \<Rightarrow> bytes" where
  "be_bytes n = (if n = 0 then [] else be_bytes (n div 256) @ [of_nat (n mod 256)])"

definition der_length :: "nat \<Rightarrow> bytes" where
  "der_length n = (if n < 128 then [of_nat n] else of_nat (128 + length (be_bytes n)) # be_bytes n)"

definition der_header :: "byte \<Rightarrow> bool \<Rightarrow> byte \<Rightarrow> nat \<Rightarrow> bytes" where
  "der_header cls con tag n = (push_bit 6 cls OR (if con then 0x20 else 0) OR tag) # der_length n"

fun b128 :: "nat \<Rightarrow> bytes" where
  "b128 n = (if n = 0 then [] else b128 (n div 128) @ [of_nat (128 + n mod 128)])"

definition der_node :: "nat \<Rightarrow> bytes" where
  "der_node n = b128 (n div 128) @ [of_nat (n mod 128)]"

fun der_oid :: "u32 list \<Rightarrow> bytes" where
  "der_oid (x # y # rest) = der_node (40 * unat x + unat y) @ concat (map (\<lambda>n. der_node (unat n)) rest)"
| "der_oid _ = []"

declare be_bytes.simps [simp del] b128.simps [simp del]

lemma or_add: "r < 2 ^ k \<Longrightarrow> push_bit k (of_nat q) OR of_nat r = (of_nat (q * 2 ^ k + r) :: u32)"
proof -
  assume r: "r < 2 ^ k"
  have "push_bit k (of_nat q :: u32) OR of_nat r = push_bit k (of_nat q) + of_nat r"
  proof (rule disjunctive_add [symmetric])
    fix i
    have "\<not> bit r i" if "k \<le> i"
      using r that by (metis bit_take_bit_iff not_le take_bit_nat_eq_self)
    then show "\<not> bit (push_bit k (of_nat q :: u32)) i \<or> \<not> bit (of_nat r :: u32) i"
      by (auto simp: bit_simps)
  qed
  then show ?thesis by (simp add: push_bit_eq_mult)
qed

lemma gather_add:
  "gather (m + n) buf v = (case gather m buf v of None \<Rightarrow> None | Some (w, buf1) \<Rightarrow> gather n buf1 w)"
  by (induction m arbitrary: buf v) (auto split: option.splits bind_splits)

lemma gather_be:
  assumes "buf_ok buf"
  shows "view buf = be_bytes n @ rest \<Longrightarrow> n < 4294967296 \<Longrightarrow>
    gather (length (be_bytes n)) buf 0 = Some (of_nat n, skip buf (of_nat (length (be_bytes n))))"
proof (induction n arbitrary: rest rule: be_bytes.induct)
  case (1 n)
  show ?case
  proof (cases "n = 0")
    case False
    let ?q = "n div 256" and ?r = "of_nat (n mod 256) :: byte"
    have b: "be_bytes n = be_bytes ?q @ [?r]" using False by (simp add: be_bytes.simps)
    let ?b = "skip buf (of_nat (length (be_bytes ?q)))"
    have ih: "gather (length (be_bytes ?q)) buf 0 = Some (of_nat ?q, ?b)"
      using 1(1)[OF False, of "?r # rest"] 1(2,3) b by simp
    have "view ?b = ?r # rest" using view_skip(1)[OF assms, of "be_bytes ?q" "?r # rest"] 1(2) b by simp
    then have c: "cur ?b = Some ?r" using view_Cons(1)[of ?b] assms by simp
    have "ucast ?r = (of_nat (n mod 256) :: u32)"
      by (rule word_unat_eq_iff[THEN iffD2]) (simp add: unsigned_ucast_eq unat_of_nat take_bit_eq_mod)
    then have "push_bit 8 (of_nat ?q) OR ucast ?r = (of_nat n :: u32)"
      using or_add[of "n mod 256" 8 ?q] by simp
    then show ?thesis
      unfolding b length_append gather_add ih using c by (simp add: add.assoc)
  qed (simp add: be_bytes.simps)
qed

lemma length_be: "n < 256 ^ k \<Longrightarrow> length (be_bytes n) \<le> k"
proof (induction k arbitrary: n)
  case (Suc k)
  then show ?case
    by (subst be_bytes.simps) (auto simp: less_mult_imp_div_less mult.commute)
qed (simp add: be_bytes.simps)

lemma not_sless: "n < 2147483648 \<Longrightarrow> \<not> (of_nat n :: u32) <s 0"
proof -
  assume n: "n < 2147483648"
  have "\<not> bit (of_nat n :: u32) 31"
  proof
    assume "bit (of_nat n :: u32) 31"
    then have "bit n 31" by (simp add: bit_of_nat_iff)
    moreover have "take_bit 31 n = n" using n by (simp add: take_bit_nat_eq_self)
    ultimately show False by (metis bit_take_bit_iff less_irrefl)
  qed
  then show ?thesis using bit_last_iff[of "of_nat n :: u32"] by (simp add: word_sless_alt)
qed

lemma read_length_der:
  assumes ok: "buf_ok buf" and v: "view buf = der_length n @ rest" and n: "n \<le> length rest"
  shows "asn1_read_length a buf
    = Some (ASN1_ERR_NONE, a\<lparr>a_length := of_nat n\<rparr>, skip buf (of_nat (length (der_length n))))"
proof (cases "n < 128")
  case True
  then have d: "der_length n = [of_nat n]" by (simp add: der_length_def)
  have u: "unat (of_nat n :: byte) = n" using True by (simp add: unat_of_nat)
  have "ucast (of_nat n :: byte) = (of_nat n :: u32)"
    using True by (intro word_unat_eq_iff[THEN iffD2]) (simp add: unsigned_ucast_eq unat_of_nat take_bit_nat_eq_self)
  moreover have "(of_nat n :: byte) < 0x80" "(of_nat n :: byte) \<noteq> 0xff"
    using True u by (auto simp: word_less_nat_alt)
  ultimately show ?thesis
    using view_Cons[OF ok, of "of_nat n" rest] v d by (auto simp: asn1_read_length_def)
next
  case False
  define k where "k = length (be_bytes n)"
  have d: "der_length n = of_nat (128 + k) # be_bytes n" using False by (simp add: der_length_def k_def)
  note c = view_Cons[OF ok, of "of_nat (128 + k)" "be_bytes n @ rest", simplified v d, simplified]
  have len: "unat (ab_seq buf) + 1 + k + length rest = unat (ab_len buf)"
    using view_skip(3)[OF ok, of "der_length n" rest] v by (simp add: d k_def)
  then have n31: "n < 2147483648" using n ok by (simp add: buf_ok_def)
  then have "k \<le> 4" using length_be[of n 4] by (simp add: k_def)
  moreover have "k \<noteq> 0" using False by (auto simp: k_def be_bytes.simps)
  ultimately consider "k = 1" | "k = 2" | "k = 3" | "k = 4" by linarith
  then have ch: "(of_nat (128 + k) :: byte) \<noteq> 0x80" "(of_nat (128 + k) :: byte) \<noteq> 0xff"
     "\<not> (of_nat (128 + k) :: byte) < 0x80" "ucast ((of_nat (128 + k) :: byte) AND 0x7f) = (of_nat k :: u32)"
     "\<not> (of_nat k :: u32) > 4" "unat (of_nat k :: u32) = k"
    by (cases; simp)+
  have "unat (ab_seq buf + 1 + of_nat k) = unat (ab_seq buf) + 1 + k"
    using len c(4) unat32_lt[of "ab_len buf"] by (subst unat_word_ariths) (simp add: ch(6))
  then have "\<not> ab_len buf \<le> ab_seq buf + 1 + of_nat k"
    using len n False by (simp add: word_le_nat_alt)
  moreover have "gather k (skip buf 1) 0 = Some (of_nat n, skip (skip buf 1) (of_nat k))"
    using gather_be[of "skip buf 1" n rest] ok c(2) n31 by (simp add: k_def)
  ultimately show ?thesis
    using c(1,3) ch not_sless[OF n31]
    by (simp add: asn1_read_length_def Let_def d k_def[symmetric] add.assoc)
qed

lemma small_bits: "unat x < 2 ^ k \<Longrightarrow> k \<le> i \<Longrightarrow> \<not> bit (x :: byte) i"
proof -
  assume "unat x < 2 ^ k" "k \<le> i"
  then have "take_bit k (unat x) = unat x" by (simp add: take_bit_nat_eq_self)
  then have "\<not> bit (unat x) i" using \<open>k \<le> i\<close> by (metis bit_take_bit_iff not_le)
  then show ?thesis by (simp add: bit_unsigned_iff)
qed

lemma id_byte:
  assumes "cls < 4" and "tag < 31" and c_def: "c = push_bit 6 cls OR (if con then 0x20 else 0) OR tag"
  shows "ASN1_GET_CLASS c = cls" and "ASN1_GET_TAG c = tag" and "ASN1_IS_CONSTRUCTED c = con"
proof -
  have 1: "bit cls i \<Longrightarrow> i < 2" for i using small_bits[of cls 2 i] assms(1) by (fastforce simp: word_less_nat_alt)
  have 2: "bit tag i \<Longrightarrow> i < 5" for i using small_bits[of tag 5 i] assms(2) by (fastforce simp: word_less_nat_alt)
  have m: "(0xc0 :: byte) = push_bit 6 (mask 2)" "(0x1f :: byte) = mask 5" "(0x20 :: byte) = push_bit 5 1"
    by (simp_all add: mask_eq_exp_minus_1)
  have "bit (push_bit 5 1 :: byte) i \<longleftrightarrow> i = 5" for i by (simp only: bit_push_bit_iff bit_1_iff) auto
  then have 3: "bit (if con then 0x20 else 0 :: byte) i \<longleftrightarrow> con \<and> i = 5" for i unfolding m by (cases con) simp_all
  show "ASN1_GET_CLASS c = cls" unfolding ASN1_GET_CLASS_def c_def m(1)
    by (rule bit_word_eqI) (use 1 2 3 in \<open>fastforce simp: bit_simps\<close>)
  show "ASN1_GET_TAG c = tag" unfolding ASN1_GET_TAG_def c_def m(2)
    by (rule bit_word_eqI) (use 2 3 in \<open>auto simp: bit_simps\<close>)
  have "bit c 5 = con" unfolding c_def using 2[of 5] by (auto simp: bit_or_iff bit_push_bit_iff 3)
  then show "ASN1_IS_CONSTRUCTED c = con"
    unfolding ASN1_IS_CONSTRUCTED_def m by (simp only: bit_iff_and_push_bit_not_eq_0)
qed

lemma read_header_der:
  assumes ok: "buf_ok buf" and v: "view buf = der_header cls con tag n @ rest" and n: "n \<le> length rest"
    and "cls < 4" "tag < 31"
  shows "asn1_read_header a buf = Some (ASN1_ERR_NONE,
      \<lparr>a_length = of_nat n, a_class = cls, a_tag = tag, a_constructed = con\<rparr>,
      skip buf (of_nat (length (der_header cls con tag n))))"
proof -
  define c where "c = push_bit 6 cls OR (if con then 0x20 else 0) OR tag"
  have h: "der_header cls con tag n = c # der_length n" by (simp add: der_header_def c_def)
  note i = id_byte[OF assms(4,5) c_def]
  note w = view_Cons[OF ok, of c "der_length n @ rest", simplified v h, simplified]
  define buf2 where "buf2 = skip buf (of_nat (length (c # der_length n)))"
  have l: "asn1_read_length a1 (skip buf 1) = Some (ASN1_ERR_NONE, a1\<lparr>a_length := of_nat n\<rparr>, buf2)" for a1
    using read_length_der[of "skip buf 1" n rest a1] ok w(2) n by (simp add: buf2_def add.assoc)
  have len: "unat (ab_seq buf) + length (c # der_length n) + length rest = unat (ab_len buf)"
    using view_skip(3)[OF ok, of "c # der_length n" rest] v h by simp
  have "unat (ab_seq buf2) = unat (ab_seq buf) + length (c # der_length n)"
    using view_skip(2)[OF ok, of "c # der_length n" rest] v h by (simp add: buf2_def)
  then have "unat (ab_seq buf2 + of_nat n) \<le> unat (ab_len buf)"
    using len n unat32_lt[of "ab_len buf"] by (subst unat_word_ariths) (simp add: unat_of_nat)
  then have fit: "\<not> ab_len buf2 < ab_seq buf2 + of_nat n" by (simp add: word_less_nat_alt buf2_def)
  have "2 \<le> unat (ab_len buf)" using len by (simp add: der_length_def split: if_splits)
  then have "\<not> ab_len buf < 2" by (simp add: word_less_nat_alt)
  moreover have "tag \<noteq> ASN1_TAG_VARYSIZE" using assms(5) by (auto simp: ASN1_TAG_VARYSIZE_def)
  ultimately show ?thesis
    using w(1,3) fit by (simp add: asn1_read_header_def i l h Let_def not_le) (simp add: buf2_def)
qed

lemma node_step:
  assumes "cur buf = Some ch" "ab_seq buf < ab_len buf" "\<not> node > drop_bit 7 ASN1_MAX_NODE_ID"
    "push_bit 7 node OR ucast (ch AND 0x7f) = node1"
  shows "ch \<ge> 0x80 \<Longrightarrow> asn1_node buf node = asn1_node (skip buf 1) node1"
    and "\<not> ch \<ge> 0x80 \<Longrightarrow> asn1_node buf node = Some (ASN1_ERR_NONE, skip buf 1, node1)"
  using assms by (auto simp: asn1_node.simps[of buf node] not_le)

lemma node_b128:
  assumes ok: "buf_ok buf"
  shows "view buf = b128 n @ rest \<Longrightarrow> n < 4294967296 \<Longrightarrow>
    asn1_node buf 0 = asn1_node (skip buf (of_nat (length (b128 n)))) (of_nat n)"
proof (induction n arbitrary: rest rule: b128.induct)
  case (1 n)
  show ?case
  proof (cases "n = 0")
    case False
    let ?q = "n div 128" and ?r = "of_nat (128 + n mod 128) :: byte"
    have b: "b128 n = b128 ?q @ [?r]" using False by (simp add: b128.simps)
    let ?b = "skip buf (of_nat (length (b128 ?q)))"
    have ih: "asn1_node buf 0 = asn1_node ?b (of_nat ?q)"
      using 1(1)[OF False, of "?r # rest"] 1(2,3) b by simp
    have "view ?b = ?r # rest" using view_skip(1)[OF ok, of "b128 ?q" "?r # rest"] 1(2) b by simp
    note c = view_Cons[of ?b ?r rest, simplified, OF ok this[simplified]]
    have ru: "unat ?r = 128 + n mod 128" by (subst unat_of_nat) (simp add: trans_less_add1)
    have "unat (?r AND 0x7f) = n mod 128"
    proof -
      have "?r AND 0x7f = take_bit 7 ?r" by (simp add: take_bit_eq_mask mask_eq_exp_minus_1)
      then have "unat (?r AND 0x7f) = take_bit 7 (unat ?r)" by (simp only: unsigned_take_bit_eq)
      then show ?thesis unfolding ru by (simp add: take_bit_eq_mod)
    qed
    then have "ucast (?r AND 0x7f) = (of_nat (n mod 128) :: u32)"
      by (intro word_unat_eq_iff[THEN iffD2]) (simp add: unsigned_ucast_eq unat_of_nat take_bit_eq_mod)
    then have p: "push_bit 7 (of_nat ?q) OR ucast (?r AND 0x7f) = (of_nat n :: u32)"
      using or_add[of "n mod 128" 7 ?q] by simp
    have hi: "?r \<ge> 0x80" using ru by (simp add: word_le_nat_alt)
    have "?q < 33554432" using 1(3) by (simp add: less_mult_imp_div_less)
    then have q: "\<not> (of_nat ?q :: u32) > drop_bit 7 ASN1_MAX_NODE_ID"
      by (simp add: ASN1_MAX_NODE_ID_def word_less_nat_alt unat_of_nat)
    have "asn1_node ?b (of_nat ?q) = asn1_node (skip ?b 1) (of_nat n)"
      by (rule node_step(1)[OF _ _ q p hi]) (use c(1,3) in simp_all)
    then show ?thesis unfolding ih b by (simp add: ac_simps)
  qed (simp add: b128.simps)
qed

lemma node_der:
  assumes ok: "buf_ok buf" and v: "view buf = der_node n @ rest" and n: "n < 4294967296"
  shows "asn1_node buf 0 = Some (ASN1_ERR_NONE, skip buf (of_nat (length (der_node n))), of_nat n)"
proof -
  let ?q = "n div 128" and ?r = "of_nat (n mod 128) :: byte"
  let ?b = "skip buf (of_nat (length (b128 ?q)))"
  have 1: "asn1_node buf 0 = asn1_node ?b (of_nat ?q)"
    using node_b128[OF ok, of ?q "?r # rest"] v n by (simp add: der_node_def)
  have "view ?b = ?r # rest" using view_skip(1)[OF ok, of "b128 ?q" "?r # rest"] v by (simp add: der_node_def)
  note c = view_Cons[of ?b ?r rest, simplified, OF ok this[simplified]]
  have ru: "unat ?r = n mod 128" by (subst unat_of_nat) (simp add: less_trans[of _ 128])
  have "?r AND 0x7f = take_bit 7 ?r" by (simp add: take_bit_eq_mask mask_eq_exp_minus_1)
  then have "unat (?r AND 0x7f) = take_bit 7 (unat ?r)" by (simp only: unsigned_take_bit_eq)
  then have "ucast (?r AND 0x7f) = (of_nat (n mod 128) :: u32)" unfolding ru
    by (intro word_unat_eq_iff[THEN iffD2]) (simp add: unsigned_ucast_eq unat_of_nat take_bit_eq_mod)
  then have p: "push_bit 7 (of_nat ?q) OR ucast (?r AND 0x7f) = (of_nat n :: u32)"
    using or_add[of "n mod 128" 7 ?q] by simp
  have lo: "\<not> ?r \<ge> 0x80" using ru by (simp add: word_le_nat_alt not_le)
  have "?q < 33554432" using n by (simp add: less_mult_imp_div_less)
  then have q: "\<not> (of_nat ?q :: u32) > drop_bit 7 ASN1_MAX_NODE_ID"
    by (simp add: ASN1_MAX_NODE_ID_def word_less_nat_alt unat_of_nat)
  have "asn1_node ?b (of_nat ?q) = Some (ASN1_ERR_NONE, skip ?b 1, of_nat n)"
    by (rule node_step(2)[OF _ _ q p lo]) (use c(1,3) in simp_all)
  then show ?thesis unfolding 1 by (simp add: der_node_def ac_simps)
qed

lemma oid_loop_nodes:
  "buf_ok buf \<Longrightarrow> view buf = concat (map (\<lambda>n. der_node (unat n)) ns) @ rest \<Longrightarrow> oid \<noteq> [] \<Longrightarrow>
   length oid + length ns \<le> ASN1_MAX_OID_LEN \<Longrightarrow>
   fin = ab_seq buf + of_nat (length (concat (map (\<lambda>n. der_node (unat n)) ns))) \<Longrightarrow>
   asn1_oid_loop buf fin oid = Some (ASN1_ERR_NONE, buf\<lparr>ab_seq := fin\<rparr>, oid @ ns)"
proof (induction ns arbitrary: buf oid)
  case Nil
  then show ?case by (subst asn1_oid_loop.simps) simp
next
  case (Cons n ns)
  let ?d = "der_node (unat n)" and ?rest = "concat (map (\<lambda>n. der_node (unat n)) ns)"
  have v: "view buf = ?d @ ?rest @ rest" using Cons.prems(2) by simp
  have node: "asn1_node buf 0 = Some (ASN1_ERR_NONE, skip buf (of_nat (length ?d)), n)"
    using node_der[OF Cons.prems(1) v] unat32_lt[of n] by simp
  have d: "?d \<noteq> []" by (simp add: der_node_def)
  have le: "unat (ab_seq buf) + length (?d @ ?rest) + length rest = unat (ab_len buf)"
    using view_skip(3)[OF Cons.prems(1), of "?d @ ?rest" rest] v d by simp
  have "unat fin = unat (ab_seq buf) + length (?d @ ?rest)"
    using view_skip(2)[OF Cons.prems(1), of "?d @ ?rest" rest] v d Cons.prems(5) by simp
  then have lt: "\<not> fin \<le> ab_seq buf" using d by (simp add: word_le_nat_alt)
  have "asn1_oid_loop (skip buf (of_nat (length ?d))) fin (oid @ [n])
      = Some (ASN1_ERR_NONE, (skip buf (of_nat (length ?d)))\<lparr>ab_seq := fin\<rparr>, (oid @ [n]) @ ns)"
    by (rule Cons.IH) (use Cons.prems view_skip(1)[OF Cons.prems(1) v] in \<open>simp_all add: add.assoc\<close>)
  then show ?case
    using lt Cons.prems(3,4) by (subst asn1_oid_loop.simps) (simp add: node)
qed

definition oid_ok :: "u32 list \<Rightarrow> bool" where
  "oid_ok oid \<longleftrightarrow> length oid \<le> ASN1_MAX_OID_LEN \<and> (case oid of
       x # y # _ \<Rightarrow> (x < 2 \<and> y < 40) \<or> (x = 2 \<and> unat y + 80 < 4294967296)
     | _ \<Rightarrow> False)"

lemma first_node:
  fixes x y :: u32
  assumes "(x < 2 \<and> y < 40) \<or> (x = 2 \<and> unat y + 80 < 4294967296)"
  defines "n \<equiv> 40 * unat x + unat y"
  shows "n < 4294967296"
    and "(if (of_nat n :: u32) < 80 then [of_nat n div 40, of_nat n mod 40] else [2, of_nat n - 80]) = [x, y]"
proof -
  consider (low) "unat x < 2" "unat y < 40" | (hi) "x = 2" "unat y + 80 < 4294967296"
    using assms(1) by (auto simp: word_less_nat_alt)
  then have "n < 4294967296 \<and> (if (of_nat n :: u32) < 80 then [of_nat n div 40, of_nat n mod 40] else [2, of_nat n - 80]) = [x, y]"
  proof cases
    case low
    then have n: "n < 80" by (simp add: n_def)
    then have u: "unat (of_nat n :: u32) = n" by (simp add: unat_of_nat)
    have "n div 40 = unat x" "n mod 40 = unat y" using low(2) by (simp_all add: n_def)
    then have "(of_nat n :: u32) div 40 = x" "(of_nat n :: u32) mod 40 = y"
      by (simp_all add: word_unat_eq_iff unat_div unat_mod u)
    then show ?thesis using n u by (simp add: word_less_nat_alt)
  next
    case hi
    then have n: "n = 80 + unat y" by (simp add: n_def)
    have y: "(of_nat n :: u32) = 80 + y" by (simp add: n)
    have "unat (80 + y) = n" using hi(2) by (subst unat_word_ariths) (simp add: n)
    then show ?thesis using hi n by (simp add: word_less_nat_alt y)
  qed
  then show "n < 4294967296"
    and "(if (of_nat n :: u32) < 80 then [of_nat n div 40, of_nat n mod 40] else [2, of_nat n - 80]) = [x, y]" by auto
qed

lemma read_oid_der:
  assumes ok: "buf_ok buf" and oid: "oid_ok oid" and v: "view buf = der_oid oid @ rest"
    and a: "a_length a = of_nat (length (der_oid oid))"
  shows "asn1_read_oid a buf = Some (ASN1_ERR_NONE, skip buf (of_nat (length (der_oid oid))), oid)"
proof -
  obtain x y ns where o: "oid = x # y # ns" "length ns + 2 \<le> ASN1_MAX_OID_LEN"
      "(x < 2 \<and> y < 40) \<or> (x = 2 \<and> unat y + 80 < 4294967296)"
    using oid by (auto simp: oid_ok_def split: list.splits)
  define n where "n = 40 * unat x + unat y"
  let ?tl = "concat (map (\<lambda>n. der_node (unat n)) ns)"
  note fn = first_node[OF o(3), folded n_def]
  have d: "der_node n \<noteq> []" by (simp add: der_node_def)
  have e: "der_oid oid = der_node n @ ?tl" by (simp add: o(1) n_def)
  have v': "view buf = der_node n @ ?tl @ rest" using v e by simp
  let ?fin = "ab_seq buf + a_length a"
  have node: "asn1_node buf 0 = Some (ASN1_ERR_NONE, skip buf (of_nat (length (der_node n))), of_nat n)"
    using node_der[OF ok v' fn(1)] .
  have un: "unat ?fin = unat (ab_seq buf) + length (der_oid oid)"
    using view_skip(2)[OF ok v] d by (simp add: e a)
  have le: "unat (ab_seq buf) + length (der_oid oid) + length rest = unat (ab_len buf)"
    using view_skip(3)[OF ok v] d by (simp add: e)
  have lt: "\<not> ?fin \<le> ab_seq buf" using un d by (simp add: word_le_nat_alt e)
  have nz: "a_length a \<noteq> 0" using lt by auto
  have "asn1_oid_loop (skip buf (of_nat (length (der_node n)))) ?fin [x, y]
      = Some (ASN1_ERR_NONE, (skip buf (of_nat (length (der_node n))))\<lparr>ab_seq := ?fin\<rparr>, [x, y] @ ns)"
    by (rule oid_loop_nodes[where rest = rest])
      (use ok o(2) view_skip(1)[OF ok v'] in \<open>simp_all add: a e add.assoc\<close>)
  moreover have "asn1_oid_loop buf ?fin [] = asn1_oid_loop (skip buf (of_nat (length (der_node n)))) ?fin [x, y]"
    using lt fn(2) by (subst asn1_oid_loop.simps) (simp add: node ASN1_MAX_OID_LEN_def)
  ultimately show ?thesis using nz by (simp add: asn1_read_oid_def o(1) a)
qed

lemma asn1_op_each:
  "rd \<in> {asn1_read_header, asn1_parse_octstr, asn1_parse_bitstr, asn1_parse_charstr, asn1_parse_printstr,
      asn1_parse_ia5str, asn1_parse_sequence, asn1_parse_setseq, asn1_parse_object} \<Longrightarrow> asn1_op rd"
  using asn1_hdr.asn1_op_axioms asn1_seq.asn1_op_axioms asn1_set.asn1_op_axioms asn1_obj.asn1_op_axioms
    asn1_str.asn1_op_axioms[of ASN1_TAG_OCTSTR] asn1_str.asn1_op_axioms[of ASN1_TAG_BITSTR]
    asn1_str.asn1_op_axioms[of ASN1_TAG_CHARSTR] asn1_str.asn1_op_axioms[of ASN1_TAG_PRINTSTR]
    asn1_str.asn1_op_axioms[of ASN1_TAG_IA5STR]
  by (elim insertE emptyE) (simp_all only: asn1_parse_octstr_def [abs_def] asn1_parse_bitstr_def [abs_def]
      asn1_parse_charstr_def [abs_def] asn1_parse_printstr_def [abs_def] asn1_parse_ia5str_def [abs_def])

lemma parse_value_safe:
  assumes "buf_ok buf"
  shows "ri \<in> {asn1_parse_integer, asn1_parse_enum} \<Longrightarrow> \<exists>e a1 buf1 v. ri a buf val = Some (e, a1, buf1, v) \<and> forward buf buf1"
    and "\<exists>e a1 buf1 oid1. asn1_parse_oid a buf oid = Some (e, a1, buf1, oid1) \<and> forward buf buf1 \<and>
      (e = ASN1_ERR_NONE \<longrightarrow> length oid1 \<le> ASN1_MAX_OID_LEN)"
proof -
  obtain e a1 buf1 where h: "asn1_read_header a buf = Some (e, a1, buf1)" "forward buf buf1"
    "e = ASN1_ERR_NONE \<longrightarrow> ab_seq buf < ab_seq buf1 \<and> unat (ab_seq buf1) + unat (a_length a1) \<le> unat (ab_len buf)"
    using read_header_safe[OF assms] by blast
  have ok1: "buf_ok buf1" using forward_ok[OF h(2)] assms by simp
  have l: "ab_len buf1 = ab_len buf" using h(2) by (simp add: forward_def)
  have "\<exists>e2 buf2 v. asn1_read_integer a1 buf1 val = Some (e2, buf2, v) \<and> forward buf buf2" if "e = ASN1_ERR_NONE"
    using read_integer_safe[OF ok1, of a1 val] h(3) that l forward_trans[OF h(2)] by auto
  then show "ri \<in> {asn1_parse_integer, asn1_parse_enum} \<Longrightarrow> \<exists>e a1 buf1 v. ri a buf val = Some (e, a1, buf1, v) \<and> forward buf buf1"
    using h(1,2) by (auto simp: asn1_parse_integer_def asn1_parse_enum_def)
  show "\<exists>e a1 buf1 oid1. asn1_parse_oid a buf oid = Some (e, a1, buf1, oid1) \<and> forward buf buf1 \<and>
      (e = ASN1_ERR_NONE \<longrightarrow> length oid1 \<le> ASN1_MAX_OID_LEN)"
    using h(1,2) read_oid_safe[OF ok1, of a1] forward_trans[OF h(2)] by (auto simp: asn1_parse_oid_def)
qed

lemma parse_bool_safe:
  assumes "buf_ok buf" "ab_seq buf \<le> ab_len buf"
  shows "\<exists>e buf1. asn1_parse_bool buf = Some (e, buf1) \<and> forward buf buf1"
proof (cases "ab_len buf \<le> ab_seq buf + 3")
  case False
  have u: "unat (ab_seq buf + n) = unat (ab_seq buf) + unat n" if "unat n \<le> 3" for n
    using assms that by (subst unat_word_ariths) (simp add: buf_ok_def word_le_nat_alt)
  have lt: "unat (ab_seq buf) + 3 < unat (ab_len buf)" using False u[of 3] by (simp add: not_le word_less_nat_alt)
  then have "forward buf (skip buf 3)" using forward_skip[of buf 3] by simp
  then show ?thesis
    using False lt assms(1) by (simp add: asn1_parse_bool_def rd8_def buf_ok_def u)
qed (simp add: asn1_parse_bool_def)


definition asn1_any :: asn1 where
  "asn1_any = \<lparr>a_length = 0, a_class = 0, a_tag = 0, a_constructed = False\<rparr>"

definition abuf_of :: "bytes \<Rightarrow> abuf" where
  "abuf_of m = \<lparr>ab_mem = m, ab_len = of_nat (length m), ab_seq = 0\<rparr>"

lemma abuf_of_ok: "length m < 2147483648 \<Longrightarrow> buf_ok (abuf_of m) \<and> ab_seq (abuf_of m) \<le> ab_len (abuf_of m) \<and> view (abuf_of m) = m"
  by (simp add: buf_ok_def abuf_of_def view_def unat_of_nat)


text \<open>C26. The reader of object identifiers is the inverse of their distinguished encoding: an identifier of at most
  128 nodes, each of 32 bits, with a legal first pair, is read back, and the reader stops behind the object.\<close>
theorem asn1_oid_roundtrip:
  assumes "buf_ok buf" and "oid_ok oid"
    and "view buf = der_header 0 False ASN1_TAG_OBJID (length (der_oid oid)) @ der_oid oid @ rest"
  shows "asn1_parse_oid a buf old = Some (ASN1_ERR_NONE,
    \<lparr>a_length = of_nat (length (der_oid oid)), a_class = 0, a_tag = ASN1_TAG_OBJID, a_constructed = False\<rparr>,
    skip buf (of_nat (length (der_header 0 False ASN1_TAG_OBJID (length (der_oid oid))) + length (der_oid oid))), oid)"
proof -
  let ?h = "der_header 0 False ASN1_TAG_OBJID (length (der_oid oid))"
  let ?a = "\<lparr>a_length = of_nat (length (der_oid oid)), a_class = 0, a_tag = ASN1_TAG_OBJID, a_constructed = False\<rparr>"
  have "asn1_read_header a buf = Some (ASN1_ERR_NONE, ?a, skip buf (of_nat (length ?h)))"
    by (rule read_header_der[OF assms(1,3)]) (simp_all add: ASN1_TAG_OBJID_def)
  moreover have "asn1_read_oid ?a (skip buf (of_nat (length ?h)))
      = Some (ASN1_ERR_NONE, skip (skip buf (of_nat (length ?h))) (of_nat (length (der_oid oid))), oid)"
    by (rule read_oid_der[where rest = rest]) (use assms view_skip(1)[OF assms(1,3)] in simp_all)
  ultimately show ?thesis by (simp add: asn1_parse_oid_def add.assoc)
qed

lemma asn1_oid_roundtrip_witness:
  "map_option (\<lambda>(e, _, _, oid). (e, oid)) (asn1_parse_oid asn1_any (abuf_of [0x06, 0x03, 0x55, 0x04, 0x03, 0x13]) [])
     = Some (ASN1_ERR_NONE, [2, 5, 4, 3])"
proof -
  have d: "der_oid [2, 5, 4, 3] = [0x55, 0x04, 0x03]" by (simp add: der_node_def b128.simps)
  have "der_header 0 False ASN1_TAG_OBJID (Suc (Suc (Suc 0))) = [0x06, 0x03]"
    by (simp add: der_header_def der_length_def ASN1_TAG_OBJID_def)
  then show ?thesis
    using asn1_oid_roundtrip[of "abuf_of [0x06, 0x03, 0x55, 0x04, 0x03, 0x13]" "[2, 5, 4, 3]" "[0x13]" asn1_any "[]"]
      abuf_of_ok[of "[0x06, 0x03, 0x55, 0x04, 0x03, 0x13]"]
    by (simp add: d oid_ok_def ASN1_MAX_OID_LEN_def del: der_oid.simps)
qed

text \<open>A boolean that ends its buffer is refused: the test in front of it asks for one byte more than it reads.\<close>
lemma asn1_bool_at_fin: "asn1_parse_bool (abuf_of [1, 1, 0]) = Some (ASN1_ERR_FORMAT, abuf_of [1, 1, 0])"
  by (simp add: asn1_parse_bool_def abuf_of_def)

end
