(* ===== verification/DP_Bitmap.thy ===== *)
theory DP_Bitmap
  imports DP_Prelude
begin

text \<open>
  The bit set of \<open>utils/bitmap.c\<close>: an array of 32-bit words with the number of valid bits. The
  abstraction \<open>bm_test\<close> reads one bit; the operations are proved against it, and the search
  for a free bit is proved to return the first free position in circular order from the hint.
\<close>

record bitmap =
  bm_bits :: int
  bm_words :: int
  bm_array :: "32 word list"

text \<open>\<open>b->array[i]\<close>: reading outside the allocated words is not defined.\<close>
definition bm_word :: "bitmap \<Rightarrow> int \<Rightarrow> 32 word option" where
  "bm_word b i = (if 0 \<le> i \<and> nat i < length (bm_array b) then Some (bm_array b ! nat i) else None)"

definition bm_store :: "bitmap \<Rightarrow> int \<Rightarrow> 32 word \<Rightarrow> bitmap" where
  "bm_store b i w = b\<lparr>bm_array := (bm_array b)[nat i := w]\<rparr>"

definition bitmap_set :: "bitmap \<Rightarrow> int \<Rightarrow> bitmap option" where
  "bitmap_set b n = (let word = drop_bit 5 n; position = n AND 31 in
     map_option (\<lambda>w. bm_store b word (w OR push_bit (nat position) 1)) (bm_word b word))"

definition bitmap_clear :: "bitmap \<Rightarrow> int \<Rightarrow> bitmap option" where
  "bitmap_clear b n = (let word = drop_bit 5 n; position = n AND 31 in
     map_option (\<lambda>w. bm_store b word (w AND NOT (push_bit (nat position) 1))) (bm_word b word))"

definition bitmap_is_set :: "bitmap \<Rightarrow> int \<Rightarrow> 32 word option" where
  "bitmap_is_set b n = (let word = drop_bit 5 n; position = n AND 31 in
     map_option (\<lambda>w. drop_bit (nat position) w AND 1) (bm_word b word))"

text \<open>The \<open>while (w > 0)\<close> loop of \<open>get_one_pos_from_word\<close>.\<close>
function one_pos_loop :: "32 word \<Rightarrow> int \<Rightarrow> int" where
  "one_pos_loop w start =
     (if w > 0
      then if w AND 1 \<noteq> 0 then start else one_pos_loop (drop_bit 1 w) (start + 1)
      else -1)"
  by pat_completeness auto
termination
proof (relation "measure (\<lambda>(w, _). unat w)")
  fix w :: "32 word" and start :: int
  assume "w > 0"
  then have "0 < unat w" by (simp add: unat_gt_0 word_neq_0_conv)
  moreover have "unat (drop_bit 1 w) = unat w div 2"
    by (simp only: unat_drop_bit_eq) (simp add: drop_bit_eq_div)
  ultimately show "((drop_bit 1 w, start + 1), w, start) \<in> measure (\<lambda>(w, _). unat w)"
    by simp
qed simp

definition get_one_pos_from_word :: "32 word \<Rightarrow> int \<Rightarrow> int" where
  "get_one_pos_from_word w start = one_pos_loop (drop_bit (nat start) w) start"

text \<open>The two word-by-word loops of \<open>bitmap_get_next_zero\<close> (\<open>while (i < b->words)\<close> and
  \<open>while (i <= word)\<close>), with \<open>stop\<close> one past the last word visited. \<open>Some (Inr r)\<close> is the
  \<open>return ret\<close> inside the loop, \<open>Some (Inl ())\<close> that the loop ends.\<close>
function bm_scan :: "bitmap \<Rightarrow> int \<Rightarrow> int \<Rightarrow> (unit + int) option" where
  "bm_scan b i stop =
     (if i < stop then do {
        w \<leftarrow> bm_word b i;
        let tmp = NOT w;
        let ret = get_one_pos_from_word tmp 0 + push_bit 5 i;
        if tmp \<noteq> 0 \<and> ret < bm_bits b then Some (Inr ret) else bm_scan b (i + 1) stop
      } else Some (Inl ()))"
  by pat_completeness auto
termination
  by (relation "measure (\<lambda>(b, i, stop). nat (stop - i))") auto

definition bitmap_get_next_zero :: "bitmap \<Rightarrow> int \<Rightarrow> int option" where
  "bitmap_get_next_zero b n0 = do {
     let n = (if n0 < 0 \<or> n0 \<ge> bm_bits b then 0 else n0);
     let word = drop_bit 5 n;
     let position = n AND 31;
     w \<leftarrow> bm_word b word;
     let idx = get_one_pos_from_word (NOT w) position;
     if idx \<ge> 0 \<and> idx + push_bit 5 word < bm_bits b then Some (idx + push_bit 5 word)
     else do {
       r1 \<leftarrow> bm_scan b (word + 1) (bm_words b);
       (case r1 of Inr ret \<Rightarrow> Some ret
        | Inl _ \<Rightarrow> do {
            r2 \<leftarrow> bm_scan b 0 (word + 1);
            (case r2 of Inr ret \<Rightarrow> Some ret | Inl _ \<Rightarrow> Some (-1)) })
     } }"

text \<open>The two \<open>calloc\<close> calls of \<open>bitmap_allocate\<close> may fail: one boolean each.\<close>
definition bitmap_allocate :: "bool \<Rightarrow> bool \<Rightarrow> int \<Rightarrow> bitmap option" where
  "bitmap_allocate ok1 ok2 n =
     (if \<not> ok1 then None
      else let words = (n + 32 - 1) div 32 in
        if \<not> ok2 then None
        else Some \<lparr>bm_bits = n, bm_words = words, bm_array = replicate (nat words) 0\<rparr>)"

declare one_pos_loop.simps [simp del] bm_scan.simps [simp del]

subsection \<open>Abstraction and invariant\<close>

definition bm_test :: "bitmap \<Rightarrow> nat \<Rightarrow> bool" where
  "bm_test b i = bit (bm_array b ! (i div 32)) (i mod 32)"

definition bm_inv :: "bitmap \<Rightarrow> bool" where
  "bm_inv b \<longleftrightarrow> 0 < bm_bits b \<and> bm_words b = (bm_bits b + 31) div 32
     \<and> int (length (bm_array b)) = bm_words b"

lemma word_pos_int: "drop_bit 5 (int i) = int (i div 32)" "int i AND 31 = int (i mod 32)"
proof -
  show "drop_bit 5 (int i) = int (i div 32)"
    by (simp add: drop_bit_eq_div zdiv_int)
  have "int i AND 31 = take_bit 5 (int i)" by (simp add: take_bit_eq_mask mask_numeral)
  then show "int i AND 31 = int (i mod 32)" by (simp add: take_bit_eq_mod zmod_int)
qed

lemma bm_inv_index: "bm_inv b \<Longrightarrow> int i < bm_bits b \<Longrightarrow> i div 32 < length (bm_array b)"
  unfolding bm_inv_def by linarith

lemma bm_word_in: "k < length (bm_array b) \<Longrightarrow> bm_word b (int k) = Some (bm_array b ! k)"
  by (simp add: bm_word_def)


lemma bit_one_push: "bit (2 ^ k :: 32 word) j \<longleftrightarrow> j = k \<and> k < 32"
  by (auto simp: bit_exp_iff)

lemma bm_test_store:
  assumes "k < length (bm_array b)"
  shows "bm_test (bm_store b (int k) w) i = (if i div 32 = k then bit w (i mod 32) else bm_test b i)"
  using assms by (auto simp: bm_test_def bm_store_def)

lemma bm_inv_store: "bm_inv b \<Longrightarrow> bm_inv (bm_store b k w)"
  by (simp add: bm_inv_def bm_store_def)

lemma div_mod_eq_iff: "(i::nat) div 32 = n div 32 \<and> i mod 32 = n mod 32 \<longleftrightarrow> i = n"
  by (metis div_mult_mod_eq)

lemma bitmap_set_spec:
  assumes "bm_inv b" "int n < bm_bits b"
  shows "\<exists>b'. bitmap_set b (int n) = Some b' \<and> bm_inv b' \<and> bm_bits b' = bm_bits b
           \<and> (\<forall>i. bm_test b' i = (i = n \<or> bm_test b i))"
proof -
  let ?k = "n div 32"
  let ?b' = "bm_store b (int ?k) (bm_array b ! ?k OR 2 ^ (n mod 32))"
  have k: "?k < length (bm_array b)" using assms by (rule bm_inv_index)
  have "bitmap_set b (int n) = Some ?b'"
    by (simp add: bitmap_set_def word_pos_int bm_word_in[OF k] nat_int)
  moreover have "bm_test ?b' i = (i = n \<or> bm_test b i)" for i
    unfolding bm_test_store[OF k] unfolding bm_test_def
    using div_mod_eq_iff[of i n] by (auto simp: bit_or_iff bit_one_push)
  moreover have "bm_bits ?b' = bm_bits b" by (simp add: bm_store_def)
  ultimately show ?thesis using bm_inv_store[OF assms(1)] by blast
qed

lemma bitmap_clear_spec:
  assumes "bm_inv b" "int n < bm_bits b"
  shows "\<exists>b'. bitmap_clear b (int n) = Some b' \<and> bm_inv b' \<and> bm_bits b' = bm_bits b
           \<and> (\<forall>i. bm_test b' i = (i \<noteq> n \<and> bm_test b i))"
proof -
  let ?k = "n div 32"
  let ?b' = "bm_store b (int ?k) (bm_array b ! ?k AND NOT (2 ^ (n mod 32)))"
  have k: "?k < length (bm_array b)" using assms by (rule bm_inv_index)
  have "bitmap_clear b (int n) = Some ?b'"
    by (simp add: bitmap_clear_def word_pos_int bm_word_in[OF k] nat_int)
  moreover have "bm_test ?b' i = (i \<noteq> n \<and> bm_test b i)" for i
    unfolding bm_test_store[OF k] unfolding bm_test_def
    using div_mod_eq_iff[of i n] by (auto simp: bit_and_iff bit_not_iff bit_one_push)
  moreover have "bm_bits ?b' = bm_bits b" by (simp add: bm_store_def)
  ultimately show ?thesis using bm_inv_store[OF assms(1)] by blast
qed

lemma bitmap_is_set_spec:
  assumes "bm_inv b" "int n < bm_bits b"
  shows "bitmap_is_set b (int n) = Some (of_bool (bm_test b n))"
  using bm_inv_index[OF assms]
  by (simp add: bitmap_is_set_def word_pos_int bm_word_in bm_test_def Let_def and_one_eq
      mod_2_eq_odd bit_iff_odd_drop_bit)

lemma bitmap_allocate_spec:
  assumes "0 < n"
  shows "\<exists>b. bitmap_allocate True True n = Some b \<and> bm_inv b \<and> bm_bits b = n
           \<and> (\<forall>i. int i < n \<longrightarrow> \<not> bm_test b i)"
proof -
  have "i div 32 < nat ((n + 31) div 32)" if "int i < n" for i using that by linarith
  then show ?thesis
    using assms by (auto simp: bitmap_allocate_def bm_inv_def bm_test_def Let_def add.commute)
qed

subsection \<open>The search for a free bit\<close>

lemma one_pos_loop_Least:
  "w \<noteq> 0 \<Longrightarrow> one_pos_loop w s = s + int (LEAST k. bit w k)"
proof (induction w s rule: one_pos_loop.induct)
  case (1 w s)
  then have pos: "w > 0" by (simp add: word_neq_0_conv)
  show ?case
  proof (cases "w AND 1 = 0")
    case True
    then have nb: "\<not> bit w 0" by (simp add: bit_0 and_one_eq mod_2_eq_odd split: if_splits)
    have shift: "bit (drop_bit 1 w) = (\<lambda>k. bit w (Suc k))"
      by (rule ext, simp only: bit_drop_bit_eq) simp
    obtain k where k: "bit w k" using 1(2) by (auto simp: bit_eq_iff)
    then have "drop_bit 1 w \<noteq> 0"
      using nb shift by (metis bit_0_eq bot_apply bot_bool_def not0_implies_Suc)
    from 1(1)[OF pos _ this] True have "one_pos_loop (drop_bit 1 w) (s + 1) = s + 1 + int (LEAST k. bit w (Suc k))"
      unfolding shift by blast
    moreover have "(LEAST k. bit w k) = Suc (LEAST k. bit w (Suc k))"
      using Least_Suc[of "bit w" k] k nb by simp
    ultimately show ?thesis
      using pos True by (simp add: one_pos_loop.simps[of w])
  next
    case False
    then have "bit w 0" by (simp add: bit_0 and_one_eq mod_2_eq_odd split: if_splits)
    then show ?thesis
      using pos False by (simp add: one_pos_loop.simps[of w] Least_eq_0)
  qed
qed

lemma one_pos_loop_0: "one_pos_loop 0 s = -1"
  by (simp add: one_pos_loop.simps)


text \<open>The first clear bit of a word from a position on, and the same clipped by the bitmap's size.\<close>
lemma get_one_pos_cases:
  assumes "p < 32"
  shows "(get_one_pos_from_word (NOT w) (int p) = -1 \<and> (\<forall>j. p \<le> j \<and> j < 32 \<longrightarrow> bit w j))
     \<or> (\<exists>j. get_one_pos_from_word (NOT w) (int p) = int j \<and> p \<le> j \<and> j < 32 \<and> \<not> bit w j
          \<and> (\<forall>k. p \<le> k \<and> k < j \<longrightarrow> bit w k))"
proof -
  let ?v = "drop_bit p (NOT w)"
  have bv: "bit ?v k \<longleftrightarrow> p + k < 32 \<and> \<not> bit w (p + k)" for k
    by (simp add: bit_drop_bit_eq bit_not_iff)
  have un: "get_one_pos_from_word (NOT w) (int p) = one_pos_loop ?v (int p)"
    by (simp add: get_one_pos_from_word_def)
  show ?thesis
  proof (cases "?v = 0")
    case True
    then have "\<not> bit ?v k" for k by simp
    then have "\<forall>j. p \<le> j \<and> j < 32 \<longrightarrow> bit w j" using bv by (metis le_Suc_ex)
    then show ?thesis using True un by (simp add: one_pos_loop_0)
  next
    case False
    then obtain k0 where "bit ?v k0" by (auto simp: bit_eq_iff)
    then have L: "bit ?v (LEAST k. bit ?v k)" by (rule LeastI)
    have M: "\<not> bit ?v k" if "k < (LEAST k. bit ?v k)" for k using that by (rule not_less_Least)
    let ?j = "p + (LEAST k. bit ?v k)"
    have "\<forall>k. p \<le> k \<and> k < ?j \<longrightarrow> bit w k"
    proof (intro allI impI)
      fix k assume k: "p \<le> k \<and> k < ?j"
      then have "k - p < (LEAST k. bit ?v k)" by linarith
      then have nb: "\<not> bit ?v (k - p)" by (rule M)
      have "?j < 32" using L bv by blast
      then have "p + (k - p) < 32" "p + (k - p) = k" using k by linarith+
      then show "bit w k" using nb bv[of "k - p"] by metis
    qed
    moreover have "get_one_pos_from_word (NOT w) (int p) = int ?j"
      using un one_pos_loop_Least[OF False] by simp
    moreover have "?j < 32" "\<not> bit w ?j" using L bv by blast+
    moreover have "p \<le> ?j" by simp
    ultimately show ?thesis by blast
  qed
qed

lemma word_search:
  assumes "bm_inv b" and k: "k < length (bm_array b)" and p: "p < 32"
  defines "idx \<equiv> get_one_pos_from_word (NOT (bm_array b ! k)) (int p)"
  shows "(if idx \<ge> 0 \<and> idx + 32 * int k < bm_bits b then Some (idx + 32 * int k) else None)
     = map_option int (find (\<lambda>i. \<not> bm_test b i) [32 * k + p ..< min (32 * k + 32) (nat (bm_bits b))])"
proof -
  have t: "bm_test b (32 * k + j) = bit (bm_array b ! k) j" if "j < 32" for j
    using that by (simp add: bm_test_def)
  have rng: "\<exists>j. i = 32 * k + j \<and> p \<le> j \<and> j < 32" if "32 * k + p \<le> i" "i < 32 * k + 32" for i
    using that by (intro exI[of _ "i - 32 * k"]) auto
  have inside: "int i < bm_bits b" if "i < min (32 * k + 32) (nat (bm_bits b))" for i
    using that by linarith
  from get_one_pos_cases[OF p, of "bm_array b ! k", folded idx_def] show ?thesis
  proof (elim disjE exE conjE)
    assume "idx = -1" and all: "\<forall>j. p \<le> j \<and> j < 32 \<longrightarrow> bit (bm_array b ! k) j"
    moreover have "find (\<lambda>i. \<not> bm_test b i) [32 * k + p ..< min (32 * k + 32) (nat (bm_bits b))] = None"
      unfolding find_upt_None_iff using all t rng by (metis min_less_iff_conj)
    ultimately show ?thesis by simp
  next
    fix j assume j: "idx = int j" "p \<le> j" "j < 32" "\<not> bit (bm_array b ! k) j"
      and before: "\<forall>k'. p \<le> k' \<and> k' < j \<longrightarrow> bit (bm_array b ! k) k'"
    have pre: "bm_test b i" if "32 * k + p \<le> i" "i < 32 * k + j" for i
    proof -
      have i: "p \<le> i - 32 * k" "i - 32 * k < j" "i - 32 * k < 32" "32 * k + (i - 32 * k) = i"
        using that j(3) by linarith+
      then show ?thesis using before t[of "i - 32 * k"] by metis
    qed
    show ?thesis
    proof (cases "32 * k + j < nat (bm_bits b)")
      case True
      then have "find (\<lambda>i. \<not> bm_test b i) [32 * k + p ..< min (32 * k + 32) (nat (bm_bits b))]
          = Some (32 * k + j)"
        unfolding find_upt_Some_iff using j t pre by auto
      then show ?thesis using True j(1) by simp
    next
      case False
      then have "find (\<lambda>i. \<not> bm_test b i) [32 * k + p ..< min (32 * k + 32) (nat (bm_bits b))] = None"
        unfolding find_upt_None_iff using pre by auto
      then show ?thesis using False j(1) by simp
    qed
  qed
qed


lemma bm_scan_find:
  assumes "bm_inv b" "m \<le> length (bm_array b)" "k \<le> m"
  shows "bm_scan b (int k) (int m) = Some
     (case find (\<lambda>i. \<not> bm_test b i) [32 * k ..< min (32 * m) (nat (bm_bits b))] of
        None \<Rightarrow> Inl () | Some i \<Rightarrow> Inr (int i))"
  using assms(3)
proof (induction "m - k" arbitrary: k)
  case 0
  then show ?case by (simp add: bm_scan.simps)
next
  case (Suc d)
  let ?N = "nat (bm_bits b)" and ?P = "\<lambda>i. \<not> bm_test b i" and ?w = "NOT (bm_array b ! k)"
  let ?hit = "find ?P [32 * k ..< min (32 * k + 32) ?N]"
  let ?ret = "get_one_pos_from_word ?w 0 + 32 * int k"
  have k: "k < m" "k < length (bm_array b)" using Suc.hyps(2) assms(2) by linarith+
  have nonneg: "get_one_pos_from_word ?w 0 \<ge> 0 \<longleftrightarrow> ?w \<noteq> 0"
    using one_pos_loop_Least[of ?w 0] one_pos_loop_0[of 0]
    by (auto simp: get_one_pos_from_word_def)
  have hit: "(if ?w \<noteq> 0 \<and> ?ret < bm_bits b then Some ?ret else None) = map_option int ?hit"
    using word_search[OF assms(1) k(2), of 0] by (simp add: nonneg cong: if_cong)
  have split: "[32 * k ..< min (32 * m) ?N]
      = [32 * k ..< min (32 * k + 32) ?N] @ [32 * Suc k ..< min (32 * m) ?N]"
  proof (cases "32 * k + 32 \<le> ?N")
    case True
    then show ?thesis using k(1) upt_split[of "32 * k" "32 * k + 32" "min (32 * m) ?N"]
      by (simp add: min_absorb1 add.commute)
  next
    case False
    then show ?thesis using k(1) by (simp add: min_absorb2)
  qed
  have step: "bm_scan b (int k) (int m) =
      (if ?w \<noteq> 0 \<and> ?ret < bm_bits b then Some (Inr ?ret) else bm_scan b (int (Suc k)) (int m))"
    using k by (subst bm_scan.simps)
      (simp add: bm_word_in push_bit_eq_mult Let_def add.commute mult.commute)
  have ih: "bm_scan b (int (Suc k)) (int m) = Some
     (case find ?P [32 * Suc k ..< min (32 * m) ?N] of None \<Rightarrow> Inl () | Some i \<Rightarrow> Inr (int i))"
    using Suc.hyps k(1) by (intro Suc.hyps(1)) linarith+
  show ?case
    unfolding step ih split find_append_orelse
    using hit by (cases ?hit) (auto split: if_splits)
qed

text \<open>The result of the search in one expression: the first free index at or after the hint,
  then from the start; \<open>-1\<close> when every bit is taken.\<close>
definition next_zero_spec :: "bitmap \<Rightarrow> int \<Rightarrow> int" where
  "next_zero_spec b n0 =
     (let N = nat (bm_bits b); n = (if n0 < 0 \<or> n0 \<ge> bm_bits b then 0 else nat n0)
      in case find (\<lambda>i. \<not> bm_test b i) ([n..<N] @ [0..<n]) of None \<Rightarrow> -1 | Some i \<Rightarrow> int i)"

lemma bitmap_get_next_zero_eq:
  assumes inv: "bm_inv b"
  shows "bitmap_get_next_zero b n0 = Some (next_zero_spec b n0)"
proof -
  let ?N = "nat (bm_bits b)" and ?P = "\<lambda>i. \<not> bm_test b i" and ?L = "length (bm_array b)"
  define n where "n = (if n0 < 0 \<or> n0 \<ge> bm_bits b then 0 else nat n0)"
  let ?k = "n div 32" and ?p = "n mod 32"
  have nN: "n < ?N" "int n = (if n0 < 0 \<or> n0 \<ge> bm_bits b then 0 else n0)"
    using inv by (auto simp: n_def bm_inv_def)
  have k: "?k < ?L" using bm_inv_index[OF inv, of n] nN(1) by simp
  have LN: "bm_words b = int ?L" "?N \<le> 32 * ?L" using inv unfolding bm_inv_def by linarith+
  let ?A = "[n ..< min (32 * ?k + 32) ?N]" and ?B = "[32 * Suc ?k ..< ?N]"
    and ?C = "[0 ..< min (32 * Suc ?k) ?N]"
  have first: "(let idx = get_one_pos_from_word (NOT (bm_array b ! ?k)) (int ?p) in
      if idx \<ge> 0 \<and> idx + 32 * int ?k < bm_bits b then Some (idx + 32 * int ?k) else None)
      = map_option int (find ?P ?A)"
    using word_search[OF inv k, of ?p] by (simp add: Let_def)
  have s1: "bm_scan b (int ?k + 1) (bm_words b)
      = Some (case find ?P ?B of None \<Rightarrow> Inl () | Some i \<Rightarrow> Inr (int i))"
    using bm_scan_find[OF inv, of ?L "Suc ?k"] k LN by (simp add: min_absorb2 add.commute)
  have s2: "bm_scan b 0 (int ?k + 1)
      = Some (case find ?P ?C of None \<Rightarrow> Inl () | Some i \<Rightarrow> Inr (int i))"
    using bm_scan_find[OF inv, of "Suc ?k" 0] k by (simp add: add.commute)
  have AB: "[n..<?N] = ?A @ ?B"
  proof (cases "32 * ?k + 32 \<le> ?N")
    case True
    moreover have "n \<le> 32 * ?k + 32" by linarith
    ultimately show ?thesis using upt_split[of n "32 * ?k + 32" ?N] by (simp add: add.commute)
  next
    case False
    then show ?thesis by simp
  qed
  have C: "find ?P ?C = find ?P [0..<n]" if "find ?P [n..<?N] = None"
  proof -
    have "?C = [0..<n] @ ?A"
      using upt_split[of 0 n "min (32 * Suc ?k) ?N"] nN(1) by (simp add: add.commute)
    moreover have "find ?P ?A = None" using that by (auto simp: find_None_iff)
    ultimately show ?thesis by (simp add: find_append_orelse split: option.splits)
  qed
  have eq: "bitmap_get_next_zero b n0 = Some (case find ?P ?A of Some i \<Rightarrow> int i
     | None \<Rightarrow> (case find ?P ?B of Some i \<Rightarrow> int i
        | None \<Rightarrow> (case find ?P ?C of Some i \<Rightarrow> int i | None \<Rightarrow> -1)))"
    using first unfolding bitmap_get_next_zero_def nN(2)[symmetric] word_pos_int Let_def
    by (cases "find ?P ?A") (auto simp: bm_word_in[OF k] s1 s2 push_bit_eq_mult mult.commute
        split: option.splits if_splits)
  show ?thesis
    unfolding eq next_zero_spec_def Let_def n_def[symmetric] find_append_orelse AB
    using C unfolding AB find_append_orelse by (auto split: option.splits)
qed


subsection \<open>Slot allocation: the interface its clients rely on\<close>

text \<open>A pool of numbered slots: what a client of the bit set may assume of marking, releasing and
  searching. The number of slots never changes.\<close>
locale slot_pool =
  fixes inv :: "'b \<Rightarrow> bool" and cap :: "'b \<Rightarrow> nat" and used :: "'b \<Rightarrow> nat set"
    and mark :: "'b \<Rightarrow> int \<Rightarrow> 'b option" and release :: "'b \<Rightarrow> int \<Rightarrow> 'b option"
    and next_free :: "'b \<Rightarrow> int \<Rightarrow> int option"
  assumes mark_law: "inv b \<Longrightarrow> n < cap b \<Longrightarrow>
      \<exists>b'. mark b (int n) = Some b' \<and> inv b' \<and> cap b' = cap b \<and> used b' = insert n (used b)"
    and release_law: "inv b \<Longrightarrow> n < cap b \<Longrightarrow>
      \<exists>b'. release b (int n) = Some b' \<and> inv b' \<and> cap b' = cap b \<and> used b' = used b - {n}"
    and next_law: "inv b \<Longrightarrow>
      (next_free b h = Some (-1) \<and> {..<cap b} \<subseteq> used b)
      \<or> (\<exists>n. next_free b h = Some (int n) \<and> n < cap b \<and> n \<notin> used b)"
begin

lemma next_free_range:
  assumes "inv b" "next_free b h = Some r" "r \<noteq> -1"
  obtains n where "r = int n" "n < cap b" "n \<notin> used b"
  using next_law[OF assms(1), of h] assms(2,3) by auto

lemma next_free_full: "inv b \<Longrightarrow> next_free b h = Some (-1) \<longleftrightarrow> {..<cap b} \<subseteq> used b"
  using next_law[of b h] by auto

lemma take_fresh:
  assumes "inv b" "\<not> {..<cap b} \<subseteq> used b"
  obtains n b' where "next_free b h = Some (int n)" "n < cap b" "n \<notin> used b"
    "mark b (int n) = Some b'" "inv b'" "cap b' = cap b" "used b' = insert n (used b)"
  using next_law[OF assms(1), of h] assms mark_law[OF assms(1)] by metis

lemma mark_release:
  assumes "inv b" "n < cap b" "n \<notin> used b" "mark b (int n) = Some b'"
  shows "\<exists>b''. release b' (int n) = Some b'' \<and> inv b'' \<and> cap b'' = cap b \<and> used b'' = used b"
proof -
  have b': "inv b'" "cap b' = cap b" "used b' = insert n (used b)"
    using mark_law[OF assms(1,2)] assms(4) by auto
  have "n < cap b'" using b' assms(2) by simp
  from release_law[OF b'(1) this] show ?thesis using b' assms(3) by auto
qed

end

definition bm_used :: "bitmap \<Rightarrow> nat set" where
  "bm_used b = {i. int i < bm_bits b \<and> bm_test b i}"

definition bm_cap :: "bitmap \<Rightarrow> nat" where
  "bm_cap b = nat (bm_bits b)"

lemma next_zero_spec_cases:
  "bm_inv b \<Longrightarrow> (next_zero_spec b h = -1 \<and> {..<bm_cap b} \<subseteq> bm_used b)
      \<or> (\<exists>n. next_zero_spec b h = int n \<and> n < bm_cap b \<and> n \<notin> bm_used b)"
proof -
  assume inv: "bm_inv b"
  let ?n = "if h < 0 \<or> h \<ge> bm_bits b then 0 else nat h"
  have n: "?n \<le> bm_cap b" by (auto simp: bm_cap_def)
  show ?thesis
  proof (cases "find (\<lambda>i. \<not> bm_test b i) ([?n..<bm_cap b] @ [0..<?n])")
    case None
    moreover have "bm_test b i" if "i < bm_cap b" for i
    proof -
      have "i \<in> set ([?n..<bm_cap b] @ [0..<?n])" using that by (cases "i < ?n") simp_all
      with None show ?thesis unfolding find_None_iff by blast
    qed
    ultimately show ?thesis
      by (auto simp: next_zero_spec_def bm_used_def bm_cap_def Let_def)
  next
    case (Some i)
    then have "i \<in> set ([?n..<bm_cap b] @ [0..<?n])" "\<not> bm_test b i"
      by (auto dest: find_SomeD simp del: set_append)
    then show ?thesis using Some n
      by (auto simp: next_zero_spec_def bm_used_def bm_cap_def Let_def)
  qed
qed

interpretation bm: slot_pool bm_inv bm_cap bm_used bitmap_set bitmap_clear bitmap_get_next_zero
proof
  fix b :: bitmap and n :: nat and h :: int
  assume inv: "bm_inv b"
  then show "(bitmap_get_next_zero b h = Some (-1) \<and> {..<bm_cap b} \<subseteq> bm_used b)
      \<or> (\<exists>n. bitmap_get_next_zero b h = Some (int n) \<and> n < bm_cap b \<and> n \<notin> bm_used b)"
    using next_zero_spec_cases bitmap_get_next_zero_eq by simp
  assume "n < bm_cap b"
  then have "int n < bm_bits b" by (simp add: bm_cap_def)
  then show "\<exists>b'. bitmap_set b (int n) = Some b' \<and> bm_inv b' \<and> bm_cap b' = bm_cap b
        \<and> bm_used b' = insert n (bm_used b)"
    and "\<exists>b'. bitmap_clear b (int n) = Some b' \<and> bm_inv b' \<and> bm_cap b' = bm_cap b
        \<and> bm_used b' = bm_used b - {n}"
    using bitmap_set_spec[OF inv] bitmap_clear_spec[OF inv]
    by (fastforce simp: bm_used_def bm_cap_def)+
qed

end
