(* ===== verification/DP_Fqdn.thy ===== *)
theory DP_Fqdn
  imports DP_RcuMap DP_Bitmap
begin

text \<open>
  The FQDN tables of \<open>dpi/dpi_policy.c\<close>: domain names configured by the controller get a code that
  stands for them in the rule tables, and addresses snooped from DNS answers are associated with the
  names. Records are heap objects shared between the name table, the address table and the deletion
  queues, so they live in an explicit store \<open>q_recs\<close>; an address that is not in the store is a freed
  record. Names are C strings without their NUL.
\<close>

record fqdn_record =
  f_name :: bytes
  f_code :: u32
  f_flag :: u32
  f_ip_cnt :: u32
  f_record_updated :: u32
  f_iplist :: "u32 list"

record fqdn_ipv4_entry =
  v_ip :: u32
  v_rlist :: "nat list"

text \<open>A name entry is its record's address. \<open>domains\<close> and \<open>domain_ips\<close> are counters of
  \<open>th_counter\<close>.\<close>
record dpi_fqdn_hdl =
  q_name_map :: "nat rcu_map"
  q_ipv4_map :: "fqdn_ipv4_entry rcu_map"
  q_bm :: bitmap
  q_code_cnt :: int
  q_del_name_list :: "nat list"
  q_del_ipv4_list :: "u32 list"
  q_del_rlist :: "nat list"
  q_recs :: "nat \<Rightarrow> fqdn_record option"
  q_fresh :: nat
  q_domains :: u32
  q_domain_ips :: u32

definition FQDN_RECORD_TO_DELETE :: u32 where "FQDN_RECORD_TO_DELETE = 1"
definition FQDN_RECORD_DELETED :: u32 where "FQDN_RECORD_DELETED = 2"
definition FQDN_RECORD_WILDCARD :: u32 where "FQDN_RECORD_WILDCARD = 4"
definition DPI_FQDN_DELETE_QLEN :: nat where "DPI_FQDN_DELETE_QLEN = 32"
definition DPI_FQDN_MAX_ENTRIES :: int where "DPI_FQDN_MAX_ENTRIES = 2048"
definition MAX_FQDN_LEN :: nat where "MAX_FQDN_LEN = 256"

lemmas fqdn_consts [dp_eval] =
  FQDN_RECORD_TO_DELETE_def FQDN_RECORD_DELETED_def FQDN_RECORD_WILDCARD_def
  DPI_FQDN_DELETE_QLEN_def DPI_FQDN_MAX_ENTRIES_def MAX_FQDN_LEN_def

subsection \<open>Names\<close>

definition lower_c :: "byte \<Rightarrow> byte" where
  "lower_c c = (if is_upper c then c + 32 else c)"

definition strcaseeq :: "bytes \<Rightarrow> bytes \<Rightarrow> bool" where
  "strcaseeq a b \<longleftrightarrow> map lower_c a = map lower_c b"

definition fqdn_name_match :: "(nat \<Rightarrow> fqdn_record option) \<Rightarrow> nat \<Rightarrow> bytes \<Rightarrow> bool" where
  "fqdn_name_match recs rid k = (case recs rid of None \<Rightarrow> False | Some r \<Rightarrow> strcaseeq (f_name r) k)"

definition fqdn_name_hash :: "bytes \<Rightarrow> u32" where
  "fqdn_name_hash k = sdbm_hash k"

definition fqdn_ipv4_match :: "fqdn_ipv4_entry \<Rightarrow> u32 \<Rightarrow> bool" where
  "fqdn_ipv4_match s k \<longleftrightarrow> v_ip s = k"

definition fqdn_ipv4_hash :: "u32 \<Rightarrow> u32" where
  "fqdn_ipv4_hash k = sdbm_hash (u32_bytes k)"

text \<open>\<open>str_split\<close>: the non-empty tokens between delimiter characters (\<open>strtok_r\<close>).\<close>
fun split_at :: "byte list \<Rightarrow> bytes \<Rightarrow> bytes list" where
  "split_at delim [] = [[]]"
| "split_at delim (c # cs) = (if c \<in> set delim then [] # split_at delim cs
     else (c # hd (split_at delim cs)) # tl (split_at delim cs))"

definition str_split :: "bytes \<Rightarrow> byte list \<Rightarrow> bytes list" where
  "str_split s delim = filter (\<lambda>t. t \<noteq> []) (split_at delim s)"

definition is_fqdn_name_wildcard :: "bytes \<Rightarrow> bool" where
  "is_fqdn_name_wildcard name = (case str_split name [46] of [] \<Rightarrow> False | t # _ \<Rightarrow> strcaseeq t [42])"

definition lookup_name :: "dpi_fqdn_hdl \<Rightarrow> bytes \<Rightarrow> nat option" where
  "lookup_name hdl name = rcu_map_lookup (q_name_map hdl) fqdn_name_hash (fqdn_name_match (q_recs hdl)) name"

definition lookup_ipv4 :: "dpi_fqdn_hdl \<Rightarrow> u32 \<Rightarrow> fqdn_ipv4_entry option" where
  "lookup_ipv4 hdl ip = rcu_map_lookup (q_ipv4_map hdl) fqdn_ipv4_hash fqdn_ipv4_match ip"

subsection \<open>Codes\<close>

definition dpi_fqdn_hdl_init :: "bool \<Rightarrow> bool \<Rightarrow> bool \<Rightarrow> dpi_fqdn_hdl option" where
  "dpi_fqdn_hdl_init ok ok_bm1 ok_bm2 =
     (if \<not> ok then None
      else case bitmap_allocate ok_bm1 ok_bm2 DPI_FQDN_MAX_ENTRIES of None \<Rightarrow> None
      | Some bm \<Rightarrow> Some \<lparr>q_name_map = rcu_map_init, q_ipv4_map = rcu_map_init, q_bm = bm,
          q_code_cnt = 0, q_del_name_list = [], q_del_ipv4_list = [], q_del_rlist = [],
          q_recs = (\<lambda>_. None), q_fresh = 0, q_domains = 0, q_domain_ips = 0\<rparr>)"

text \<open>\<open>alloc_fqdn_code\<close>; the result \<open>-1\<close> is the unsigned \<open>0xffffffff\<close>.\<close>
definition alloc_fqdn_code :: "dpi_fqdn_hdl \<Rightarrow> (dpi_fqdn_hdl \<times> u32) option" where
  "alloc_fqdn_code hdl = do {
     n \<leftarrow> bitmap_get_next_zero (q_bm hdl) (q_code_cnt hdl);
     if n < 0 then Some (hdl\<lparr>q_code_cnt := n\<rparr>, -1)
     else do {
       bm \<leftarrow> bitmap_set (q_bm hdl) n;
       Some (hdl\<lparr>q_bm := bm, q_code_cnt := n + 1\<rparr>, htonl (word_of_int (n + 1))) } }"

definition free_fqdn_code :: "dpi_fqdn_hdl \<Rightarrow> u32 \<Rightarrow> dpi_fqdn_hdl option" where
  "free_fqdn_code hdl code = do {
     bm \<leftarrow> bitmap_clear (q_bm hdl) (sint (ntohl code - 1));
     Some (hdl\<lparr>q_bm := bm\<rparr>) }"

subsection \<open>Associating addresses and records\<close>

definition upd_rec :: "dpi_fqdn_hdl \<Rightarrow> nat \<Rightarrow> (fqdn_record \<Rightarrow> fqdn_record) \<Rightarrow> dpi_fqdn_hdl" where
  "upd_rec hdl rid f = hdl\<lparr>q_recs := (q_recs hdl)(rid := map_option f (q_recs hdl rid))\<rparr>"

text \<open>\<open>config_record_ip_list\<close> on an entry and a record: the updated entry, the updated record and the
  return value. \<open>ok1\<close> and \<open>ok2\<close> are its two allocations.\<close>
definition config_record_ip_list ::
  "bool \<Rightarrow> bool \<Rightarrow> fqdn_ipv4_entry \<Rightarrow> nat \<Rightarrow> fqdn_record \<Rightarrow> fqdn_ipv4_entry \<times> fqdn_record \<times> int" where
  "config_record_ip_list ok1 ok2 entry rid r =
     (if \<not> ok1 \<or> \<not> ok2 then (entry, r, -1)
      else let entry' = (if rid \<in> set (v_rlist entry) then entry
                         else entry\<lparr>v_rlist := v_rlist entry @ [rid]\<rparr>)
           in if v_ip entry \<in> set (f_iplist r) then (entry', r, 0)
              else (entry', r\<lparr>f_iplist := f_iplist r @ [v_ip entry], f_ip_cnt := f_ip_cnt r + 1\<rparr>, 1))"

text \<open>The part common to the configuration and the snooping path: look the address up, link it with
  the record, add a new entry to the table. \<open>ok3\<close> is the allocation of the entry. The result is
  \<open>-1\<close> on failure, \<open>1\<close> when the address is new to the table or to the record.\<close>
definition link_ip :: "bool \<Rightarrow> bool \<Rightarrow> bool \<Rightarrow> dpi_fqdn_hdl \<Rightarrow> nat \<Rightarrow> u32 \<Rightarrow> (dpi_fqdn_hdl \<times> int) option" where
  "link_ip ok1 ok2 ok3 hdl rid ip = do {
     r \<leftarrow> q_recs hdl rid;
     (case lookup_ipv4 hdl ip of
        Some e \<Rightarrow>
          (let (e', r', ret) = config_record_ip_list ok1 ok2 e rid r in
           Some (upd_rec (hdl\<lparr>q_ipv4_map := rcu_map_upd (q_ipv4_map hdl) (\<lambda>x. v_ip x = ip) (\<lambda>_. e')\<rparr>)
                   rid (\<lambda>_. r'), ret))
      | None \<Rightarrow>
          if \<not> ok3 then Some (hdl, -1)
          else let (e', r', ret) = config_record_ip_list ok1 ok2 \<lparr>v_ip = ip, v_rlist = []\<rparr> rid r in
            if ret < 0 then Some (hdl, -1)
            else Some (upd_rec (hdl\<lparr>q_ipv4_map := rcu_map_add (q_ipv4_map hdl) fqdn_ipv4_hash e' ip,
                                    q_domain_ips := q_domain_ips hdl + 1\<rparr>) rid (\<lambda>_. r'), 1)) }"

text \<open>The first half of \<open>config_fqdn_ipv4_mapping\<close>: the record of a configured name, found or created
  with a fresh code. \<open>ok_e\<close>, \<open>ok_r\<close>: the allocations of the name entry and of the record.\<close>
definition name_record :: "bool \<Rightarrow> bool \<Rightarrow> dpi_fqdn_hdl \<Rightarrow> bytes \<Rightarrow> (dpi_fqdn_hdl \<times> nat option) option" where
  "name_record ok_e ok_r hdl name = (case lookup_name hdl name of
         Some rid \<Rightarrow> do {
           r \<leftarrow> q_recs hdl rid;
           Some (upd_rec hdl rid (\<lambda>r. r\<lparr>f_flag := (if f_flag r AND FQDN_RECORD_WILDCARD \<noteq> 0
                                                  then FQDN_RECORD_WILDCARD else 0)\<rparr>), Some rid) }
       | None \<Rightarrow>
           if \<not> ok_e \<or> \<not> ok_r then Some (hdl, None)
           else do {
             (hdl', code) \<leftarrow> alloc_fqdn_code hdl;
             if code = -1 then Some (hdl', None)
             else let rid = q_fresh hdl'; nm = take (MAX_FQDN_LEN - 1) name;
                      r = \<lparr>f_name = nm, f_code = code,
                           f_flag = (if is_fqdn_name_wildcard nm then FQDN_RECORD_WILDCARD else 0),
                           f_ip_cnt = 0, f_record_updated = 0, f_iplist = []\<rparr>
               in Some (hdl'\<lparr>q_recs := (q_recs hdl')(rid \<mapsto> r), q_fresh := rid + 1,
                     q_name_map := rcu_map_add (q_name_map hdl') fqdn_name_hash rid name,
                     q_domains := q_domains hdl' + 1\<rparr>, Some rid) })"

definition config_fqdn_ipv4_mapping ::
  "bool \<Rightarrow> bool \<Rightarrow> bool \<Rightarrow> bool \<Rightarrow> bool \<Rightarrow> dpi_fqdn_hdl \<Rightarrow> bytes \<Rightarrow> u32 \<Rightarrow> (dpi_fqdn_hdl \<times> u32) option" where
  "config_fqdn_ipv4_mapping ok_e ok_r ok1 ok2 ok3 hdl name ip = do {
     (hdl1, mrid) \<leftarrow> name_record ok_e ok_r hdl name;
     (case mrid of None \<Rightarrow> Some (hdl1, -1)
      | Some rid \<Rightarrow> do {
          r \<leftarrow> q_recs hdl1 rid;
          if ip = 0 then Some (hdl1, f_code r)
          else do { (hdl2, _) \<leftarrow> link_ip ok1 ok2 ok3 hdl1 rid ip; Some (hdl2, f_code r) } }) }"

text \<open>\<open>associate_ip_record\<close>: the loop stops at the first address it cannot store.\<close>
fun associate_ips :: "bool \<Rightarrow> bool \<Rightarrow> bool \<Rightarrow> dpi_fqdn_hdl \<Rightarrow> nat \<Rightarrow> u32 list \<Rightarrow> bool
    \<Rightarrow> (dpi_fqdn_hdl \<times> bool \<times> bool) option" where
  "associate_ips ok1 ok2 ok3 hdl rid [] new_ip = Some (hdl, new_ip, True)"
| "associate_ips ok1 ok2 ok3 hdl rid (ip # ips) new_ip = do {
     r \<leftarrow> q_recs hdl rid;
     (hdl', ret) \<leftarrow> link_ip ok1 ok2 ok3 hdl rid ip;
     if ret < 0 \<and> lookup_ipv4 hdl ip = None then Some (hdl', new_ip, False)
     else associate_ips ok1 ok2 ok3 hdl' rid ips
            (new_ip \<or> ret = 1 \<and> f_flag r AND FQDN_RECORD_WILDCARD \<noteq> 0) }"

definition associate_ip_record :: "bool \<Rightarrow> bool \<Rightarrow> bool \<Rightarrow> dpi_fqdn_hdl \<Rightarrow> nat \<Rightarrow> u32 list
    \<Rightarrow> (dpi_fqdn_hdl \<times> int) option" where
  "associate_ip_record ok1 ok2 ok3 hdl rid ips = do {
     (hdl', new_ip, done) \<leftarrow> associate_ips ok1 ok2 ok3 hdl rid ips False;
     if \<not> done then Some (hdl', -1)
     else Some (if new_ip then upd_rec hdl' rid (\<lambda>r. r\<lparr>f_record_updated := 1\<rparr>) else hdl', 0) }"

text \<open>The position of the last dot the backwards scan finds; \<open>0\<close> or less when there is none.\<close>
function last_dot :: "bytes \<Rightarrow> int \<Rightarrow> int" where
  "last_dot dname j = (if j > 0 then if dname ! nat j = 46 then j else last_dot dname (j - 1) else j)"
  by pat_completeness auto
termination by (relation "measure (\<lambda>(d, j). nat j)") auto

text \<open>One lookup of the snooping path: a live name that is not marked for deletion is updated.\<close>
definition snoop_one :: "bool \<Rightarrow> bool \<Rightarrow> bool \<Rightarrow> dpi_fqdn_hdl \<Rightarrow> bytes \<Rightarrow> u32 list \<Rightarrow> dpi_fqdn_hdl option" where
  "snoop_one ok1 ok2 ok3 hdl name ips = (case lookup_name hdl name of None \<Rightarrow> Some hdl
     | Some rid \<Rightarrow> do {
         r \<leftarrow> q_recs hdl rid;
         if f_flag r AND (FQDN_RECORD_TO_DELETE OR FQDN_RECORD_DELETED) \<noteq> 0 then Some hdl
         else map_option fst (associate_ip_record ok1 ok2 ok3 hdl rid ips) })"

fun snoop_loop :: "bool \<Rightarrow> bool \<Rightarrow> bool \<Rightarrow> bytes \<Rightarrow> u32 list \<Rightarrow> nat list \<Rightarrow> dpi_fqdn_hdl
    \<Rightarrow> dpi_fqdn_hdl option" where
  "snoop_loop ok1 ok2 ok3 dname ips [] hdl = Some hdl"
| "snoop_loop ok1 ok2 ok3 dname ips (i # is) hdl =
     (if dname ! (i + 1) = 46
      then do {
        let dname' = dname[i := 42];
        hdl' \<leftarrow> snoop_one ok1 ok2 ok3 hdl (drop i dname') ips;
        snoop_loop ok1 ok2 ok3 dname' ips is hdl' }
      else snoop_loop ok1 ok2 ok3 dname ips is hdl)"

definition snooped_fqdn_ipv4_mapping ::
  "bool \<Rightarrow> bool \<Rightarrow> bool \<Rightarrow> dpi_fqdn_hdl \<Rightarrow> bytes \<Rightarrow> u32 list \<Rightarrow> dpi_fqdn_hdl option" where
  "snooped_fqdn_ipv4_mapping ok1 ok2 ok3 hdl name0 ips = do {
     let name = map lower_c name0;
     hdl1 \<leftarrow> snoop_one ok1 ok2 ok3 hdl name ips;
     let dname = take (MAX_FQDN_LEN - 1) name;
     let j = last_dot dname (int (length dname) - 2);
     snoop_loop ok1 ok2 ok3 dname ips [0 ..< nat (j - 1)] hdl1 }"

subsection \<open>Deletion\<close>

definition dpi_fqdn_entry_mark_delete :: "dpi_fqdn_hdl \<Rightarrow> bytes \<Rightarrow> dpi_fqdn_hdl" where
  "dpi_fqdn_entry_mark_delete hdl name = (case lookup_name hdl name of None \<Rightarrow> hdl
     | Some rid \<Rightarrow> upd_rec hdl rid (\<lambda>r. r\<lparr>f_flag := f_flag r OR FQDN_RECORD_TO_DELETE\<rparr>))"

definition enqueue_fqdn_name_to_del :: "dpi_fqdn_hdl \<Rightarrow> nat \<Rightarrow> dpi_fqdn_hdl option" where
  "enqueue_fqdn_name_to_del hdl rid =
     (if length (q_del_name_list hdl) = DPI_FQDN_DELETE_QLEN then None
      else Some ((upd_rec hdl rid (\<lambda>r. r\<lparr>f_flag := f_flag r OR FQDN_RECORD_DELETED\<rparr>))
                   \<lparr>q_del_name_list := q_del_name_list hdl @ [rid]\<rparr>))"

definition enqueue_fqdn_ipv4_to_del :: "dpi_fqdn_hdl \<Rightarrow> u32 \<Rightarrow> dpi_fqdn_hdl option" where
  "enqueue_fqdn_ipv4_to_del hdl ip =
     (if length (q_del_ipv4_list hdl) = DPI_FQDN_DELETE_QLEN then None
      else Some (hdl\<lparr>q_del_ipv4_list := q_del_ipv4_list hdl @ [ip]\<rparr>))"

definition rec_flag :: "dpi_fqdn_hdl \<Rightarrow> nat \<Rightarrow> u32" where
  "rec_flag hdl rid = (case q_recs hdl rid of None \<Rightarrow> 0 | Some r \<Rightarrow> f_flag r)"

text \<open>The callbacks of the two table walks; their state is the handle and \<open>ctx->more\<close>.\<close>
definition check_fqdn_name_entry :: "nat \<Rightarrow> dpi_fqdn_hdl \<times> bool \<Rightarrow> (dpi_fqdn_hdl \<times> bool) \<times> bool" where
  "check_fqdn_name_entry rid s = (let (hdl, more) = s in
     if rec_flag hdl rid AND FQDN_RECORD_TO_DELETE \<noteq> 0 then
       (case enqueue_fqdn_name_to_del hdl rid of
          Some hdl' \<Rightarrow> ((hdl'\<lparr>q_name_map := fst (rcu_map_del (q_name_map hdl') (\<lambda>x. x = rid))\<rparr>, more), False)
        | None \<Rightarrow> ((hdl, True), True))
     else ((hdl, more), False))"

definition check_fqdn_ipv4_entry ::
  "fqdn_ipv4_entry \<Rightarrow> dpi_fqdn_hdl \<times> bool \<Rightarrow> (dpi_fqdn_hdl \<times> bool) \<times> bool" where
  "check_fqdn_ipv4_entry entry s = (let (hdl, more) = s;
       gone = filter (\<lambda>rid. rec_flag hdl rid AND FQDN_RECORD_DELETED \<noteq> 0) (v_rlist entry);
       rest = filter (\<lambda>rid. rec_flag hdl rid AND FQDN_RECORD_DELETED = 0) (v_rlist entry);
       hdl1 = hdl\<lparr>q_ipv4_map := rcu_map_upd (q_ipv4_map hdl) (\<lambda>x. v_ip x = v_ip entry)
                                 (\<lambda>x. x\<lparr>v_rlist := rest\<rparr>),
                  q_del_rlist := q_del_rlist hdl @ gone\<rparr>
     in if rest = [] then
          (case enqueue_fqdn_ipv4_to_del hdl1 (v_ip entry) of
             Some hdl2 \<Rightarrow>
               ((hdl2\<lparr>q_ipv4_map := fst (rcu_map_del (q_ipv4_map hdl2) (\<lambda>x. v_ip x = v_ip entry))\<rparr>, more), False)
           | None \<Rightarrow> ((hdl1, True), True))
        else ((hdl1, more), False))"

definition free_fqdn_ipv4 :: "dpi_fqdn_hdl \<Rightarrow> dpi_fqdn_hdl" where
  "free_fqdn_ipv4 hdl = hdl\<lparr>q_domain_ips := q_domain_ips hdl - of_nat (length (q_del_ipv4_list hdl)),
     q_del_ipv4_list := []\<rparr>"

text \<open>The loop of \<open>free_fqdn_name\<close> over \<open>del_name_list\<close>; a record that is freed already would be a
  fault.\<close>
fun free_names :: "nat list \<Rightarrow> dpi_fqdn_hdl \<Rightarrow> dpi_fqdn_hdl option" where
  "free_names [] hdl = Some hdl"
| "free_names (rid # rids) hdl = do {
     r \<leftarrow> q_recs hdl rid;
     hdl' \<leftarrow> free_fqdn_code hdl (f_code r);
     free_names rids (hdl'\<lparr>q_recs := (q_recs hdl')(rid := None), q_domains := q_domains hdl' - 1\<rparr>) }"

definition free_fqdn_name :: "dpi_fqdn_hdl \<Rightarrow> dpi_fqdn_hdl option" where
  "free_fqdn_name hdl = map_option (\<lambda>h. h\<lparr>q_del_name_list := [], q_del_rlist := []\<rparr>)
     (free_names (q_del_name_list hdl) hdl)"

text \<open>The inner \<open>do ... while (ctx.more)\<close> and the outer \<open>while (more)\<close> of
  \<open>dpi_fqdn_entry_delete_marked\<close>, with fuel; \<^term>\<open>None\<close> is also a fault.\<close>
fun purge_ipv4 :: "nat \<Rightarrow> dpi_fqdn_hdl \<Rightarrow> dpi_fqdn_hdl option" where
  "purge_ipv4 0 hdl = None"
| "purge_ipv4 (Suc n) hdl =
     (let (hdl1, more) = rcu_map_for_each (q_ipv4_map hdl) check_fqdn_ipv4_entry (hdl, False);
          hdl2 = (if q_del_ipv4_list hdl1 \<noteq> [] then free_fqdn_ipv4 hdl1 else hdl1)
      in if more then purge_ipv4 n hdl2 else Some hdl2)"

fun delete_marked_loop :: "nat \<Rightarrow> dpi_fqdn_hdl \<Rightarrow> dpi_fqdn_hdl option" where
  "delete_marked_loop 0 hdl = None"
| "delete_marked_loop (Suc n) hdl = do {
     let (hdl1, more) = rcu_map_for_each (q_name_map hdl) check_fqdn_name_entry (hdl, False);
     hdl2 \<leftarrow> (if q_del_name_list hdl1 \<noteq> [] then do {
                h \<leftarrow> purge_ipv4 (length (q_ipv4_map hdl1) + 1) hdl1;
                free_fqdn_name h }
              else Some hdl1);
     if more then delete_marked_loop n hdl2 else Some hdl2 }"

definition dpi_fqdn_entry_delete_marked :: "dpi_fqdn_hdl \<Rightarrow> dpi_fqdn_hdl option" where
  "dpi_fqdn_entry_delete_marked hdl = delete_marked_loop (length (q_name_map hdl) + 1) hdl"

declare last_dot.simps [simp del]

end
