(* ===== verification/DP_FqdnInv.thy ===== *)
theory DP_FqdnInv
  imports DP_Fqdn
begin

text \<open>
  Invariants of the FQDN tables: the code pool matches the live records, and no table or queue
  refers to a freed record. Every operation keeps them, and the deletion loop ends.
\<close>

subsection \<open>Invariant of the code pool\<close>

definition code_no :: "fqdn_record \<Rightarrow> nat" where
  "code_no r = unat (ntohl (f_code r))"

definition code_idx :: "(nat \<Rightarrow> fqdn_record option) \<Rightarrow> nat \<Rightarrow> nat" where
  "code_idx recs rid = code_no (the (recs rid)) - 1"

text \<open>Every live record holds its own bit of the pool, and no other bit is taken.\<close>
definition codes_ok :: "bitmap \<Rightarrow> (nat \<Rightarrow> fqdn_record option) \<Rightarrow> bool" where
  "codes_ok bm recs \<longleftrightarrow> bm_inv bm \<and> bm_bits bm = 2048
     \<and> (\<forall>rid r. recs rid = Some r \<longrightarrow> 1 \<le> code_no r \<and> code_no r \<le> 2048)
     \<and> inj_on (code_idx recs) (dom recs) \<and> bm_used bm = code_idx recs ` dom recs"

lemma codes_ok_bm: "codes_ok bm recs \<Longrightarrow> bm_inv bm" "codes_ok bm recs \<Longrightarrow> bm_cap bm = 2048"
  by (simp_all add: codes_ok_def bm_cap_def)

lemma ntohl_inj: "ntohl a = ntohl b \<Longrightarrow> a = b"
  by (metis ntohl_ntohl)

lemma unat_code: "n < 2048 \<Longrightarrow> unat (ntohl (htonl (word_of_int (int n + 1)))) = n + 1"
proof -
  assume "n < 2048"
  moreover have "word_of_int (int n + 1) = (of_nat (n + 1) :: u32)" by simp
  ultimately show ?thesis by (simp only: ntohl_ntohl) (simp add: unat_of_nat del: of_nat_Suc)
qed

lemma sint_small: "unat (w::u32) < 2 ^ 31 \<Longrightarrow> sint w = int (unat w)"
proof -
  assume w: "unat w < 2 ^ 31"
  then have "\<not> sint w < 0" by (simp add: sint_neg_iff)
  then have "\<not> bit (uint w) 31" by (simp add: sint_uint signed_take_bit_negative_iff)
  then have "sint w = take_bit 31 (uint w)"
    by (simp add: sint_uint signed_take_bit_eq_if_positive)
  also have "\<dots> = uint w"
  proof -
    have "int (unat w) < int (2 ^ 31)" using w by (simp only: of_nat_less_iff)
    then show ?thesis by (simp add: take_bit_int_eq_self)
  qed
  finally show ?thesis by simp
qed

text \<open>Changing records without touching their codes keeps the pool.\<close>
lemma codes_ok_cong:
  assumes "codes_ok bm recs" "dom recs' = dom recs"
    "\<And>rid r'. recs' rid = Some r' \<Longrightarrow> f_code r' = f_code (the (recs rid))"
  shows "codes_ok bm recs'"
proof -
  have idx: "code_idx recs' rid = code_idx recs rid" if "rid \<in> dom recs" for rid
    using that assms(2,3) unfolding code_idx_def code_no_def by (metis domD option.sel)
  then have "code_idx recs' ` dom recs' = code_idx recs ` dom recs" using assms(2) by simp
  moreover have "inj_on (code_idx recs') (dom recs')"
    using assms idx unfolding codes_ok_def by (simp add: inj_on_def)
  moreover have "1 \<le> code_no r \<and> code_no r \<le> 2048" if "recs' rid = Some r" for rid r
  proof -
    have "rid \<in> dom recs" unfolding assms(2)[symmetric] using that by (rule domI)
    then obtain r0 where "recs rid = Some r0" by (auto dest: domD)
    moreover from this have "code_no r = code_no r0" using assms(3)[OF that] by (simp add: code_no_def)
    ultimately show ?thesis using assms(1) by (simp add: codes_ok_def)
  qed
  ultimately show ?thesis using assms(1) by (simp add: codes_ok_def)
qed

lemma alloc_fqdn_code_cases:
  assumes ok: "codes_ok (q_bm hdl) (q_recs hdl)"
  obtains (full) "alloc_fqdn_code hdl = Some (hdl\<lparr>q_code_cnt := -1\<rparr>, -1)"
      "card (dom (q_recs hdl)) \<ge> 2048"
    | (fresh) n bm where "alloc_fqdn_code hdl =
          Some (hdl\<lparr>q_bm := bm, q_code_cnt := int n + 1\<rparr>, htonl (word_of_int (int n + 1)))"
      "n < 2048" "bm_inv bm" "bm_bits bm = 2048" "n \<notin> bm_used (q_bm hdl)"
      "bm_used bm = insert n (bm_used (q_bm hdl))"
proof (cases "{..<bm_cap (q_bm hdl)} \<subseteq> bm_used (q_bm hdl)")
  case True
  then have "bitmap_get_next_zero (q_bm hdl) (q_code_cnt hdl) = Some (-1)"
    using bm.next_free_full codes_ok_bm(1)[OF ok] by blast
  then have "alloc_fqdn_code hdl = Some (hdl\<lparr>q_code_cnt := -1\<rparr>, -1)"
    by (simp add: alloc_fqdn_code_def)
  moreover have "card (dom (q_recs hdl)) \<ge> 2048"
  proof -
    have "card (bm_used (q_bm hdl)) = card (dom (q_recs hdl))"
      using ok by (simp add: codes_ok_def card_image)
    moreover have "finite (bm_used (q_bm hdl))"
      unfolding bm_used_def by (rule finite_subset[of _ "{..<bm_cap (q_bm hdl)}"]) (auto simp: bm_cap_def)
    then have "card {..<bm_cap (q_bm hdl)} \<le> card (bm_used (q_bm hdl))"
      using True by (rule card_mono)
    ultimately show ?thesis using codes_ok_bm(2)[OF ok] by simp
  qed
  ultimately show ?thesis by (rule full)
next
  case False
  from bm.take_fresh[OF codes_ok_bm(1)[OF ok] False, of "q_code_cnt hdl"]
  obtain n bm where n: "bitmap_get_next_zero (q_bm hdl) (q_code_cnt hdl) = Some (int n)"
    "n < bm_cap (q_bm hdl)" "n \<notin> bm_used (q_bm hdl)" "bitmap_set (q_bm hdl) (int n) = Some bm"
    "bm_inv bm" "bm_cap bm = bm_cap (q_bm hdl)" "bm_used bm = insert n (bm_used (q_bm hdl))"
    by metis
  show ?thesis
  proof (rule fresh)
    show "alloc_fqdn_code hdl =
          Some (hdl\<lparr>q_bm := bm, q_code_cnt := int n + 1\<rparr>, htonl (word_of_int (int n + 1)))"
      using n by (simp add: alloc_fqdn_code_def)
    show "bm_bits bm = 2048"
      using n(5,6) codes_ok_bm(2)[OF ok] by (simp add: bm_cap_def bm_inv_def)
  qed (use n codes_ok_bm(2)[OF ok] in simp_all)
qed

text \<open>A record created with a fresh code extends the pool.\<close>
lemma codes_ok_new:
  assumes ok: "codes_ok bm0 recs" and "recs rid = None"
    and n: "n < 2048" "n \<notin> bm_used bm0" and bm: "bm_inv bm" "bm_bits bm = 2048"
      "bm_used bm = insert n (bm_used bm0)"
    and code: "f_code r = htonl (word_of_int (int n + 1))"
  shows "codes_ok bm (recs(rid \<mapsto> r))"
proof -
  have no: "code_no r = n + 1" using unat_code[OF n(1)] code by (simp add: code_no_def)
  have idx: "code_idx (recs(rid \<mapsto> r)) x = (if x = rid then n else code_idx recs x)" for x
    using no by (simp add: code_idx_def)
  have "n \<notin> code_idx recs ` dom recs" using ok n(2) by (simp add: codes_ok_def)
  moreover have "inj_on (code_idx recs) (dom recs)" using ok by (simp add: codes_ok_def)
  ultimately have "inj_on (code_idx (recs(rid \<mapsto> r))) (insert rid (dom recs))"
    using assms(2) by (auto simp: inj_on_def idx)
  moreover have "code_idx (recs(rid \<mapsto> r)) ` insert rid (dom recs) = insert n (code_idx recs ` dom recs)"
    using assms(2) by (force simp: idx image_iff)
  ultimately show ?thesis
    using ok bm no n(1) unfolding codes_ok_def by (auto split: if_splits)
qed

text \<open>Freeing a record gives its code back.\<close>
lemma codes_ok_free:
  assumes ok: "codes_ok (q_bm hdl) (q_recs hdl)" and r: "q_recs hdl rid = Some r"
  obtains bm where "free_fqdn_code hdl (f_code r) = Some (hdl\<lparr>q_bm := bm\<rparr>)"
    "codes_ok bm ((q_recs hdl)(rid := None))"
proof -
  let ?recs = "q_recs hdl" and ?n = "code_no r - 1"
  have c: "1 \<le> code_no r" "code_no r \<le> 2048" using ok r by (auto simp: codes_ok_def)
  have u: "unat (ntohl (f_code r) - 1) = ?n"
    using c by (subst unat_minus_one) (auto simp: code_no_def unat_eq_0[symmetric])
  then have "unat (ntohl (f_code r) - 1) < 2 ^ 31" using c by simp
  from sint_small[OF this] have s: "sint (ntohl (f_code r) - 1) = int ?n" unfolding u .
  have n: "?n < bm_cap (q_bm hdl)" using c codes_ok_bm(2)[OF ok] by simp
  from bm.release_law[OF codes_ok_bm(1)[OF ok] n] obtain bm where bm:
    "bitmap_clear (q_bm hdl) (int ?n) = Some bm" "bm_inv bm" "bm_cap bm = bm_cap (q_bm hdl)"
    "bm_used bm = bm_used (q_bm hdl) - {?n}" by blast
  have idx: "code_idx (?recs(rid := None)) x = code_idx ?recs x" if "x \<noteq> rid" for x
    using that by (simp add: code_idx_def)
  have nidx: "?n = code_idx ?recs rid" using r by (simp add: code_idx_def)
  have inj: "inj_on (code_idx ?recs) (dom ?recs)" using ok by (simp add: codes_ok_def)
  have img: "code_idx (?recs(rid := None)) ` (dom ?recs - {rid}) = code_idx ?recs ` dom ?recs - {?n}"
  proof -
    have "code_idx (?recs(rid := None)) ` (dom ?recs - {rid}) = code_idx ?recs ` (dom ?recs - {rid})"
      by (rule image_cong) (auto simp: idx)
    also have "\<dots> = code_idx ?recs ` dom ?recs - {?n}"
      unfolding nidx using inj r by (auto simp: inj_on_def dom_def)
    finally show ?thesis .
  qed
  have "codes_ok bm (?recs(rid := None))"
    unfolding codes_ok_def
  proof (intro conjI)
    show "bm_bits bm = 2048" using bm(2,3) codes_ok_bm(2)[OF ok] by (simp add: bm_cap_def bm_inv_def)
    show "inj_on (code_idx (?recs(rid := None))) (dom (?recs(rid := None)))"
      using inj by (auto simp: inj_on_def idx)
    show "bm_used bm = code_idx (?recs(rid := None)) ` dom (?recs(rid := None))"
      using img bm(4) ok by (simp add: codes_ok_def)
    show "\<forall>x y. (?recs(rid := None)) x = Some y \<longrightarrow> 1 \<le> code_no y \<and> code_no y \<le> 2048"
      using ok by (auto simp: codes_ok_def split: if_splits)
  qed (rule bm(2))
  moreover have "free_fqdn_code hdl (f_code r) = Some (hdl\<lparr>q_bm := bm\<rparr>)"
    using bm(1) s by (simp add: free_fqdn_code_def)
  ultimately show ?thesis using that by blast
qed


subsection \<open>Invariant of the references\<close>

definition names_of :: "dpi_fqdn_hdl \<Rightarrow> nat list" where
  "names_of hdl = map snd (q_name_map hdl)"

definition deleted :: "dpi_fqdn_hdl \<Rightarrow> nat \<Rightarrow> bool" where
  "deleted hdl rid \<longleftrightarrow> rec_flag hdl rid AND FQDN_RECORD_DELETED \<noteq> 0"

definition marked :: "dpi_fqdn_hdl \<Rightarrow> nat \<Rightarrow> bool" where
  "marked hdl rid \<longleftrightarrow> rec_flag hdl rid AND FQDN_RECORD_TO_DELETE \<noteq> 0"

definition ipv4_ok :: "fqdn_ipv4_entry rcu_map \<Rightarrow> nat set \<Rightarrow> bool" where
  "ipv4_ok m live \<longleftrightarrow> rm_sorted m \<and> distinct (map (v_ip \<circ> snd) m)
     \<and> (\<forall>(h, e) \<in> set m. h = fqdn_ipv4_hash (v_ip e) \<and> set (v_rlist e) \<subseteq> live)"

text \<open>A record is live exactly when it is in the name table or waits in the deletion queue; the
  queue holds the records flagged as deleted.\<close>
definition refs_ok :: "dpi_fqdn_hdl \<Rightarrow> bool" where
  "refs_ok hdl \<longleftrightarrow> rm_sorted (q_name_map hdl) \<and> distinct (names_of hdl @ q_del_name_list hdl)
     \<and> dom (q_recs hdl) = set (names_of hdl @ q_del_name_list hdl)
     \<and> (\<forall>rid \<in> dom (q_recs hdl). rid < q_fresh hdl \<and> (deleted hdl rid \<longleftrightarrow> rid \<in> set (q_del_name_list hdl)))
     \<and> ipv4_ok (q_ipv4_map hdl) (dom (q_recs hdl))"

definition fq_core :: "dpi_fqdn_hdl \<Rightarrow> bool" where
  "fq_core hdl \<longleftrightarrow> codes_ok (q_bm hdl) (q_recs hdl) \<and> refs_ok hdl"

definition fq_inv :: "dpi_fqdn_hdl \<Rightarrow> bool" where
  "fq_inv hdl \<longleftrightarrow> fq_core hdl \<and> q_del_name_list hdl = [] \<and> q_del_ipv4_list hdl = [] \<and> q_del_rlist hdl = []"

lemma fq_coreD:
  assumes "fq_core hdl"
  shows "codes_ok (q_bm hdl) (q_recs hdl)" "refs_ok hdl"
  using assms by (simp_all add: fq_core_def)

lemma refs_okD:
  assumes "fq_core hdl"
  shows "rm_sorted (q_name_map hdl)" "distinct (names_of hdl @ q_del_name_list hdl)"
    "dom (q_recs hdl) = set (names_of hdl @ q_del_name_list hdl)"
    "rid \<in> dom (q_recs hdl) \<Longrightarrow> rid < q_fresh hdl"
    "rid \<in> dom (q_recs hdl) \<Longrightarrow> deleted hdl rid \<longleftrightarrow> rid \<in> set (q_del_name_list hdl)"
    "ipv4_ok (q_ipv4_map hdl) (dom (q_recs hdl))"
  using assms unfolding fq_core_def refs_ok_def by blast+

lemma rec_flag_upd_rec:
  "rec_flag (upd_rec hdl rid f) x =
     (if x = rid then (case q_recs hdl rid of None \<Rightarrow> 0 | Some r \<Rightarrow> f_flag (f r)) else rec_flag hdl x)"
  by (simp add: rec_flag_def upd_rec_def split: option.splits)

lemma upd_rec_sel [simp]:
  "q_name_map (upd_rec hdl rid f) = q_name_map hdl" "q_ipv4_map (upd_rec hdl rid f) = q_ipv4_map hdl"
  "q_bm (upd_rec hdl rid f) = q_bm hdl" "q_del_name_list (upd_rec hdl rid f) = q_del_name_list hdl"
  "q_del_ipv4_list (upd_rec hdl rid f) = q_del_ipv4_list hdl"
  "q_del_rlist (upd_rec hdl rid f) = q_del_rlist hdl" "q_fresh (upd_rec hdl rid f) = q_fresh hdl"
  "q_domains (upd_rec hdl rid f) = q_domains hdl"
  by (simp_all add: upd_rec_def)

lemma dom_upd_rec [simp]: "dom (q_recs (upd_rec hdl rid f)) = dom (q_recs hdl)"
  by (auto simp: upd_rec_def)

lemma upd_rec_core:
  assumes core: "fq_core hdl"
    and f: "\<And>r. q_recs hdl rid = Some r \<Longrightarrow> f_code (f r) = f_code r \<and>
      (f_flag (f r) AND FQDN_RECORD_DELETED \<noteq> 0 \<longleftrightarrow> f_flag r AND FQDN_RECORD_DELETED \<noteq> 0)"
  shows "fq_core (upd_rec hdl rid f)"
proof -
  have "codes_ok (q_bm hdl) (q_recs (upd_rec hdl rid f))"
    by (rule codes_ok_cong[OF fq_coreD(1)[OF core] dom_upd_rec])
      (use f in \<open>auto simp: upd_rec_def split: if_splits\<close>)
  moreover have d: "deleted (upd_rec hdl rid f) = deleted hdl"
    unfolding deleted_def rec_flag_upd_rec
    by (rule ext) (use f in \<open>auto simp: rec_flag_def split: option.splits\<close>)
  ultimately show ?thesis
    using core unfolding fq_core_def refs_ok_def names_of_def upd_rec_sel dom_upd_rec d by blast
qed

lemma ipv4_set_core:
  assumes "fq_core hdl" "ipv4_ok m (dom (q_recs hdl))"
  shows "fq_core (hdl\<lparr>q_ipv4_map := m\<rparr>)" "fq_core (hdl\<lparr>q_ipv4_map := m, q_domain_ips := n\<rparr>)"
  using assms by (simp_all add: fq_core_def refs_ok_def names_of_def deleted_def rec_flag_def)

lemma config_record_keeps:
  assumes "config_record_ip_list ok1 ok2 e rid r = (e', r', ret)"
  shows "v_ip e' = v_ip e" "set (v_rlist e') \<subseteq> insert rid (set (v_rlist e))"
    "f_code r' = f_code r" "f_flag r' = f_flag r" "f_name r' = f_name r"
    "ok1 \<Longrightarrow> ok2 \<Longrightarrow> rid \<in> set (v_rlist e') \<and> v_ip e \<in> set (f_iplist r') \<and> ret \<ge> 0"
  using assms by (auto simp: config_record_ip_list_def Let_def split: if_splits)

lemma fqdn_ipv4_respects: "hash_respects fqdn_ipv4_hash fqdn_ipv4_match"
  by (auto simp: hash_respects_def fqdn_ipv4_match_def)

interpretation ipm: first_match_store rm_sorted rcu_map_init
  "\<lambda>m d k. rcu_map_add m fqdn_ipv4_hash d k"
  "\<lambda>m k. rcu_map_lookup m fqdn_ipv4_hash fqdn_ipv4_match k" fqdn_ipv4_match
  by (rule rcu_first_match[OF fqdn_ipv4_respects])

lemma ipv4_okD:
  "ipv4_ok m live \<Longrightarrow> (h, e) \<in> set m \<Longrightarrow> h = fqdn_ipv4_hash (v_ip e)"
  "ipv4_ok m live \<Longrightarrow> (h, e) \<in> set m \<Longrightarrow> set (v_rlist e) \<subseteq> live"
  "ipv4_ok m live \<Longrightarrow> rm_sorted m" "ipv4_ok m live \<Longrightarrow> distinct (map (v_ip \<circ> snd) m)"
  unfolding ipv4_ok_def by blast+

lemma ipv4_ok_upd:
  assumes ok: "ipv4_ok m live" and e': "\<And>e. v_ip e = ip \<Longrightarrow> v_ip (f e) = ip"
    "\<And>h e. (h, e) \<in> set m \<Longrightarrow> v_ip e = ip \<Longrightarrow> set (v_rlist (f e)) \<subseteq> live"
  shows "ipv4_ok (rcu_map_upd m (\<lambda>x. v_ip x = ip) f) live"
  unfolding ipv4_ok_def
proof (intro conjI ballI)
  have "map (v_ip \<circ> snd) (rcu_map_upd m (\<lambda>x. v_ip x = ip) f) = map (v_ip \<circ> snd) m"
    using e'(1) by (auto simp: rcu_map_upd_def)
  then show "distinct (map (v_ip \<circ> snd) (rcu_map_upd m (\<lambda>x. v_ip x = ip) f))"
    using ipv4_okD(4)[OF ok] by simp
  fix x assume "x \<in> set (rcu_map_upd m (\<lambda>x. v_ip x = ip) f)"
  then obtain h e where x: "x = (h, if v_ip e = ip then f e else e)" "(h, e) \<in> set m"
    by (auto simp: rcu_map_upd_def)
  show "case x of (h, e) \<Rightarrow> h = fqdn_ipv4_hash (v_ip e) \<and> set (v_rlist e) \<subseteq> live"
    using ipv4_okD(1,2)[OF ok x(2)] e'(1)[of e] e'(2)[OF x(2)] unfolding x(1)
    by (cases "v_ip e = ip") simp_all
qed (use ipv4_okD(3)[OF ok] in simp)

lemma map_lfht_add_distinct:
  "distinct (map g (cds_lfht_add m h d)) \<longleftrightarrow> g (h, d) \<notin> g ` set m \<and> distinct (map g m)"
  by (induction m h d rule: cds_lfht_add.induct) auto

lemma ipv4_ok_add:
  assumes "ipv4_ok m live" "v_ip e' \<notin> v_ip ` snd ` set m" "set (v_rlist e') \<subseteq> live"
  shows "ipv4_ok (rcu_map_add m fqdn_ipv4_hash e' (v_ip e')) live"
  using assms by (auto simp: ipv4_ok_def rm_sorted_lfht_add rcu_map_add_def map_lfht_add_distinct)

lemma lookup_ipv4_None:
  assumes ok: "ipv4_ok (q_ipv4_map hdl) live" and "lookup_ipv4 hdl ip = None"
  shows "ip \<notin> v_ip ` snd ` set (q_ipv4_map hdl)"
proof
  assume "ip \<in> v_ip ` snd ` set (q_ipv4_map hdl)"
  then obtain h e where e: "(h, e) \<in> set (q_ipv4_map hdl)" "v_ip e = ip" by auto
  have "find (\<lambda>(h', d). h' = fqdn_ipv4_hash ip \<and> fqdn_ipv4_match d ip) (q_ipv4_map hdl) \<noteq> None"
    unfolding find_None_iff using e ipv4_okD(1)[OF ok e(1)] by (auto simp: fqdn_ipv4_match_def)
  then show False
    using assms(2) ipv4_okD(3)[OF ok] by (simp add: lookup_ipv4_def rcu_map_lookup_def cds_lfht_lookup_find)
qed

lemma lookup_ipv4_Some:
  assumes "lookup_ipv4 hdl ip = Some e"
  shows "(fqdn_ipv4_hash ip, e) \<in> set (q_ipv4_map hdl)" "v_ip e = ip"
  using rcu_map_lookup_SomeD[OF assms[unfolded lookup_ipv4_def]] by (auto simp: fqdn_ipv4_match_def)

text \<open>Two handles agree on everything the deletion and the name lookup depend on.\<close>
definition same_names :: "dpi_fqdn_hdl \<Rightarrow> dpi_fqdn_hdl \<Rightarrow> bool" where
  "same_names a b \<longleftrightarrow> q_name_map a = q_name_map b \<and> q_bm a = q_bm b \<and> q_fresh a = q_fresh b
     \<and> q_del_name_list a = q_del_name_list b \<and> q_del_ipv4_list a = q_del_ipv4_list b
     \<and> q_del_rlist a = q_del_rlist b \<and> q_domains a = q_domains b
     \<and> dom (q_recs a) = dom (q_recs b)
     \<and> (\<forall>rid r r'. q_recs a rid = Some r \<longrightarrow> q_recs b rid = Some r' \<longrightarrow>
          f_name r' = f_name r \<and> f_code r' = f_code r \<and> f_flag r' = f_flag r)"

lemma same_names_refl: "same_names a a"
  by (simp add: same_names_def)

lemma same_names_rec:
  assumes "same_names a b" "q_recs a rid = Some r"
  obtains r' where "q_recs b rid = Some r'" "f_name r' = f_name r" "f_code r' = f_code r"
    "f_flag r' = f_flag r"
proof -
  have "rid \<in> dom (q_recs b)" using assms by (auto simp: same_names_def)
  then obtain r' where r': "q_recs b rid = Some r'" by (auto dest: domD)
  from assms(1) have "\<forall>rid r r'. q_recs a rid = Some r \<longrightarrow> q_recs b rid = Some r' \<longrightarrow>
      f_name r' = f_name r \<and> f_code r' = f_code r \<and> f_flag r' = f_flag r"
    unfolding same_names_def by (elim conjE)
  then show thesis using that[OF r'] assms(2) r' by blast
qed

lemma same_names_trans: "same_names a b \<Longrightarrow> same_names b c \<Longrightarrow> same_names a c"
  unfolding same_names_def by (elim conjE, intro conjI) (simp_all, metis domIff not_None_eq)

lemma link_ip_core:
  assumes core: "fq_core hdl" and rid: "rid \<in> dom (q_recs hdl)"
  obtains hdl' ret where "link_ip ok1 ok2 ok3 hdl rid ip = Some (hdl', ret)"
    "fq_core hdl'" "same_names hdl hdl'"
    "ok1 \<and> ok2 \<and> ok3 \<longrightarrow> ret \<ge> 0 \<and> (\<exists>e. lookup_ipv4 hdl' ip = Some e \<and> rid \<in> set (v_rlist e))"
    "\<forall>ip'. ip' \<noteq> ip \<longrightarrow> lookup_ipv4 hdl' ip' = lookup_ipv4 hdl ip'"
proof -
  obtain r where r: "q_recs hdl rid = Some r" using rid by (auto dest: domD)
  have ok: "ipv4_ok (q_ipv4_map hdl) (dom (q_recs hdl))"
    using core by (rule refs_okD(6))
  show thesis
  proof (cases "lookup_ipv4 hdl ip")
    case (Some e)
    obtain e' r' ret where cfg: "config_record_ip_list ok1 ok2 e rid r = (e', r', ret)"
      by (metis prod_cases3)
    note k = config_record_keeps[OF cfg]
    note e = lookup_ipv4_Some[OF Some]
    let ?m = "rcu_map_upd (q_ipv4_map hdl) (\<lambda>x. v_ip x = ip) (\<lambda>_. e')"
    let ?h = "upd_rec (hdl\<lparr>q_ipv4_map := ?m\<rparr>) rid (\<lambda>_. r')"
    have "ipv4_ok ?m (dom (q_recs hdl))"
      using ok k(1,2) e ipv4_okD(2)[OF ok e(1)] rid by (intro ipv4_ok_upd) auto
    then have "fq_core (hdl\<lparr>q_ipv4_map := ?m\<rparr>)" by (rule ipv4_set_core(1)[OF core])
    then have "fq_core ?h" by (rule upd_rec_core) (use r k in simp)
    moreover have look: "lookup_ipv4 ?h ip' = map_option (\<lambda>d. if v_ip d = ip then e' else d) (lookup_ipv4 hdl ip')"
      for ip' unfolding lookup_ipv4_def upd_rec_sel
      by (simp, rule rcu_map_lookup_upd) (use k(1) e(2) in \<open>auto simp: fqdn_ipv4_match_def\<close>)
    moreover have "lookup_ipv4 ?h ip' = lookup_ipv4 hdl ip'" if "ip' \<noteq> ip" for ip'
      using look[of ip'] that lookup_ipv4_Some(2)[of hdl ip'] by (cases "lookup_ipv4 hdl ip'") auto
    moreover have "same_names hdl ?h"
      using r k by (auto simp: same_names_def upd_rec_def split: if_splits)
    moreover have "link_ip ok1 ok2 ok3 hdl rid ip = Some (?h, ret)"
      using r Some cfg by (simp add: link_ip_def)
    ultimately show thesis
      using that[of ?h ret] k(6) e(2) Some by auto
  next
    case None
    obtain e' r' ret where cfg: "config_record_ip_list ok1 ok2 \<lparr>v_ip = ip, v_rlist = []\<rparr> rid r = (e', r', ret)"
      by (metis prod_cases3)
    note k = config_record_keeps[OF cfg, simplified]
    show thesis
    proof (cases "ok3 \<and> \<not> ret < 0")
      case False
      then have "link_ip ok1 ok2 ok3 hdl rid ip = Some (hdl, -1)"
        using r None cfg by (auto simp: link_ip_def)
      moreover have "\<not> (ok1 \<and> ok2 \<and> ok3)" using False k(6) by auto
      ultimately show thesis using that[of hdl "-1"] core same_names_refl by blast
    next
      case True
      let ?m = "rcu_map_add (q_ipv4_map hdl) fqdn_ipv4_hash e' ip"
      let ?h = "upd_rec (hdl\<lparr>q_ipv4_map := ?m, q_domain_ips := q_domain_ips hdl + 1\<rparr>) rid (\<lambda>_. r')"
      have "ipv4_ok ?m (dom (q_recs hdl))"
        using ipv4_ok_add[OF ok, of e'] lookup_ipv4_None[OF ok None] k(1,2) rid by auto
      then have "fq_core (hdl\<lparr>q_ipv4_map := ?m, q_domain_ips := q_domain_ips hdl + 1\<rparr>)"
        by (rule ipv4_set_core(2)[OF core])
      then have "fq_core ?h" by (rule upd_rec_core) (use r k in simp)
      moreover have "fqdn_ipv4_match e' ip" using k(1) by (simp add: fqdn_ipv4_match_def)
      from ipm.lookup_add[OF ipv4_okD(3)[OF ok] this]
      have look: "lookup_ipv4 ?h ip' = (case lookup_ipv4 hdl ip' of Some x \<Rightarrow> Some x
          | None \<Rightarrow> if ip' = ip then Some e' else None)" for ip'
        using k(1) by (auto simp: lookup_ipv4_def fqdn_ipv4_match_def)
      moreover have "same_names hdl ?h"
        using r k by (auto simp: same_names_def upd_rec_def split: if_splits)
      moreover have "link_ip ok1 ok2 ok3 hdl rid ip = Some (?h, 1)"
        using r None cfg True by (simp add: link_ip_def)
      ultimately show thesis
        using that[of ?h 1] k(6) None by (auto split: option.splits)
    qed
  qed
qed


subsection \<open>Configuring and snooping keep the invariant\<close>

lemma lookup_name_live:
  assumes "fq_core hdl" "lookup_name hdl name = Some rid"
  shows "rid \<in> set (names_of hdl)" "rid \<in> dom (q_recs hdl)"
    "\<exists>r. q_recs hdl rid = Some r \<and> strcaseeq (f_name r) name"
proof -
  from rcu_map_lookup_SomeD[OF assms(2)[unfolded lookup_name_def]]
  have m: "(fqdn_name_hash name, rid) \<in> set (q_name_map hdl)" "fqdn_name_match (q_recs hdl) rid name"
    by auto
  show "rid \<in> set (names_of hdl)" using m(1) by (force simp: names_of_def)
  then show "rid \<in> dom (q_recs hdl)" using refs_okD(3)[OF assms(1)] by simp
  show "\<exists>r. q_recs hdl rid = Some r \<and> strcaseeq (f_name r) name"
    using m(2) by (auto simp: fqdn_name_match_def split: option.splits)
qed

lemma wildcard_flag_bits:
  "FQDN_RECORD_WILDCARD AND FQDN_RECORD_DELETED = 0" "(0::u32) AND FQDN_RECORD_DELETED = 0"
  "FQDN_RECORD_WILDCARD AND FQDN_RECORD_TO_DELETE = 0"
  by (simp_all add: FQDN_RECORD_WILDCARD_def FQDN_RECORD_DELETED_def FQDN_RECORD_TO_DELETE_def)

lemma new_record_core:
  assumes core: "fq_core hdl" and empty: "q_del_name_list hdl = []"
    and n: "n < 2048" "n \<notin> bm_used (q_bm hdl)"
    and bm: "bm_inv bm" "bm_bits bm = 2048" "bm_used bm = insert n (bm_used (q_bm hdl))"
    and r: "f_code r = htonl (word_of_int (int n + 1))" "f_flag r AND FQDN_RECORD_DELETED = 0"
    and hdl'_def: "hdl' = hdl\<lparr>q_bm := bm, q_code_cnt := c, q_recs := (q_recs hdl)(q_fresh hdl \<mapsto> r),
      q_fresh := q_fresh hdl + 1,
      q_name_map := rcu_map_add (q_name_map hdl) fqdn_name_hash (q_fresh hdl) name,
      q_domains := d\<rparr>"
  shows "fq_core hdl'"
proof -
  have fresh: "q_recs hdl (q_fresh hdl) = None"
    using refs_okD(4)[OF core, of "q_fresh hdl"] by auto
  then have "codes_ok bm ((q_recs hdl)(q_fresh hdl \<mapsto> r))"
    using n bm r by (intro codes_ok_new[OF fq_coreD(1)[OF core]])
  moreover have notin: "q_fresh hdl \<notin> set (names_of hdl)" using fresh refs_okD(3)[OF core] by auto
  have set': "set (names_of hdl') = insert (q_fresh hdl) (set (names_of hdl))"
    by (auto simp: names_of_def hdl'_def rcu_map_add_def)
  have "distinct (names_of hdl')"
    using refs_okD(2)[OF core] notin
    by (auto simp: names_of_def hdl'_def rcu_map_add_def map_lfht_add_distinct)
  moreover have del: "deleted hdl' rid \<longleftrightarrow> rid \<in> set (q_del_name_list hdl')"
    if "rid \<in> dom (q_recs hdl')" for rid
    using that r(2) refs_okD(5)[OF core, of rid] empty
    by (auto simp: deleted_def rec_flag_def hdl'_def split: if_splits)
  moreover have "ipv4_ok (q_ipv4_map hdl) (insert (q_fresh hdl) (dom (q_recs hdl)))"
    using refs_okD(6)[OF core] by (fastforce simp: ipv4_ok_def)
  moreover have "dom (q_recs hdl') = insert (q_fresh hdl) (dom (q_recs hdl))"
    by (simp add: hdl'_def)
  moreover have "rid < q_fresh hdl'" if "rid \<in> dom (q_recs hdl')" for rid
    using that refs_okD(4)[OF core, of rid] by (auto simp: hdl'_def intro: less_SucI split: if_splits)
  moreover have "rm_sorted (q_name_map hdl')"
    using refs_okD(1)[OF core] by (simp add: hdl'_def rm_sorted_add)
  ultimately show ?thesis
    using set' refs_okD(3)[OF core] empty unfolding fq_core_def refs_ok_def
    by (simp add: hdl'_def)
qed


lemma fq_invD:
  assumes "fq_inv hdl"
  shows "fq_core hdl" "q_del_name_list hdl = []" "q_del_ipv4_list hdl = []" "q_del_rlist hdl = []"
  using assms by (simp_all add: fq_inv_def)

lemma fq_inv_same: "fq_inv hdl \<Longrightarrow> fq_core hdl' \<Longrightarrow> same_names hdl hdl' \<Longrightarrow> fq_inv hdl'"
  by (simp add: fq_inv_def same_names_def)

lemma upd_rec_inv:
  assumes "fq_inv hdl"
    and "\<And>r. q_recs hdl rid = Some r \<Longrightarrow> f_code (f r) = f_code r \<and>
      (f_flag (f r) AND FQDN_RECORD_DELETED \<noteq> 0 \<longleftrightarrow> f_flag r AND FQDN_RECORD_DELETED \<noteq> 0)"
  shows "fq_inv (upd_rec hdl rid f)"
  using upd_rec_core[OF fq_invD(1)[OF assms(1)] assms(2)] assms(1) by (simp add: fq_inv_def)

lemma live_not_deleted:
  assumes "fq_inv hdl" "q_recs hdl rid = Some r"
  shows "f_flag r AND FQDN_RECORD_DELETED = 0"
  using refs_okD(5)[OF fq_invD(1)[OF assms(1)], of rid] fq_invD(2)[OF assms(1)] assms(2)
  by (auto simp: deleted_def rec_flag_def)

lemma code_not_minus1: "n < 2048 \<Longrightarrow> htonl (word_of_int (int n + 1)) \<noteq> -1"
proof
  assume n: "n < 2048" "htonl (word_of_int (int n + 1)) = -1"
  then have "unat (ntohl (htonl (word_of_int (int n + 1)))) = unat (ntohl (-1))" by (simp only:)
  moreover have "ntohl (-1) = -1"
  proof (rule bit_word_eqI)
    fix n assume "n < LENGTH(32)"
    then have "n < 8 \<or> (8 \<le> n \<and> n < 16) \<or> (16 \<le> n \<and> n < 24) \<or> (24 \<le> n \<and> n < 32)" by auto
    then show "bit (ntohl (-1)) n = bit (-1 :: u32) n"
      by (elim disjE) (auto simp: ntohl_def bit_simps)
  qed
  ultimately show False using unat_code[OF n(1)] n(1) unat_minus_swap[of "1::u32"] by simp
qed

lemma fq_core_code_cnt: "fq_core (hdl\<lparr>q_code_cnt := c\<rparr>) = fq_core hdl"
  by (simp add: fq_core_def refs_ok_def names_of_def deleted_def rec_flag_def)

lemma name_record_inv:
  assumes inv: "fq_inv hdl"
  obtains hdl1 mrid where "name_record ok_e ok_r hdl name = Some (hdl1, mrid)" "fq_inv hdl1"
    "\<And>rid. mrid = Some rid \<Longrightarrow> \<exists>r. q_recs hdl1 rid = Some r \<and>
        (strcaseeq (f_name r) name \<or> f_name r = take (MAX_FQDN_LEN - 1) name)"
    "mrid = None \<Longrightarrow> lookup_name hdl name = None \<and> (\<not> ok_e \<or> \<not> ok_r \<or> card (dom (q_recs hdl)) \<ge> 2048)"
proof (cases "lookup_name hdl name")
  case (Some rid)
  then obtain r where r: "q_recs hdl rid = Some r" "strcaseeq (f_name r) name"
    using lookup_name_live(3)[OF fq_invD(1)[OF inv]] by blast
  let ?f = "\<lambda>r. r\<lparr>f_flag := (if f_flag r AND FQDN_RECORD_WILDCARD \<noteq> 0
                            then FQDN_RECORD_WILDCARD else 0)\<rparr>"
  have "fq_inv (upd_rec hdl rid ?f)"
    using live_not_deleted[OF inv] by (intro upd_rec_inv[OF inv]) (simp add: wildcard_flag_bits)
  moreover have "name_record ok_e ok_r hdl name = Some (upd_rec hdl rid ?f, Some rid)"
    using Some r by (simp add: name_record_def)
  ultimately show thesis using that r by (auto simp: upd_rec_def)
next
  case None
  note core = fq_invD(1)[OF inv]
  show thesis
  proof (cases "ok_e \<and> ok_r")
    case False
    then show thesis using that[of hdl None] None inv by (auto simp: name_record_def)
  next
    case True
    show thesis
    proof (rule alloc_fqdn_code_cases[OF fq_coreD(1)[OF core]])
      assume full: "alloc_fqdn_code hdl = Some (hdl\<lparr>q_code_cnt := -1\<rparr>, -1)"
        "card (dom (q_recs hdl)) \<ge> 2048"
      have "fq_inv (hdl\<lparr>q_code_cnt := -1\<rparr>)"
        using inv by (simp add: fq_inv_def fq_core_code_cnt)
      then show thesis
        using that[of "hdl\<lparr>q_code_cnt := -1\<rparr>" None] None True full by (auto simp: name_record_def)
    next
      fix n bm
      assume n: "alloc_fqdn_code hdl =
          Some (hdl\<lparr>q_bm := bm, q_code_cnt := int n + 1\<rparr>, htonl (word_of_int (int n + 1)))"
        "n < 2048" "bm_inv bm" "bm_bits bm = 2048" "n \<notin> bm_used (q_bm hdl)"
        "bm_used bm = insert n (bm_used (q_bm hdl))"
      let ?nm = "take (MAX_FQDN_LEN - 1) name"
      define r where "r = \<lparr>f_name = ?nm, f_code = htonl (word_of_int (int n + 1)),
           f_flag = (if is_fqdn_name_wildcard ?nm then FQDN_RECORD_WILDCARD else 0),
           f_ip_cnt = 0, f_record_updated = 0, f_iplist = []\<rparr>"
      define h where "h = hdl\<lparr>q_bm := bm, q_code_cnt := int n + 1,
           q_recs := (q_recs hdl)(q_fresh hdl \<mapsto> r), q_fresh := q_fresh hdl + 1,
           q_name_map := rcu_map_add (q_name_map hdl) fqdn_name_hash (q_fresh hdl) name,
           q_domains := q_domains hdl + 1\<rparr>"
      have "fq_core h"
        using n by (intro new_record_core[OF core fq_invD(2)[OF inv] n(2,5,3,4,6) _ _ h_def])
          (simp_all add: r_def wildcard_flag_bits)
      then have "fq_inv h" using inv by (simp add: fq_inv_def h_def)
      moreover have "name_record ok_e ok_r hdl name = Some (h, Some (q_fresh hdl))"
        using None True n(1) code_not_minus1[OF n(2)] by (simp add: name_record_def Let_def h_def r_def)
      ultimately show thesis using that by (auto simp: h_def r_def)
    qed
  qed
qed

lemma config_fqdn_inv:
  assumes inv: "fq_inv hdl"
  obtains hdl' code where "config_fqdn_ipv4_mapping ok_e ok_r ok1 ok2 ok3 hdl name ip = Some (hdl', code)"
    "fq_inv hdl'"
    "code \<noteq> -1 \<Longrightarrow> \<exists>rid r. q_recs hdl' rid = Some r \<and> f_code r = code \<and>
        (strcaseeq (f_name r) name \<or> f_name r = take (MAX_FQDN_LEN - 1) name)"
    "ip \<noteq> 0 \<Longrightarrow> ok1 \<Longrightarrow> ok2 \<Longrightarrow> ok3 \<Longrightarrow> code \<noteq> -1 \<Longrightarrow>
        \<exists>e rid r. lookup_ipv4 hdl' ip = Some e \<and> rid \<in> set (v_rlist e)
          \<and> q_recs hdl' rid = Some r \<and> f_code r = code"
proof -
  obtain hdl1 mrid where 1: "name_record ok_e ok_r hdl name = Some (hdl1, mrid)" "fq_inv hdl1"
    "\<And>rid. mrid = Some rid \<Longrightarrow> \<exists>r. q_recs hdl1 rid = Some r \<and>
        (strcaseeq (f_name r) name \<or> f_name r = take (MAX_FQDN_LEN - 1) name)"
    using name_record_inv[OF inv, of ok_e ok_r name] by metis
  show thesis
  proof (cases mrid)
    case None
    then show thesis using that[of hdl1 "-1"] 1 by (simp add: config_fqdn_ipv4_mapping_def)
  next
    case (Some rid)
    obtain r where r: "q_recs hdl1 rid = Some r"
      "strcaseeq (f_name r) name \<or> f_name r = take (MAX_FQDN_LEN - 1) name" using 1(3) Some by blast
    have live: "rid \<in> dom (q_recs hdl1)" using r(1) by blast
    show thesis
    proof (cases "ip = 0")
      case True
      then show thesis using that[of hdl1 "f_code r"] 1 r Some by (auto simp: config_fqdn_ipv4_mapping_def)
    next
      case False
      obtain hdl2 ret where 2: "link_ip ok1 ok2 ok3 hdl1 rid ip = Some (hdl2, ret)" "fq_core hdl2"
        "same_names hdl1 hdl2" "ok1 \<and> ok2 \<and> ok3 \<longrightarrow>
          ret \<ge> 0 \<and> (\<exists>e. lookup_ipv4 hdl2 ip = Some e \<and> rid \<in> set (v_rlist e))"
        "\<forall>ip'. ip' \<noteq> ip \<longrightarrow> lookup_ipv4 hdl2 ip' = lookup_ipv4 hdl1 ip'"
        by (rule link_ip_core[of hdl1 rid ok1 ok2 ok3 ip, OF fq_invD(1)[OF 1(2)] live])
      obtain r2 where r2: "q_recs hdl2 rid = Some r2" "f_name r2 = f_name r" "f_code r2 = f_code r"
        "f_flag r2 = f_flag r"
        by (rule same_names_rec[OF 2(3) r(1)])
      have "config_fqdn_ipv4_mapping ok_e ok_r ok1 ok2 ok3 hdl name ip = Some (hdl2, f_code r)"
        using 1(1) Some r(1) 2(1) False by (simp add: config_fqdn_ipv4_mapping_def)
      moreover have "fq_inv hdl2" using fq_inv_same[OF 1(2) 2(2,3)] .
      ultimately show thesis using that[of hdl2 "f_code r"] r2 r(2) 2(4) by metis
    qed
  qed
qed


lemma associate_ips_inv:
  assumes "fq_inv hdl" "rid \<in> dom (q_recs hdl)"
  shows "\<exists>hdl' b d. associate_ips ok1 ok2 ok3 hdl rid ips n = Some (hdl', b, d) \<and> fq_inv hdl'
     \<and> same_names hdl hdl'
     \<and> (ok1 \<and> ok2 \<and> ok3 \<longrightarrow> d \<and> (\<forall>ip \<in> set ips. \<exists>e. lookup_ipv4 hdl' ip = Some e \<and> rid \<in> set (v_rlist e)))
     \<and> (\<forall>ip e. lookup_ipv4 hdl ip = Some e \<longrightarrow> rid \<in> set (v_rlist e) \<longrightarrow>
          (ok1 \<and> ok2 \<and> ok3 \<longrightarrow> (\<exists>e. lookup_ipv4 hdl' ip = Some e \<and> rid \<in> set (v_rlist e))))"
  using assms
proof (induction ips arbitrary: hdl n)
  case Nil
  then show ?case by (auto simp: same_names_refl)
next
  case (Cons ip ips)
  obtain r where r: "q_recs hdl rid = Some r" using Cons.prems(2) by (auto dest: domD)
  obtain h ret where h: "link_ip ok1 ok2 ok3 hdl rid ip = Some (h, ret)" "fq_core h" "same_names hdl h"
    "ok1 \<and> ok2 \<and> ok3 \<longrightarrow> ret \<ge> 0 \<and> (\<exists>e. lookup_ipv4 h ip = Some e \<and> rid \<in> set (v_rlist e))"
    "\<forall>ip'. ip' \<noteq> ip \<longrightarrow> lookup_ipv4 h ip' = lookup_ipv4 hdl ip'"
    by (rule link_ip_core[of hdl rid ok1 ok2 ok3 ip, OF fq_invD(1)[OF Cons.prems(1)] Cons.prems(2)])
  have inv: "fq_inv h" using fq_inv_same[OF Cons.prems(1) h(2,3)] .
  have "rid \<in> dom (q_recs h)" using h(3) Cons.prems(2) by (simp add: same_names_def)
  from Cons.IH[OF inv this, of "n \<or> ret = 1 \<and> f_flag r AND FQDN_RECORD_WILDCARD \<noteq> 0"]
  obtain h' b d where h': "associate_ips ok1 ok2 ok3 h rid ips
      (n \<or> ret = 1 \<and> f_flag r AND FQDN_RECORD_WILDCARD \<noteq> 0) = Some (h', b, d)" "fq_inv h'"
    "same_names h h'"
    "ok1 \<and> ok2 \<and> ok3 \<longrightarrow> d \<and> (\<forall>ip \<in> set ips. \<exists>e. lookup_ipv4 h' ip = Some e \<and> rid \<in> set (v_rlist e))"
    "\<And>ip e. lookup_ipv4 h ip = Some e \<Longrightarrow> rid \<in> set (v_rlist e) \<Longrightarrow> ok1 \<and> ok2 \<and> ok3 \<Longrightarrow>
       \<exists>e. lookup_ipv4 h' ip = Some e \<and> rid \<in> set (v_rlist e)" by blast
  show ?case
  proof (cases "ret < 0 \<and> lookup_ipv4 hdl ip = None")
    case True
    then have "\<not> (ok1 \<and> ok2 \<and> ok3)" using h(4) by auto
    then show ?thesis using True r h(1) inv h(3) by auto
  next
    case False
    then have "associate_ips ok1 ok2 ok3 hdl rid (ip # ips) n = Some (h', b, d)"
      using r h(1) h'(1) by auto
    moreover have "same_names hdl h'" using same_names_trans[OF h(3) h'(3)] .
    moreover have "\<exists>e. lookup_ipv4 h' ip = Some e \<and> rid \<in> set (v_rlist e)" if "ok1 \<and> ok2 \<and> ok3"
      using h(4) h'(5) that by blast
    moreover have "\<exists>e. lookup_ipv4 h' ip' = Some e \<and> rid \<in> set (v_rlist e)"
      if "ok1 \<and> ok2 \<and> ok3" "lookup_ipv4 hdl ip' = Some e" "rid \<in> set (v_rlist e)" for ip' e
      using h(4,5) h'(5) that by (cases "ip' = ip") (metis, metis)
    ultimately show ?thesis using h'(2,4) by auto
  qed
qed

lemma associate_ip_record_inv:
  assumes "fq_inv hdl" "rid \<in> dom (q_recs hdl)"
  obtains hdl' ret where "associate_ip_record ok1 ok2 ok3 hdl rid ips = Some (hdl', ret)" "fq_inv hdl'"
    "same_names hdl hdl'"
    "ok1 \<and> ok2 \<and> ok3 \<longrightarrow> (\<forall>ip \<in> set ips. \<exists>e. lookup_ipv4 hdl' ip = Some e \<and> rid \<in> set (v_rlist e))"
proof -
  obtain h b d where h: "associate_ips ok1 ok2 ok3 hdl rid ips False = Some (h, b, d)" "fq_inv h"
    "same_names hdl h"
    "ok1 \<and> ok2 \<and> ok3 \<longrightarrow> d \<and> (\<forall>ip \<in> set ips. \<exists>e. lookup_ipv4 h ip = Some e \<and> rid \<in> set (v_rlist e))"
    using associate_ips_inv[OF assms, of ok1 ok2 ok3 ips False] by blast
  let ?h = "upd_rec h rid (\<lambda>r. r\<lparr>f_record_updated := 1\<rparr>)"
  define h' where "h' = (if d \<and> b then ?h else h)"
  have "fq_inv ?h" by (rule upd_rec_inv[OF h(2)]) simp
  then have inv: "fq_inv h'" using h(2) by (simp add: h'_def)
  have "same_names h ?h" by (auto simp: same_names_def upd_rec_def split: if_splits)
  then have "same_names h h'" using same_names_refl by (simp add: h'_def)
  then have same: "same_names hdl h'" by (rule same_names_trans[OF h(3)])
  have look: "lookup_ipv4 h' ip = lookup_ipv4 h ip" for ip by (simp add: lookup_ipv4_def h'_def)
  have "associate_ip_record ok1 ok2 ok3 hdl rid ips = Some (h', if d then 0 else -1)"
    using h(1) by (simp add: associate_ip_record_def h'_def)
  then show thesis by (rule that[OF _ inv same]) (simp add: look h(4))
qed

lemma snoop_one_inv:
  assumes inv: "fq_inv hdl"
  obtains hdl' where "snoop_one ok1 ok2 ok3 hdl name ips = Some hdl'" "fq_inv hdl'" "same_names hdl hdl'"
proof (cases "lookup_name hdl name")
  case None
  then show thesis using that[of hdl] inv same_names_refl by (simp add: snoop_one_def)
next
  case (Some rid)
  note live = lookup_name_live(2)[OF fq_invD(1)[OF inv] Some]
  obtain r where r: "q_recs hdl rid = Some r" using live by (auto dest: domD)
  obtain h ret where "associate_ip_record ok1 ok2 ok3 hdl rid ips = Some (h, ret)" "fq_inv h"
    "same_names hdl h"
    "ok1 \<and> ok2 \<and> ok3 \<longrightarrow> (\<forall>ip \<in> set ips. \<exists>e. lookup_ipv4 h ip = Some e \<and> rid \<in> set (v_rlist e))"
    by (rule associate_ip_record_inv[of hdl rid ok1 ok2 ok3 ips, OF inv live])
  then show thesis
    using that[of hdl] that[of h] inv same_names_refl Some r
    by (cases "f_flag r AND (FQDN_RECORD_TO_DELETE OR FQDN_RECORD_DELETED) \<noteq> 0")
      (auto simp: snoop_one_def)
qed

lemma snoop_loop_inv:
  assumes "fq_inv hdl"
  shows "\<exists>hdl'. snoop_loop ok1 ok2 ok3 dname ips is hdl = Some hdl' \<and> fq_inv hdl' \<and> same_names hdl hdl'"
  using assms
proof (induction "is" arbitrary: dname hdl)
  case Nil
  then show ?case by (simp add: same_names_refl)
next
  case (Cons i "is")
  show ?case
  proof (cases "dname ! (i + 1) = 46")
    case False
    then show ?thesis using Cons by simp
  next
    case True
    obtain h where h: "snoop_one ok1 ok2 ok3 hdl (drop i (dname[i := 42])) ips = Some h" "fq_inv h"
      "same_names hdl h" by (rule snoop_one_inv[OF Cons.prems])
    from Cons.IH[OF h(2), of "dname[i := 42]"] show ?thesis
      using True h(1) same_names_trans[OF h(3)] by auto
  qed
qed

lemma snooped_inv:
  assumes "fq_inv hdl"
  shows "\<exists>hdl'. snooped_fqdn_ipv4_mapping ok1 ok2 ok3 hdl name ips = Some hdl' \<and> fq_inv hdl'
    \<and> same_names hdl hdl'"
proof -
  obtain h where h: "snoop_one ok1 ok2 ok3 hdl (map lower_c name) ips = Some h" "fq_inv h"
    "same_names hdl h" by (rule snoop_one_inv[OF assms])
  show ?thesis
    using snoop_loop_inv[OF h(2)] h(1) same_names_trans[OF h(3)]
    by (fastforce simp: snooped_fqdn_ipv4_mapping_def Let_def)
qed

lemma mark_delete_inv: "fq_inv hdl \<Longrightarrow> fq_inv (dpi_fqdn_entry_mark_delete hdl name)"
  unfolding dpi_fqdn_entry_mark_delete_def
  by (auto intro!: upd_rec_inv split: option.splits
      simp: FQDN_RECORD_TO_DELETE_def FQDN_RECORD_DELETED_def bit.conj_disj_distrib2)

end
