(* ===== verification/DP_FqdnDel.thy ===== *)
theory DP_FqdnDel
  imports DP_FqdnInv
begin

text \<open>
  Deletion of the marked FQDN records: both table walks, the bounded queues and the two loops of
  \<open>dpi_fqdn_entry_delete_marked\<close>. The loops end, no freed record stays referenced, and exactly the
  marked records go.
\<close>

text \<open>What a walk never changes of the records: which exist, their names, codes and marks.\<close>
definition same_recs :: "dpi_fqdn_hdl \<Rightarrow> dpi_fqdn_hdl \<Rightarrow> bool" where
  "same_recs a b \<longleftrightarrow> dom (q_recs a) = dom (q_recs b) \<and> marked a = marked b \<and> q_fresh a = q_fresh b
     \<and> (\<forall>rid. map_option f_name (q_recs a rid) = map_option f_name (q_recs b rid)
          \<and> map_option f_code (q_recs a rid) = map_option f_code (q_recs b rid))"

lemma same_recs_refl: "same_recs a a"
  by (simp add: same_recs_def)

lemma same_recs_trans: "same_recs a b \<Longrightarrow> same_recs b c \<Longrightarrow> same_recs a c"
  by (simp add: same_recs_def)

subsection \<open>The walk over the names\<close>

lemma flag_bits:
  "(w OR FQDN_RECORD_DELETED) AND FQDN_RECORD_TO_DELETE = w AND FQDN_RECORD_TO_DELETE"
  "(w OR FQDN_RECORD_DELETED) AND FQDN_RECORD_DELETED \<noteq> 0"
  by (simp_all add: FQDN_RECORD_TO_DELETE_def FQDN_RECORD_DELETED_def bit.conj_disj_distrib2)

lemma filter_snd_names:
  "map snd (filter (\<lambda>(h, d). d \<noteq> rid) m) = filter (\<lambda>d. d \<noteq> rid) (map snd m)"
  by (induction m) auto

lemma distinct_filter_length:
  "distinct xs \<Longrightarrow> x \<in> set xs \<Longrightarrow> length (filter (\<lambda>d. d \<noteq> x) xs) + 1 = length xs"
proof (induction xs)
  case (Cons y ys)
  show ?case
  proof (cases "x = y")
    case True
    then have "filter (\<lambda>d. d \<noteq> x) ys = ys" using Cons.prems by (intro filter_True) auto
    then show ?thesis using True by simp
  next
    case False
    then show ?thesis using Cons by auto
  qed
qed simp

lemma check_name_step:
  assumes core: "fq_core hdl" and rid: "rid \<in> set (names_of hdl)" and m: "marked hdl rid"
    and room: "length (q_del_name_list hdl) < 32"
  obtains hdl' where "check_fqdn_name_entry rid (hdl, mo) = ((hdl', mo), False)" "fq_core hdl'"
    "names_of hdl' = filter (\<lambda>d. d \<noteq> rid) (names_of hdl)"
    "q_del_name_list hdl' = q_del_name_list hdl @ [rid]" "same_recs hdl hdl'"
    "q_ipv4_map hdl' = q_ipv4_map hdl" "q_del_ipv4_list hdl' = q_del_ipv4_list hdl"
    "q_del_rlist hdl' = q_del_rlist hdl"
proof -
  define f where "f = (\<lambda>r::fqdn_record. r\<lparr>f_flag := f_flag r OR FQDN_RECORD_DELETED\<rparr>)"
  define h where "h = (upd_rec hdl rid f)\<lparr>q_del_name_list := q_del_name_list hdl @ [rid],
     q_name_map := filter (\<lambda>(h, d). d \<noteq> rid) (q_name_map hdl)\<rparr>"
  have step: "check_fqdn_name_entry rid (hdl, mo) = ((h, mo), False)"
    using m room
    by (simp add: check_fqdn_name_entry_def marked_def enqueue_fqdn_name_to_del_def h_def f_def
        rcu_map_del_def DPI_FQDN_DELETE_QLEN_def)
  have names: "names_of h = filter (\<lambda>d. d \<noteq> rid) (names_of hdl)"
    by (simp add: h_def names_of_def filter_snd_names)
  have recs: "q_recs h = q_recs (upd_rec hdl rid f)" by (simp add: h_def)
  have dom: "dom (q_recs h) = dom (q_recs hdl)" unfolding recs by simp
  have live: "rid \<in> dom (q_recs hdl)" using rid refs_okD(3)[OF core] by simp
  have flag: "rec_flag h x = (if x = rid then rec_flag hdl x OR FQDN_RECORD_DELETED else rec_flag hdl x)" for x
    using live by (auto simp: rec_flag_def recs upd_rec_def f_def)
  have "marked h = marked hdl" by (rule ext) (simp add: marked_def flag flag_bits)
  then have same: "same_recs hdl h"
    unfolding same_recs_def dom
    by (simp add: recs upd_rec_def f_def option.map_comp comp_def) (simp add: h_def)
  have nodel: "rid \<notin> set (q_del_name_list hdl)" using refs_okD(2)[OF core] rid by auto
  have "codes_ok (q_bm h) (q_recs h)"
    unfolding recs
    by (simp add: h_def, rule codes_ok_cong[OF fq_coreD(1)[OF core] dom_upd_rec])
      (auto simp: upd_rec_def f_def split: if_splits)
  moreover have "refs_ok h"
    unfolding refs_ok_def
  proof (intro conjI ballI)
    show "rm_sorted (q_name_map h)"
      using refs_okD(1)[OF core] by (simp add: h_def rm_sorted_filter)
    show "distinct (names_of h @ q_del_name_list h)"
      unfolding names using refs_okD(2)[OF core] nodel by (auto simp: h_def)
    show "dom (q_recs h) = set (names_of h @ q_del_name_list h)"
      unfolding dom names refs_okD(3)[OF core] using rid by (auto simp: h_def)
    show "ipv4_ok (q_ipv4_map h) (dom (q_recs h))"
      unfolding dom using refs_okD(6)[OF core] by (simp add: h_def)
    fix x assume x: "x \<in> dom (q_recs h)"
    show "x < q_fresh h" using x dom refs_okD(4)[OF core] by (auto simp: h_def)
    show "deleted h x = (x \<in> set (q_del_name_list h))"
      using x dom refs_okD(5)[OF core, of x] unfolding deleted_def flag
      by (auto simp: flag_bits) (auto simp: h_def FQDN_RECORD_DELETED_def)
  qed
  ultimately have "fq_core h" by (simp add: fq_core_def)
  then show thesis using that[of h] step names same by (simp add: h_def)
qed

text \<open>What the walk over the entries \<open>m\<close> of the name table leaves.\<close>
definition name_walk_post :: "dpi_fqdn_hdl \<Rightarrow> nat rcu_map \<Rightarrow> dpi_fqdn_hdl \<Rightarrow> bool \<Rightarrow> bool" where
  "name_walk_post hdl m hdl' mo \<longleftrightarrow> fq_core hdl' \<and> same_recs hdl hdl' \<and> q_ipv4_map hdl' = q_ipv4_map hdl
     \<and> q_del_ipv4_list hdl' = q_del_ipv4_list hdl \<and> q_del_rlist hdl' = q_del_rlist hdl
     \<and> length (names_of hdl') + length (q_del_name_list hdl') = length (names_of hdl) + length (q_del_name_list hdl)
     \<and> (\<forall>rid \<in> set (q_del_name_list hdl') - set (q_del_name_list hdl). marked hdl rid)
     \<and> set (names_of hdl') \<subseteq> set (names_of hdl)
     \<and> (mo \<longrightarrow> length (q_del_name_list hdl') = 32)
     \<and> (\<not> mo \<longrightarrow> (\<forall>rid \<in> snd ` set m. marked hdl rid \<longrightarrow> rid \<notin> set (names_of hdl')))"

lemma name_walk_post_skip:
  "name_walk_post hdl m hdl' mo \<Longrightarrow> \<not> marked hdl rid \<Longrightarrow> name_walk_post hdl ((h, rid) # m) hdl' mo"
  by (simp add: name_walk_post_def)

lemma name_walk_post_step:
  assumes "name_walk_post h m h' mo" "names_of h = filter (\<lambda>d. d \<noteq> rid) (names_of hdl)"
    "q_del_name_list h = q_del_name_list hdl @ [rid]" "same_recs hdl h" "marked hdl rid"
    "q_ipv4_map h = q_ipv4_map hdl" "q_del_ipv4_list h = q_del_ipv4_list hdl"
    "q_del_rlist h = q_del_rlist hdl" "length (names_of h) + 1 = length (names_of hdl)"
  shows "name_walk_post hdl ((hh, rid) # m) h' mo"
proof -
  have mk: "marked h = marked hdl" using assms(4) by (simp add: same_recs_def)
  have "rid \<notin> set (names_of h')" using assms(1,2) by (auto simp: name_walk_post_def)
  moreover have "same_recs hdl h'"
    using assms(1) same_recs_trans[OF assms(4)] by (simp add: name_walk_post_def)
  ultimately show ?thesis
    using assms(1,5-) unfolding name_walk_post_def assms(2,3) mk by auto
qed

lemma name_walk:
  assumes "fq_core hdl" "distinct (map snd m)" "set (map snd m) \<subseteq> set (names_of hdl)"
    "length (q_del_name_list hdl) \<le> 32"
  shows "\<exists>hdl' mo. rcu_map_for_each m check_fqdn_name_entry (hdl, False) = (hdl', mo)
     \<and> name_walk_post hdl m hdl' mo"
  using assms
proof (induction m arbitrary: hdl)
  case Nil
  then show ?case by (auto simp: same_recs_refl name_walk_post_def)
next
  case (Cons x m)
  obtain hh rid where x: "x = (hh, rid)" by (cases x)
  have rid: "rid \<in> set (names_of hdl)" "rid \<notin> set (map snd m)" using Cons.prems(2,3) x by auto
  show ?case
  proof (cases "marked hdl rid")
    case False
    then have "check_fqdn_name_entry rid (hdl, False) = ((hdl, False), False)"
      by (simp add: check_fqdn_name_entry_def marked_def)
    moreover have "\<exists>hdl' mo. rcu_map_for_each m check_fqdn_name_entry (hdl, False) = (hdl', mo)
        \<and> name_walk_post hdl m hdl' mo"
      using Cons.prems by (intro Cons.IH) auto
    ultimately show ?thesis using name_walk_post_skip[OF _ False] x by fastforce
  next
    case True
    show ?thesis
    proof (cases "length (q_del_name_list hdl) = 32")
      case full: True
      then have "check_fqdn_name_entry rid (hdl, False) = ((hdl, True), True)"
        using True by (simp add: check_fqdn_name_entry_def marked_def enqueue_fqdn_name_to_del_def
            DPI_FQDN_DELETE_QLEN_def)
      then show ?thesis using x full Cons.prems(1) by (auto simp: same_recs_refl name_walk_post_def)
    next
      case False
      then have "length (q_del_name_list hdl) < 32" using Cons.prems(4) by simp
      from check_name_step[OF Cons.prems(1) rid(1) True this, of False]
      obtain h where h: "check_fqdn_name_entry rid (hdl, False) = ((h, False), False)" "fq_core h"
        "names_of h = filter (\<lambda>d. d \<noteq> rid) (names_of hdl)"
        "q_del_name_list h = q_del_name_list hdl @ [rid]" "same_recs hdl h"
        "q_ipv4_map h = q_ipv4_map hdl" "q_del_ipv4_list h = q_del_ipv4_list hdl"
        "q_del_rlist h = q_del_rlist hdl" by metis
      have sub: "set (map snd m) \<subseteq> set (names_of h)" using Cons.prems(3) rid(2) h(3) x by auto
      have dist: "distinct (map snd m)" using Cons.prems(2) by simp
      have len: "length (q_del_name_list h) \<le> 32" using h(4) False Cons.prems(4) by simp
      have cnt: "length (names_of h) + 1 = length (names_of hdl)"
        unfolding h(3) using refs_okD(2)[OF Cons.prems(1)] rid(1) by (intro distinct_filter_length) auto
      from Cons.IH[OF h(2) dist sub len] obtain h' mo where h':
        "rcu_map_for_each m check_fqdn_name_entry (h, False) = (h', mo)" "name_walk_post h m h' mo"
        by blast
      have "name_walk_post hdl (x # m) h' mo"
        unfolding x by (rule name_walk_post_step[OF h'(2) h(3,4,5) True h(6-8) cnt])
      moreover have "rcu_map_for_each (x # m) check_fqdn_name_entry (hdl, False) = (h', mo)"
        using x h(1) h'(1) by simp
      ultimately show ?thesis by blast
    qed
  qed
qed


subsection \<open>The walk over the addresses\<close>

text \<open>No entry of a list of address entries refers to a record flagged as deleted.\<close>
definition clean :: "dpi_fqdn_hdl \<Rightarrow> fqdn_ipv4_entry rcu_map \<Rightarrow> bool" where
  "clean hdl m \<longleftrightarrow> (\<forall>(h, e) \<in> set m. \<forall>rid \<in> set (v_rlist e). \<not> deleted hdl rid)"

lemma upd_one:
  assumes "distinct (map (v_ip \<circ> snd) (pre @ (h, e) # m))" "v_ip (f e) = v_ip e"
  shows "rcu_map_upd (pre @ (h, e) # m) (\<lambda>x. v_ip x = v_ip e) f = pre @ (h, f e) # m"
proof -
  have other: "map (\<lambda>(h, d). (h, if v_ip d = v_ip e then f d else d)) xs = xs"
    if "v_ip e \<notin> v_ip ` snd ` set xs" for xs
    using that by (induction xs) auto
  show ?thesis
    using assms other[of pre] other[of m] by (auto simp: rcu_map_upd_def image_comp)
qed

lemma del_one:
  assumes "distinct (map (v_ip \<circ> snd) (pre @ (h, e) # m))" "v_ip e' = v_ip e"
  shows "filter (\<lambda>(h, d). v_ip d \<noteq> v_ip e) (pre @ (h, e') # m) = pre @ m"
proof -
  have "filter (\<lambda>(h, d). v_ip d \<noteq> v_ip e) xs = xs" if "v_ip e \<notin> v_ip ` snd ` set xs" for xs
    using that by (induction xs) auto
  from this[of pre] this[of m] show ?thesis using assms by (auto simp: image_comp)
qed

text \<open>Only the address table, its queues and its counter differ.\<close>
definition ip_only :: "dpi_fqdn_hdl \<Rightarrow> dpi_fqdn_hdl \<Rightarrow> bool" where
  "ip_only a b \<longleftrightarrow> q_name_map b = q_name_map a \<and> q_bm b = q_bm a \<and> q_recs b = q_recs a
     \<and> q_fresh b = q_fresh a \<and> q_del_name_list b = q_del_name_list a"

text \<open>What the walk leaves.\<close>
definition ip_walk_post :: "dpi_fqdn_hdl \<Rightarrow> dpi_fqdn_hdl \<Rightarrow> bool \<Rightarrow> bool" where
  "ip_walk_post hdl hdl' mo \<longleftrightarrow> fq_core hdl'
     \<and> ip_only hdl hdl'
     \<and> length (q_ipv4_map hdl') + length (q_del_ipv4_list hdl')
         = length (q_ipv4_map hdl) + length (q_del_ipv4_list hdl)
     \<and> length (q_del_ipv4_list hdl') \<le> 32
     \<and> (mo \<longrightarrow> length (q_del_ipv4_list hdl') = 32) \<and> (\<not> mo \<longrightarrow> clean hdl' (q_ipv4_map hdl'))"

lemma fq_core_ipv4:
  assumes "fq_core hdl" "ipv4_ok m (dom (q_recs hdl))"
  shows "fq_core (hdl\<lparr>q_ipv4_map := m, q_del_ipv4_list := q, q_del_rlist := r\<rparr>)"
  using assms by (simp add: fq_core_def refs_ok_def names_of_def deleted_def rec_flag_def)

lemma ipv4_ok_sub:
  assumes "ipv4_ok (pre @ (h, e) # m) live"
  shows "ipv4_ok (pre @ m) live"
    "set rest \<subseteq> set (v_rlist e) \<Longrightarrow> ipv4_ok (pre @ (h, e\<lparr>v_rlist := rest\<rparr>) # m) live"
  using assms by (auto simp: ipv4_ok_def rm_sorted_def sorted_append)

lemma deleted_ipv4 [simp]:
  "deleted (hdl\<lparr>q_ipv4_map := m, q_del_ipv4_list := q, q_del_rlist := r\<rparr>) = deleted hdl"
  "deleted (hdl\<lparr>q_ipv4_map := m, q_del_ipv4_list := q, q_del_rlist := r, q_domain_ips := d\<rparr>) = deleted hdl"
  "deleted (hdl\<lparr>q_ipv4_map := m, q_del_rlist := r\<rparr>) = deleted hdl"
  "rec_flag (hdl\<lparr>q_ipv4_map := m, q_del_ipv4_list := q, q_del_rlist := r\<rparr>) = rec_flag hdl"
  by (auto simp: deleted_def rec_flag_def fun_eq_iff)

lemma ip_walk:
  assumes "fq_core hdl" "q_ipv4_map hdl = pre @ m" "clean hdl pre" "length (q_del_ipv4_list hdl) \<le> 32"
  shows "\<exists>hdl' mo. rcu_map_for_each m check_fqdn_ipv4_entry (hdl, False) = (hdl', mo) \<and> ip_walk_post hdl hdl' mo"
  using assms
proof (induction m arbitrary: hdl pre)
  case Nil
  then show ?case by (auto simp: ip_walk_post_def ip_only_def)
next
  case (Cons x m)
  obtain h e where x: "x = (h, e)" by (cases x)
  let ?gone = "filter (\<lambda>rid. rec_flag hdl rid AND FQDN_RECORD_DELETED \<noteq> 0) (v_rlist e)"
  let ?rest = "filter (\<lambda>rid. rec_flag hdl rid AND FQDN_RECORD_DELETED = 0) (v_rlist e)"
  let ?e = "e\<lparr>v_rlist := ?rest\<rparr>"
  have ok: "ipv4_ok (pre @ (h, e) # m) (dom (q_recs hdl))"
    using refs_okD(6)[OF Cons.prems(1)] Cons.prems(2) x by simp
  note dist = ipv4_okD(4)[OF ok]
  have upd: "rcu_map_upd (q_ipv4_map hdl) (\<lambda>x. v_ip x = v_ip e) (\<lambda>x. x\<lparr>v_rlist := ?rest\<rparr>)
      = pre @ (h, ?e) # m"
    unfolding Cons.prems(2) x using upd_one[OF dist, of "\<lambda>x. x\<lparr>v_rlist := ?rest\<rparr>"] by simp
  have ok': "ipv4_ok (pre @ (h, ?e) # m) (dom (q_recs hdl))"
    by (rule ipv4_ok_sub(2)[OF ok]) auto
  have clean_e: "clean hdl [(h, ?e)]" by (auto simp: clean_def deleted_def)
  show ?case
  proof (cases "?rest = []")
    case False
    let ?h = "hdl\<lparr>q_ipv4_map := pre @ (h, ?e) # m, q_del_ipv4_list := q_del_ipv4_list hdl,
        q_del_rlist := q_del_rlist hdl @ ?gone\<rparr>"
    have "check_fqdn_ipv4_entry e (hdl, False) = ((?h, False), False)"
      using False upd by (simp add: check_fqdn_ipv4_entry_def Let_def)
    moreover have "\<exists>hdl' mo. rcu_map_for_each m check_fqdn_ipv4_entry (?h, False) = (hdl', mo)
        \<and> ip_walk_post ?h hdl' mo"
    proof (rule Cons.IH[of ?h "pre @ [(h, ?e)]"])
      show "fq_core ?h" using Cons.prems(1) ok' by (rule fq_core_ipv4)
      show "clean ?h (pre @ [(h, ?e)])" using Cons.prems(3) clean_e by (auto simp: clean_def)
    qed (use Cons.prems(4) in simp_all)
    moreover have "ip_walk_post hdl hdl' mo" if "ip_walk_post ?h hdl' mo" for hdl' mo
      using that Cons.prems(2) x by (auto simp: ip_walk_post_def ip_only_def)
    ultimately show ?thesis using x by fastforce
  next
    case True
    show ?thesis
    proof (cases "length (q_del_ipv4_list hdl) = 32")
      case full: True
      let ?h = "hdl\<lparr>q_ipv4_map := pre @ (h, ?e) # m, q_del_ipv4_list := q_del_ipv4_list hdl,
          q_del_rlist := q_del_rlist hdl @ ?gone\<rparr>"
      have "check_fqdn_ipv4_entry e (hdl, False) = ((?h, True), True)"
        using True upd full
        by (simp add: check_fqdn_ipv4_entry_def Let_def enqueue_fqdn_ipv4_to_del_def DPI_FQDN_DELETE_QLEN_def)
      moreover have "ip_walk_post hdl ?h True"
        using fq_core_ipv4[OF Cons.prems(1) ok'] Cons.prems(2) x full unfolding ip_walk_post_def
        by (intro conjI) (blast, simp_all add: ip_only_def)
      ultimately show ?thesis using x by auto
    next
      case False
      let ?h = "hdl\<lparr>q_ipv4_map := pre @ m, q_del_ipv4_list := q_del_ipv4_list hdl @ [v_ip e],
          q_del_rlist := q_del_rlist hdl @ ?gone\<rparr>"
      have del: "filter (\<lambda>(h, d). v_ip d \<noteq> v_ip e) (pre @ (h, ?e) # m) = pre @ m"
        by (rule del_one[OF dist]) simp
      have "check_fqdn_ipv4_entry e (hdl, False) = ((?h, False), False)"
        using True upd del False
        by (simp add: check_fqdn_ipv4_entry_def Let_def enqueue_fqdn_ipv4_to_del_def
            DPI_FQDN_DELETE_QLEN_def rcu_map_del_def)
      moreover have "\<exists>hdl' mo. rcu_map_for_each m check_fqdn_ipv4_entry (?h, False) = (hdl', mo)
          \<and> ip_walk_post ?h hdl' mo"
      proof (rule Cons.IH[of ?h pre])
        show "fq_core ?h" using Cons.prems(1) ipv4_ok_sub(1)[OF ok] by (rule fq_core_ipv4)
        show "clean ?h pre" using Cons.prems(3) by (auto simp: clean_def)
      qed (use Cons.prems(4) False in simp_all)
      moreover have "ip_walk_post hdl hdl' mo" if "ip_walk_post ?h hdl' mo" for hdl' mo
        using that Cons.prems(2) x by (auto simp: ip_walk_post_def ip_only_def)
      ultimately show ?thesis using x by fastforce
    qed
  qed
qed


lemma ip_only_deleted: "ip_only a b \<Longrightarrow> deleted b = deleted a" "ip_only a b \<Longrightarrow> marked b = marked a"
  by (auto simp: ip_only_def deleted_def marked_def rec_flag_def fun_eq_iff)

lemma ip_only_trans: "ip_only a b \<Longrightarrow> ip_only b c \<Longrightarrow> ip_only a c"
  by (simp add: ip_only_def)

lemma free_fqdn_ipv4_core:
  assumes "fq_core hdl"
  shows "fq_core (free_fqdn_ipv4 hdl)" "ip_only hdl (free_fqdn_ipv4 hdl)"
    "q_ipv4_map (free_fqdn_ipv4 hdl) = q_ipv4_map hdl" "q_del_ipv4_list (free_fqdn_ipv4 hdl) = []"
    "deleted (free_fqdn_ipv4 hdl) = deleted hdl"
  using assms by (auto simp: free_fqdn_ipv4_def fq_core_def refs_ok_def names_of_def deleted_def
      rec_flag_def ip_only_def)

lemma purge_ipv4_spec:
  assumes "fq_core hdl" "q_del_ipv4_list hdl = []" "length (q_ipv4_map hdl) < n"
  shows "\<exists>hdl'. purge_ipv4 n hdl = Some hdl' \<and> fq_core hdl' \<and> ip_only hdl hdl'
     \<and> q_del_ipv4_list hdl' = [] \<and> clean hdl' (q_ipv4_map hdl')"
  using assms
proof (induction n arbitrary: hdl)
  case (Suc n)
  obtain h mo where h: "rcu_map_for_each (q_ipv4_map hdl) check_fqdn_ipv4_entry (hdl, False) = (h, mo)"
    "ip_walk_post hdl h mo"
    using ip_walk[OF Suc.prems(1), of "[]" "q_ipv4_map hdl"] Suc.prems(2) by (auto simp: clean_def)
  define h2 where "h2 = (if q_del_ipv4_list h \<noteq> [] then free_fqdn_ipv4 h else h)"
  have core: "fq_core h" and only: "ip_only hdl h" using h(2) by (simp_all add: ip_walk_post_def)
  have h2: "fq_core h2" "ip_only hdl h2" "q_ipv4_map h2 = q_ipv4_map h" "q_del_ipv4_list h2 = []"
    "deleted h2 = deleted h"
    using free_fqdn_ipv4_core[OF core] core only ip_only_trans[OF only] by (auto simp: h2_def)
  have run: "purge_ipv4 (Suc n) hdl = (if mo then purge_ipv4 n h2 else Some h2)"
    using h(1) by (simp add: h2_def)
  show ?case
  proof (cases mo)
    case True
    then have "length (q_ipv4_map h2) < n"
      using h(2) h2(3) Suc.prems(2,3) by (simp add: ip_walk_post_def)
    from Suc.IH[OF h2(1,4) this] show ?thesis using run True ip_only_trans[OF h2(2)] by auto
  next
    case False
    then have "clean h2 (q_ipv4_map h2)"
      using h(2) h2(3,5) by (simp add: ip_walk_post_def clean_def)
    then show ?thesis using run False h2 by auto
  qed
qed simp

subsection \<open>Freeing the queued records\<close>

lemma free_names_spec:
  assumes "codes_ok (q_bm hdl) (q_recs hdl)" "distinct rids" "set rids \<subseteq> dom (q_recs hdl)"
  shows "\<exists>bm d. free_names rids hdl = Some (hdl\<lparr>q_bm := bm,
      q_recs := (\<lambda>x. if x \<in> set rids then None else q_recs hdl x), q_domains := d\<rparr>)
    \<and> codes_ok bm (\<lambda>x. if x \<in> set rids then None else q_recs hdl x)"
  using assms
proof (induction rids arbitrary: hdl)
  case Nil
  then show ?case by (intro exI[of _ "q_bm hdl"] exI[of _ "q_domains hdl"]) simp
next
  case (Cons rid rids)
  obtain r where r: "q_recs hdl rid = Some r" using Cons.prems(3) by (auto dest: domD)
  obtain bm where bm: "free_fqdn_code hdl (f_code r) = Some (hdl\<lparr>q_bm := bm\<rparr>)"
    "codes_ok bm ((q_recs hdl)(rid := None))"
    by (rule codes_ok_free[OF Cons.prems(1) r])
  let ?h = "hdl\<lparr>q_bm := bm, q_recs := (q_recs hdl)(rid := None), q_domains := q_domains hdl - 1\<rparr>"
  have ih: "\<exists>bm d. free_names rids ?h = Some (?h\<lparr>q_bm := bm,
      q_recs := (\<lambda>x. if x \<in> set rids then None else q_recs ?h x), q_domains := d\<rparr>)
    \<and> codes_ok bm (\<lambda>x. if x \<in> set rids then None else q_recs ?h x)"
    using Cons.prems bm(2) by (intro Cons.IH) (auto simp: fun_upd_def)
  have recs: "(\<lambda>x. if x \<in> set rids then None else q_recs ?h x)
      = (\<lambda>x. if x \<in> set (rid # rids) then None else q_recs hdl x)"
    by (rule ext) simp
  show ?case using ih r bm(1) unfolding recs by auto
qed

lemma free_fqdn_name_inv:
  assumes core: "fq_core hdl" and clean: "clean hdl (q_ipv4_map hdl)" and q: "q_del_ipv4_list hdl = []"
  obtains hdl' where "free_fqdn_name hdl = Some hdl'" "fq_inv hdl'"
    "q_name_map hdl' = q_name_map hdl"
    "q_recs hdl' = (\<lambda>x. if x \<in> set (q_del_name_list hdl) then None else q_recs hdl x)"
proof -
  let ?D = "set (q_del_name_list hdl)"
  let ?recs = "\<lambda>x. if x \<in> ?D then None else q_recs hdl x"
  have "set (q_del_name_list hdl) \<subseteq> dom (q_recs hdl)" "distinct (q_del_name_list hdl)"
    using refs_okD(2,3)[OF core] by auto
  from free_names_spec[OF fq_coreD(1)[OF core] this(2,1)] obtain bm d where f:
    "free_names (q_del_name_list hdl) hdl = Some (hdl\<lparr>q_bm := bm, q_recs := ?recs, q_domains := d\<rparr>)"
    "codes_ok bm ?recs" by blast
  let ?h = "hdl\<lparr>q_bm := bm, q_recs := ?recs, q_domains := d, q_del_name_list := [], q_del_rlist := []\<rparr>"
  have dom: "dom ?recs = dom (q_recs hdl) - ?D" by (auto split: if_splits)
  have names: "dom ?recs = set (names_of hdl)"
    unfolding dom refs_okD(3)[OF core] using refs_okD(2)[OF core] by auto
  have "refs_ok ?h"
    unfolding refs_ok_def
  proof (intro conjI ballI)
    show "rm_sorted (q_name_map ?h)" using refs_okD(1)[OF core] by simp
    show "distinct (names_of ?h @ q_del_name_list ?h)"
      using refs_okD(2)[OF core] by (simp add: names_of_def)
    show "dom (q_recs ?h) = set (names_of ?h @ q_del_name_list ?h)"
      using names by (simp add: names_of_def)
    show "ipv4_ok (q_ipv4_map ?h) (dom (q_recs ?h))"
    proof -
      have "set (v_rlist e) \<subseteq> dom ?recs" if "(h, e) \<in> set (q_ipv4_map hdl)" for h e
      proof
        fix x assume x: "x \<in> set (v_rlist e)"
        have "x \<in> dom (q_recs hdl)" using ipv4_okD(2)[OF refs_okD(6)[OF core] that] x by blast
        moreover have "\<not> deleted hdl x" using clean that x by (auto simp: clean_def)
        ultimately show "x \<in> dom ?recs" unfolding dom using refs_okD(5)[OF core] by blast
      qed
      then show ?thesis using refs_okD(6)[OF core] unfolding ipv4_ok_def by auto
    qed
    fix x assume "x \<in> dom (q_recs ?h)"
    then have x: "x \<in> dom (q_recs hdl)" "x \<notin> ?D" "q_recs ?h x = q_recs hdl x"
      using dom by auto
    show "x < q_fresh ?h" using refs_okD(4)[OF core x(1)] by simp
    show "deleted ?h x = (x \<in> set (q_del_name_list ?h))"
      using refs_okD(5)[OF core x(1)] x(2) by (simp add: deleted_def rec_flag_def)
  qed
  then have "fq_inv ?h" using f(2) q by (simp add: fq_inv_def fq_core_def)
  moreover have "free_fqdn_name hdl = Some ?h" using f(1) by (simp add: free_fqdn_name_def)
  ultimately show thesis using that[of ?h] by simp
qed


subsection \<open>The outer loop\<close>

text \<open>Between two iterations: a record that was not marked at the start is live and unchanged in
  name, code and mark, and no new record appears.\<close>
definition del_progress :: "dpi_fqdn_hdl \<Rightarrow> dpi_fqdn_hdl \<Rightarrow> bool" where
  "del_progress a b \<longleftrightarrow> (\<forall>rid. q_recs b rid = None \<longrightarrow> q_recs a rid = None \<or> marked a rid)
     \<and> (\<forall>rid \<in> dom (q_recs b). rid \<in> dom (q_recs a) \<and> marked b rid = marked a rid
          \<and> map_option f_name (q_recs b rid) = map_option f_name (q_recs a rid)
          \<and> map_option f_code (q_recs b rid) = map_option f_code (q_recs a rid))"

lemma del_progress_refl: "del_progress a a"
  by (auto simp: del_progress_def)

lemma del_progress_trans:
  assumes "del_progress a b" "del_progress b c"
  shows "del_progress a c"
  unfolding del_progress_def
proof (intro conjI allI ballI impI)
  fix rid
  show "q_recs c rid = None \<Longrightarrow> q_recs a rid = None \<or> marked a rid"
    using assms unfolding del_progress_def by (metis domIff)
  assume "rid \<in> dom (q_recs c)"
  then have c: "rid \<in> dom (q_recs b)" "marked c rid = marked b rid"
    "map_option f_name (q_recs c rid) = map_option f_name (q_recs b rid)"
    "map_option f_code (q_recs c rid) = map_option f_code (q_recs b rid)"
    using assms(2) unfolding del_progress_def by blast+
  moreover have "rid \<in> dom (q_recs a)" "marked b rid = marked a rid"
    "map_option f_name (q_recs b rid) = map_option f_name (q_recs a rid)"
    "map_option f_code (q_recs b rid) = map_option f_code (q_recs a rid)"
    using assms(1) c(1) unfolding del_progress_def by blast+
  ultimately show "rid \<in> dom (q_recs a)" "marked c rid = marked a rid"
    "map_option f_name (q_recs c rid) = map_option f_name (q_recs a rid)"
    "map_option f_code (q_recs c rid) = map_option f_code (q_recs a rid)" by simp_all
qed

text \<open>One iteration of the outer loop.\<close>
lemma delete_iteration:
  assumes inv: "fq_inv hdl"
  obtains hdl2 mo h1 where
    "rcu_map_for_each (q_name_map hdl) check_fqdn_name_entry (hdl, False) = (h1, mo)"
    "(if q_del_name_list h1 \<noteq> [] then do {
        h \<leftarrow> purge_ipv4 (length (q_ipv4_map h1) + 1) h1; free_fqdn_name h } else Some h1) = Some hdl2"
    "fq_inv hdl2" "del_progress hdl hdl2" "mo \<longrightarrow> length (q_name_map hdl2) < length (q_name_map hdl)"
    "\<not> mo \<longrightarrow> (\<forall>rid \<in> dom (q_recs hdl2). \<not> marked hdl rid)"
proof -
  note core = fq_invD(1)[OF inv]
  have "set (map snd (q_name_map hdl)) \<subseteq> set (names_of hdl)" by (simp add: names_of_def)
  moreover have "distinct (map snd (q_name_map hdl))"
    using refs_okD(2)[OF core] by (simp add: names_of_def)
  moreover have "length (q_del_name_list hdl) \<le> 32" using fq_invD(2)[OF inv] by simp
  ultimately obtain h1 mo where h1:
    "rcu_map_for_each (q_name_map hdl) check_fqdn_name_entry (hdl, False) = (h1, mo)"
    "name_walk_post hdl (q_name_map hdl) h1 mo"
    using name_walk[OF core, of "q_name_map hdl"] by blast
  have core1: "fq_core h1" and same: "same_recs hdl h1" using h1(2) by (simp_all add: name_walk_post_def)
  have q1: "q_del_ipv4_list h1 = []" using h1(2) fq_invD(3)[OF inv] by (simp add: name_walk_post_def)
  have marks: "\<forall>rid \<in> set (q_del_name_list h1). marked hdl rid"
    using h1(2) fq_invD(2)[OF inv] by (simp add: name_walk_post_def)
  have len: "length (names_of h1) + length (q_del_name_list h1) = length (names_of hdl)"
    using h1(2) fq_invD(2)[OF inv] by (simp add: name_walk_post_def)
  have gone: "\<not> mo \<longrightarrow> (\<forall>rid \<in> set (names_of h1). \<not> marked hdl rid)"
  proof
    assume "\<not> mo"
    then have "\<forall>rid \<in> set (names_of hdl). marked hdl rid \<longrightarrow> rid \<notin> set (names_of h1)"
      using h1(2) by (simp add: name_walk_post_def names_of_def)
    moreover have "set (names_of h1) \<subseteq> set (names_of hdl)" using h1(2) by (simp add: name_walk_post_def)
    ultimately show "\<forall>rid \<in> set (names_of h1). \<not> marked hdl rid" by blast
  qed
  obtain h where h: "purge_ipv4 (length (q_ipv4_map h1) + 1) h1 = Some h" "fq_core h" "ip_only h1 h"
    "q_del_ipv4_list h = []" "clean h (q_ipv4_map h)"
    using purge_ipv4_spec[OF core1 q1, of "length (q_ipv4_map h1) + 1"] by auto
  obtain h2 where h2: "free_fqdn_name h = Some h2" "fq_inv h2" "q_name_map h2 = q_name_map h"
    "q_recs h2 = (\<lambda>x. if x \<in> set (q_del_name_list h) then None else q_recs h x)"
    by (rule free_fqdn_name_inv[OF h(2,5,4)])
  have recs2: "q_recs h2 = (\<lambda>x. if x \<in> set (q_del_name_list h1) then None else q_recs h1 x)"
    and names2: "q_name_map h2 = q_name_map h1"
    using h2(3,4) h(3) by (simp_all add: ip_only_def cong: if_cong)
  have prog: "del_progress hdl h2"
  proof -
    have "rid \<in> dom (q_recs hdl) \<and> marked h2 rid = marked hdl rid
        \<and> map_option f_name (q_recs h2 rid) = map_option f_name (q_recs hdl rid)
        \<and> map_option f_code (q_recs h2 rid) = map_option f_code (q_recs hdl rid)"
      if "rid \<in> dom (q_recs h2)" for rid
    proof -
      have r: "q_recs h2 rid = q_recs h1 rid" "rid \<in> dom (q_recs h1)"
        using that recs2 by (auto split: if_splits)
      then have "marked h2 rid = marked h1 rid" by (simp add: marked_def rec_flag_def)
      then show ?thesis using same r unfolding same_recs_def by simp
    qed
    moreover have "q_recs hdl rid = None \<or> marked hdl rid" if "q_recs h2 rid = None" for rid
      using that marks same recs2 unfolding same_recs_def by (metis domIff)
    ultimately show ?thesis by (auto simp: del_progress_def)
  qed
  show thesis
  proof (cases "q_del_name_list h1 = []")
    case False
    have "length (q_name_map h2) < length (q_name_map hdl)"
      using len False names2 by (cases "q_del_name_list h1") (auto simp: names_of_def)
    moreover have "\<not> mo \<longrightarrow> (\<forall>rid \<in> dom (q_recs h2). \<not> marked hdl rid)"
      using gone refs_okD(3)[OF core1] recs2 by (auto split: if_splits)
    ultimately show thesis
      using that[OF h1(1), of h2] h(1) h2(1,2) prog False by simp
  next
    case True
    then have "\<not> mo" using h1(2) by (auto simp: name_walk_post_def)
    moreover have "fq_inv h1"
      using core1 True q1 h1(2) fq_invD(4)[OF inv] by (simp add: fq_inv_def name_walk_post_def)
    moreover have "del_progress hdl h1"
    proof -
      have "q_recs h2 = q_recs h1" using recs2 True by simp
      then have "marked h2 = marked h1" by (simp add: marked_def rec_flag_def fun_eq_iff)
      then show ?thesis using prog \<open>q_recs h2 = q_recs h1\<close> by (simp add: del_progress_def)
    qed
    moreover have "\<forall>rid \<in> dom (q_recs h1). \<not> marked hdl rid"
      using gone \<open>\<not> mo\<close> refs_okD(3)[OF core1] True by auto
    ultimately show thesis using that[OF h1(1), of h1] True by simp
  qed
qed

lemma delete_marked_loop_spec:
  assumes "fq_inv hdl" "length (q_name_map hdl) < n"
  shows "\<exists>hdl'. delete_marked_loop n hdl = Some hdl' \<and> fq_inv hdl' \<and> del_progress hdl hdl'
    \<and> (\<forall>rid \<in> dom (q_recs hdl'). \<not> marked hdl rid)"
  using assms
proof (induction n arbitrary: hdl)
  case (Suc n)
  obtain h2 mo h1 where it:
    "rcu_map_for_each (q_name_map hdl) check_fqdn_name_entry (hdl, False) = (h1, mo)"
    "(if q_del_name_list h1 \<noteq> [] then do {
        h \<leftarrow> purge_ipv4 (length (q_ipv4_map h1) + 1) h1; free_fqdn_name h } else Some h1) = Some h2"
    "fq_inv h2" "del_progress hdl h2" "mo \<longrightarrow> length (q_name_map h2) < length (q_name_map hdl)"
    "\<not> mo \<longrightarrow> (\<forall>rid \<in> dom (q_recs h2). \<not> marked hdl rid)"
    by (rule delete_iteration[OF Suc.prems(1)])
  have run: "delete_marked_loop (Suc n) hdl = (if mo then delete_marked_loop n h2 else Some h2)"
    using it(1,2) by simp
  show ?case
  proof (cases mo)
    case False
    then show ?thesis using run it(3,4,6) by auto
  next
    case True
    then have "length (q_name_map h2) < n" using it(5) Suc.prems(2) by simp
    from Suc.IH[OF it(3) this] obtain h' where h': "delete_marked_loop n h2 = Some h'" "fq_inv h'"
      "del_progress h2 h'" "\<forall>rid \<in> dom (q_recs h'). \<not> marked h2 rid" by blast
    have "\<not> marked hdl rid" if "rid \<in> dom (q_recs h')" for rid
    proof -
      have "rid \<in> dom (q_recs h2)" using that h'(3) by (simp add: del_progress_def)
      then have "marked h2 rid = marked hdl rid" using it(4) by (simp add: del_progress_def)
      then show ?thesis using that h'(4) by blast
    qed
    then show ?thesis using run True h'(1,2) del_progress_trans[OF it(4) h'(3)] by auto
  qed
qed simp


subsection \<open>Reachable tables\<close>

text \<open>The operations the controller and the DNS parser perform on the tables, in any order and with
  any allocation failing.\<close>
inductive fq_reachable :: "dpi_fqdn_hdl \<Rightarrow> bool" where
  init: "dpi_fqdn_hdl_init True True True = Some hdl \<Longrightarrow> fq_reachable hdl"
| config: "fq_reachable hdl \<Longrightarrow>
    config_fqdn_ipv4_mapping ok_e ok_r ok1 ok2 ok3 hdl name ip = Some (hdl', code) \<Longrightarrow> fq_reachable hdl'"
| snoop: "fq_reachable hdl \<Longrightarrow>
    snooped_fqdn_ipv4_mapping ok1 ok2 ok3 hdl name ips = Some hdl' \<Longrightarrow> fq_reachable hdl'"
| mark: "fq_reachable hdl \<Longrightarrow> fq_reachable (dpi_fqdn_entry_mark_delete hdl name)"
| delete: "fq_reachable hdl \<Longrightarrow> dpi_fqdn_entry_delete_marked hdl = Some hdl' \<Longrightarrow> fq_reachable hdl'"

lemma fq_inv_init: "dpi_fqdn_hdl_init ok a b = Some hdl \<Longrightarrow> fq_inv hdl"
proof -
  assume init: "dpi_fqdn_hdl_init ok a b = Some hdl"
  then have "bitmap_allocate a b DPI_FQDN_MAX_ENTRIES = Some (q_bm hdl)"
    by (auto simp: dpi_fqdn_hdl_init_def split: if_splits option.splits)
  then have "bitmap_allocate True True 2048 = Some (q_bm hdl)"
    by (auto simp: bitmap_allocate_def DPI_FQDN_MAX_ENTRIES_def split: if_splits)
  then have bm: "bm_inv (q_bm hdl)" "bm_bits (q_bm hdl) = 2048"
    "\<forall>i. int i < 2048 \<longrightarrow> \<not> bm_test (q_bm hdl) i"
    using bitmap_allocate_spec[of 2048] by auto
  then have "bm_used (q_bm hdl) = {}" by (auto simp: bm_used_def)
  then show ?thesis using init bm(1,2)
    by (auto simp: dpi_fqdn_hdl_init_def fq_inv_def fq_core_def codes_ok_def refs_ok_def names_of_def
        ipv4_ok_def rcu_map_init_def rm_sorted_def split: if_splits option.splits)
qed

lemma delete_marked_eq_loop:
  assumes "fq_inv hdl"
  shows "\<exists>hdl'. dpi_fqdn_entry_delete_marked hdl = Some hdl' \<and> fq_inv hdl' \<and> del_progress hdl hdl'
    \<and> (\<forall>rid \<in> dom (q_recs hdl'). \<not> marked hdl rid)"
  unfolding dpi_fqdn_entry_delete_marked_def
  using delete_marked_loop_spec[OF assms, of "length (q_name_map hdl) + 1"] by simp

lemma fq_reachable_inv: "fq_reachable hdl \<Longrightarrow> fq_inv hdl"
proof (induction rule: fq_reachable.induct)
  case (init hdl)
  then show ?case by (rule fq_inv_init)
next
  case (config hdl ok_e ok_r ok1 ok2 ok3 name ip hdl' code)
  show ?case
    by (rule config_fqdn_inv[OF config.IH, of ok_e ok_r ok1 ok2 ok3 name ip])
      (use config.hyps(2) in simp)
next
  case (snoop hdl ok1 ok2 ok3 name ips hdl')
  then show ?case using snooped_inv[OF snoop.IH, of ok1 ok2 ok3 name ips] by auto
next
  case (mark hdl name)
  then show ?case using mark_delete_inv by blast
next
  case (delete hdl hdl')
  then show ?case using delete_marked_eq_loop[OF delete.IH] by auto
qed

lemma fq_inv_code_inj:
  assumes inv: "fq_inv hdl" and "q_recs hdl a = Some ra" "q_recs hdl b = Some rb"
    and "f_code ra = f_code rb"
  shows "a = b"
proof -
  have "inj_on (code_idx (q_recs hdl)) (dom (q_recs hdl))"
    using fq_coreD(1)[OF fq_invD(1)[OF inv]] by (simp add: codes_ok_def)
  moreover have "code_idx (q_recs hdl) a = code_idx (q_recs hdl) b"
    using assms by (simp add: code_idx_def code_no_def)
  ultimately show ?thesis using assms(2,3) by (meson domI inj_onD)
qed



subsection \<open>Which names a snooped answer updates\<close>

text \<open>A dot at \<open>p\<close> starts a wildcard suffix when another dot follows before the last character.\<close>
definition wildcard_dot :: "bytes \<Rightarrow> nat \<Rightarrow> bool" where
  "wildcard_dot d p \<longleftrightarrow> d ! p = 46 \<and> (\<exists>q \<in> set [Suc p ..< length d - 1]. d ! q = 46)"

definition wildcard_names :: "bytes \<Rightarrow> bytes list" where
  "wildcard_names d = map (\<lambda>p. 42 # drop p d) (filter (wildcard_dot d) [1 ..< length d])"

fun snoop_names :: "bool \<Rightarrow> bool \<Rightarrow> bool \<Rightarrow> bytes list \<Rightarrow> u32 list \<Rightarrow> dpi_fqdn_hdl \<Rightarrow> dpi_fqdn_hdl option" where
  "snoop_names ok1 ok2 ok3 [] ips hdl = Some hdl"
| "snoop_names ok1 ok2 ok3 (n # ns) ips hdl =
     do { hdl' \<leftarrow> snoop_one ok1 ok2 ok3 hdl n ips; snoop_names ok1 ok2 ok3 ns ips hdl' }"

lemma last_dot_spec:
  "(last_dot d j \<le> 0 \<or> (last_dot d j \<le> j \<and> d ! nat (last_dot d j) = 46))
   \<and> (\<forall>q. 0 < q \<and> last_dot d j < int q \<and> int q \<le> j \<longrightarrow> d ! q \<noteq> 46) \<and> last_dot d j \<le> max j 0"
proof (induction d j rule: last_dot.induct)
  case (1 d j)
  show ?case
  proof (cases "j > 0 \<and> d ! nat j \<noteq> 46")
    case True
    have eq: "last_dot d j = last_dot d (j - 1)" using True by (subst last_dot.simps) simp
    have "q = nat j \<or> int q \<le> j - 1" if "int q \<le> j" for q using that by linarith
    then show ?thesis using 1 True unfolding eq by (smt (verit, best) max_def)
  next
    case False
    then have "last_dot d j = j" by (subst last_dot.simps) auto
    then show ?thesis using False by auto
  qed
qed

lemma snoop_loop_names:
  assumes "sorted is" "distinct is" "\<forall>i \<in> set is. i + 1 < length d"
    "\<forall>i \<in> set is. \<forall>k \<ge> i. d ! (k + 1) = d0 ! (k + 1)" "length d = length d0"
    "\<forall>i \<in> set is. drop (i + 1) d = drop (i + 1) d0"
  shows "snoop_loop ok1 ok2 ok3 d ips is hdl =
    snoop_names ok1 ok2 ok3 (map (\<lambda>i. 42 # drop (i + 1) d0) (filter (\<lambda>i. d0 ! (i + 1) = 46) is)) ips hdl"
  using assms
proof (induction "is" arbitrary: d hdl)
  case (Cons i "is")
  have later: "\<forall>k \<in> set is. i < k" using Cons.prems(1,2) by (auto simp: less_le)
  have eq: "drop (k + 1) (d[i := 42]) = drop (k + 1) d0" if "k \<in> set is" for k
  proof -
    have "i < Suc k" using later that by auto
    then show ?thesis using that Cons.prems(6) by (simp add: drop_update_cancel)
  qed
  have nth: "(d[i := 42]) ! (k + 1) = d0 ! (k + 1)" if "k \<ge> i" for k
    using Cons.prems(4) that by simp
  have first: "drop i (d[i := 42]) = 42 # drop (i + 1) d0"
  proof -
    have "drop i (d[i := 42]) = d[i := 42] ! i # drop (Suc i) (d[i := 42])"
      using Cons.prems(3) by (simp add: Cons_nth_drop_Suc[symmetric])
    then show ?thesis using Cons.prems(3,6) by (simp add: drop_update_cancel)
  qed
  have d0: "d ! (i + 1) = d0 ! (i + 1)" using Cons.prems(4) by simp
  show ?case
  proof (cases "d0 ! (i + 1) = 46")
    case True
    have "snoop_loop ok1 ok2 ok3 (d[i := 42]) ips is h = snoop_names ok1 ok2 ok3
        (map (\<lambda>i. 42 # drop (i + 1) d0) (filter (\<lambda>i. d0 ! (i + 1) = 46) is)) ips h" for h
      using Cons.prems later eq nth by (intro Cons.IH) auto
    then have "snoop_loop ok1 ok2 ok3 (d[i := 42]) ips is = snoop_names ok1 ok2 ok3
        (map (\<lambda>i. 42 # drop (i + 1) d0) (filter (\<lambda>i. d0 ! (i + 1) = 46) is)) ips"
      by (rule ext)
    then show ?thesis using True d0 first by (simp add: Let_def)
  next
    case False
    then show ?thesis using Cons.IH[of d] Cons.prems d0 by simp
  qed
qed simp

lemma wildcard_dotE:
  assumes "wildcard_dot d p"
  obtains q where "d ! p = 46" "p < q" "q < length d - 1" "d ! q = 46"
proof -
  from assms obtain q where "d ! p = 46" "q \<in> set [Suc p ..< length d - 1]" "d ! q = 46"
    unfolding wildcard_dot_def by blast
  then show thesis by (intro that[of q]) auto
qed

lemma wildcard_names_last_dot:
  assumes "j = last_dot d (int (length d) - 2)"
  shows "map (\<lambda>i. 42 # drop (i + 1) d) (filter (\<lambda>i. d ! (i + 1) = 46) [0 ..< nat (j - 1)])
    = wildcard_names d"
proof -
  note sp = last_dot_spec[of d "int (length d) - 2", folded assms]
  have "map (\<lambda>i. 42 # drop (i + 1) d) (filter (\<lambda>i. d ! (i + 1) = 46) [0 ..< nat (j - 1)])
      = map (\<lambda>p. 42 # drop p d) (filter (\<lambda>p. d ! p = 46) (map Suc [0 ..< nat (j - 1)]))"
    by (simp add: filter_map comp_def)
  also have "map Suc [0 ..< nat (j - 1)] = [1 ..< nat j]"
  proof -
    have "Suc (nat (j - 1)) = nat j \<or> nat j \<le> 1" by linarith
    then show ?thesis unfolding map_Suc_upt by (elim disjE) (simp_all del: upt_Suc)
  qed
  also have "filter (\<lambda>p. d ! p = 46) [1 ..< nat j] = filter (wildcard_dot d) [1 ..< length d]"
  proof (cases "j \<le> 0")
    case True
    have "\<not> wildcard_dot d p" for p
    proof
      assume "wildcard_dot d p"
      then obtain q where "d ! p = 46" "p < q" "q < length d - 1" "d ! q = 46" by (rule wildcard_dotE)
      moreover from this have "0 < q" "j < int q" "int q \<le> int (length d) - 2" using True by linarith+
      ultimately show False using sp by blast
    qed
    then have "filter (wildcard_dot d) [1 ..< length d] = []" by simp
    then show ?thesis using True by simp
  next
    case False
    then have j: "j \<le> int (length d) - 2" "d ! nat j = 46" using sp by auto
    have w: "wildcard_dot d p \<longleftrightarrow> d ! p = 46 \<and> p < nat j" if "0 < p" for p
    proof
      assume "wildcard_dot d p"
      then obtain q where q: "d ! p = 46" "p < q" "q < length d - 1" "d ! q = 46"
        by (rule wildcard_dotE)
      have "int q \<le> int (length d) - 2" "0 < q" using q by linarith+
      then have "int q \<le> j" using sp q(4) by (meson not_le)
      then show "d ! p = 46 \<and> p < nat j" using q by linarith
    next
      assume "d ! p = 46 \<and> p < nat j"
      then show "wildcard_dot d p" using j False unfolding wildcard_dot_def
        by (intro conjI bexI[of _ "nat j"]) auto
    qed
    have split: "[1 ..< length d] = [1 ..< nat j] @ [nat j ..< length d]"
      using j False by (intro upt_split) linarith+
    have "filter (wildcard_dot d) [1 ..< nat j] = filter (\<lambda>p. d ! p = 46) [1 ..< nat j]"
      using w by (intro filter_cong) auto
    moreover have "filter (wildcard_dot d) [nat j ..< length d] = []"
      using w False by (auto simp: filter_empty_conv)
    ultimately show ?thesis unfolding split filter_append by simp
  qed
  finally show ?thesis by (simp add: wildcard_names_def)
qed

text \<open>C3. A snooped DNS answer updates the exact lower-cased name and then, in order, the wildcard
  names made of a star and each suffix of the name that starts at a dot and still contains a later
  dot: for \<open>a.b.com\<close> these are \<open>a.b.com\<close> and \<open>*.b.com\<close>, never \<open>*.com\<close>.\<close>
theorem snooped_names_eq:
  "snooped_fqdn_ipv4_mapping ok1 ok2 ok3 hdl name ips = do {
     h \<leftarrow> snoop_one ok1 ok2 ok3 hdl (map lower_c name) ips;
     snoop_names ok1 ok2 ok3 (wildcard_names (take (MAX_FQDN_LEN - 1) (map lower_c name))) ips h }"
proof -
  let ?d = "take (MAX_FQDN_LEN - 1) (map lower_c name)"
  define j where "j = last_dot ?d (int (length ?d) - 2)"
  have "j \<le> max (int (length ?d) - 2) 0" using last_dot_spec[of ?d "int (length ?d) - 2"] by (simp add: j_def)
  then have "i + 1 < length ?d" if "i < nat (j - 1)" for i using that by linarith
  then have "snoop_loop ok1 ok2 ok3 ?d ips [0 ..< nat (j - 1)] h = snoop_names ok1 ok2 ok3
      (map (\<lambda>i. 42 # drop (i + 1) ?d) (filter (\<lambda>i. ?d ! (i + 1) = 46) [0 ..< nat (j - 1)])) ips h" for h
    by (intro snoop_loop_names) auto
  then show ?thesis
    unfolding snooped_fqdn_ipv4_mapping_def Let_def j_def[symmetric]
    unfolding wildcard_names_last_dot[OF j_def] by presburger
qed

subsection \<open>A concrete run\<close>

text \<open>The tables after configuring the name \<open>a.b\<close> with one address.\<close>
definition fq_empty :: dpi_fqdn_hdl where
  "fq_empty = the (dpi_fqdn_hdl_init True True True)"

definition fq_one :: dpi_fqdn_hdl where
  "fq_one = fst (the (config_fqdn_ipv4_mapping True True True True True fq_empty [97, 46, 98] 7))"

lemma fq_empty_reachable: "fq_reachable fq_empty"
proof -
  have "dpi_fqdn_hdl_init True True True \<noteq> None" by code_simp
  then show ?thesis by (intro fq_reachable.init) (auto simp: fq_empty_def)
qed

lemma fq_one_reachable: "fq_reachable fq_one"
proof -
  have "map_option snd (config_fqdn_ipv4_mapping True True True True True fq_empty [97, 46, 98] 7)
      = Some 0x01000000" by code_simp
  then obtain h where "config_fqdn_ipv4_mapping True True True True True fq_empty [97, 46, 98] 7
      = Some (h, 0x01000000)" by auto
  then show ?thesis using fq_reachable.config[OF fq_empty_reachable] by (simp add: fq_one_def)
qed



end
