(* ===== verification/DP_Policy.thy ===== *)
theory DP_Policy
  imports DP_Types DP_FqdnDel
begin

text \<open>
  Policy evaluation in \<open>dpi/dpi_policy.c\<close>: the lookup that combines the rule tables with FQDN codes and
  the internal/external classification of addresses, the insertion of rules, the cache of unknown
  addresses, and the lookup and re-evaluation for packets and sessions. The subnets of
  \<open>dpi/dpi_entry.c\<close> are the record \<open>addr_env\<close>; \<^term>\<open>None\<close> is the \<open>NULL\<close> table. A result \<^term>\<open>None\<close> is a read
  of freed memory or outside the packet.
\<close>

record io_subnet4 =
  sn_ip :: u32
  sn_mask :: u32

record io_spec_subnet4 =
  ss_ip :: u32
  ss_mask :: u32
  ss_iptype :: byte

record addr_env =
  th_internal_subnet4 :: "io_subnet4 list option"
  th_specialip_subnet4 :: "io_spec_subnet4 list option"
  th_policy_addr :: "io_subnet4 list option"

definition DP_IPTYPE_NONE :: byte where "DP_IPTYPE_NONE = 0"
definition DP_IPTYPE_TUNNELIP :: byte where "DP_IPTYPE_TUNNELIP = 1"
definition DP_IPTYPE_SVCIP :: byte where "DP_IPTYPE_SVCIP = 2"
definition DP_IPTYPE_HOSTIP :: byte where "DP_IPTYPE_HOSTIP = 3"
definition DP_IPTYPE_DEVIP :: byte where "DP_IPTYPE_DEVIP = 4"
definition DP_IPTYPE_UWLIP :: byte where "DP_IPTYPE_UWLIP = 5"
definition DP_IPTYPE_EXTIP :: byte where "DP_IPTYPE_EXTIP = 6"

lemmas iptype_consts [dp_eval] = DP_IPTYPE_NONE_def DP_IPTYPE_TUNNELIP_def DP_IPTYPE_SVCIP_def
  DP_IPTYPE_HOSTIP_def DP_IPTYPE_DEVIP_def DP_IPTYPE_UWLIP_def DP_IPTYPE_EXTIP_def

definition dpi_is_ip4_internal :: "addr_env \<Rightarrow> u32 \<Rightarrow> bool" where
  "dpi_is_ip4_internal env ip = (case th_internal_subnet4 env of None \<Rightarrow> True
     | Some l \<Rightarrow> l = [] \<or> list_ex (\<lambda>n. ip AND sn_mask n = sn_ip n) l)"

definition dpi_ip4_iptype :: "addr_env \<Rightarrow> u32 \<Rightarrow> byte" where
  "dpi_ip4_iptype env ip = (case th_specialip_subnet4 env of None \<Rightarrow> DP_IPTYPE_NONE
     | Some l \<Rightarrow> (case find (\<lambda>n. ip AND ss_mask n = ss_ip n) l of None \<Rightarrow> DP_IPTYPE_NONE
                 | Some n \<Rightarrow> ss_iptype n))"

definition dpi_is_policy_addr :: "addr_env \<Rightarrow> u32 \<Rightarrow> bool" where
  "dpi_is_policy_addr env ip = (case th_policy_addr env of None \<Rightarrow> False
     | Some l \<Rightarrow> list_ex (\<lambda>n. ip XOR sn_ip n = 0) l)"

subsection \<open>The lookup\<close>

definition POLICY_HDL_FLAG_FQDN :: u32 where "POLICY_HDL_FLAG_FQDN = 1"
definition DP_POLICY_APPLY_EGRESS :: int where "DP_POLICY_APPLY_EGRESS = 1"
definition DP_POLICY_APPLY_INGRESS :: int where "DP_POLICY_APPLY_INGRESS = 2"
definition DP_POLICY_APP_UNKNOWN :: u32 where "DP_POLICY_APP_UNKNOWN = 0xffffffff"

definition DPI_POLICY_HAS_FQDN :: "dpi_policy_hdl \<Rightarrow> bool" where
  "DPI_POLICY_HAS_FQDN hdl \<longleftrightarrow> h_flag hdl AND POLICY_HDL_FLAG_FQDN \<noteq> 0"

text \<open>The loop of \<open>policy_match_ipv4_fqdn_code\<close> over the records of an address: \<open>acc\<close> is \<open>desc2\<close> once it
  has been set (\<open>i > 0\<close>).\<close>
fun match_codes :: "dpi_fqdn_hdl \<Rightarrow> dpi_policy_hdl \<Rightarrow> bool \<Rightarrow> nat list \<Rightarrow> dpi_rule_key \<Rightarrow> dpi_policy_desc option
    \<Rightarrow> dpi_policy_desc option option" where
  "match_codes fq hdl is_ingress [] key acc = Some acc"
| "match_codes fq hdl is_ingress (rid # rids) key acc = do {
     r \<leftarrow> q_recs fq rid;
     if f_code r \<noteq> 0 then
       (let key' = (if is_ingress then key\<lparr>k_sip := f_code r\<rparr> else key\<lparr>k_dip := f_code r\<rparr>);
            desc3 = policy_lookup_key hdl key' is_ingress
        in match_codes fq hdl is_ingress rids key'
             (Some (case acc of None \<Rightarrow> desc3 | Some desc2 \<Rightarrow> policy_desc_merge desc2 desc3)))
     else match_codes fq hdl is_ingress rids key acc }"

definition policy_match_ipv4_fqdn_code ::
  "dpi_fqdn_hdl \<Rightarrow> u32 \<Rightarrow> dpi_policy_hdl \<Rightarrow> dpi_rule_key \<Rightarrow> bool \<Rightarrow> dpi_policy_desc option option" where
  "policy_match_ipv4_fqdn_code fq ip hdl key is_ingress =
     (case lookup_ipv4 fq ip of None \<Rightarrow> Some None
      | Some e \<Rightarrow> match_codes fq hdl is_ingress (v_rlist e) key None)"

text \<open>The table lookups of one direction: the key itself, the codes of the remote address \<open>ip\<close>, and for an
  external address the key with that address replaced by 0.\<close>
definition lookup_tables :: "dpi_fqdn_hdl \<Rightarrow> dpi_policy_hdl \<Rightarrow> dpi_rule_key \<Rightarrow> bool \<Rightarrow> u32 \<Rightarrow> bool
    \<Rightarrow> dpi_policy_desc option" where
  "lookup_tables fq hdl key is_ingress ip is_internal = do {
     let desc = policy_lookup_key hdl key is_ingress;
     desc1 \<leftarrow> (if DPI_POLICY_HAS_FQDN hdl then do {
                  m \<leftarrow> policy_match_ipv4_fqdn_code fq ip hdl key is_ingress;
                  Some (case m of None \<Rightarrow> desc | Some desc2 \<Rightarrow> policy_desc_merge desc desc2) }
                else Some desc);
     if \<not> is_internal then
       (let key0 = (if is_ingress then key\<lparr>k_sip := 0\<rparr> else key\<lparr>k_dip := 0\<rparr>);
            d = policy_desc_merge desc1 (policy_lookup_key hdl key0 is_ingress)
        in Some (d\<lparr>d_flags := d_flags d OR POLICY_DESC_EXTERNAL\<rparr>))
     else Some (desc1\<lparr>d_flags := d_flags desc1 OR POLICY_DESC_INTERNAL\<rparr>) }"

definition dpi_policy_lookup_by_key ::
  "addr_env \<Rightarrow> dpi_fqdn_hdl \<Rightarrow> dpi_policy_hdl option \<Rightarrow> u32 \<Rightarrow> u32 \<Rightarrow> u16 \<Rightarrow> u16 \<Rightarrow> u32 \<Rightarrow> bool
     \<Rightarrow> dpi_policy_desc \<Rightarrow> dpi_policy_desc option" where
  "dpi_policy_lookup_by_key env fq mhdl sip dip dport proto app is_ingress desc =
     (case mhdl of
        None \<Rightarrow>
          let remote = (if is_ingress then sip else dip) in
          Some (desc\<lparr>d_id := 0, d_action := DP_POLICY_ACTION_OPEN,
            d_flags := POLICY_DESC_CHECK_VER OR
              (if dpi_is_ip4_internal env remote then POLICY_DESC_INTERNAL else POLICY_DESC_EXTERNAL),
            d_hdl_ver := 0\<rparr>)
      | Some hdl \<Rightarrow>
          let key = \<lparr>k_sip = sip, k_dip = dip, k_dport = dport, k_proto = proto, k_app = app\<rparr>;
              remote = (if is_ingress then sip else dip);
              is_internal = dpi_is_ip4_internal env remote;
              iptype = dpi_ip4_iptype env remote
          in map_option (\<lambda>d. d\<lparr>d_hdl_ver := h_ver hdl\<rparr>)
            (if is_ingress then
               if is_internal \<and> h_apply_dir hdl AND DP_POLICY_APPLY_INGRESS = 0 \<and> iptype \<noteq> DP_IPTYPE_UWLIP
               then Some (desc\<lparr>d_id := 0, d_action := DP_POLICY_ACTION_OPEN,
                      d_flags := POLICY_DESC_INTERNAL OR
                        (if iptype = DP_IPTYPE_TUNNELIP then POLICY_DESC_TUNNEL
                         else if iptype = DP_IPTYPE_HOSTIP then POLICY_DESC_HOSTIP else 0)\<rparr>)
               else lookup_tables fq hdl key is_ingress sip is_internal
             else
               if \<not> is_internal \<and> iptype = DP_IPTYPE_EXTIP
               then Some (desc\<lparr>d_id := 0,
                      d_action := (if h_def_action hdl = uint DP_POLICY_ACTION_DENY
                                   then DP_POLICY_ACTION_DENY else DP_POLICY_ACTION_VIOLATE),
                      d_flags := d_flags desc OR POLICY_DESC_EXTERNAL OR POLICY_DESC_SVC_EXTIP,
                      d_order := 0xffffffff\<rparr>)
               else if is_internal \<and> h_apply_dir hdl AND DP_POLICY_APPLY_EGRESS = 0
                  \<and> iptype \<noteq> DP_IPTYPE_HOSTIP \<and> iptype \<noteq> DP_IPTYPE_UWLIP
               then Some (desc\<lparr>d_id := 0, d_action := DP_POLICY_ACTION_OPEN, d_flags := POLICY_DESC_INTERNAL\<rparr>)
               else lookup_tables fq hdl key is_ingress dip is_internal))"

subsection \<open>Adding rules\<close>

record dpi_policy_app_rule =
  ar_rule_id :: u32
  ar_app :: u32
  ar_action :: byte

text \<open>\<open>oom1\<close>, \<open>oom2\<close>: the allocations that fail; \<^term>\<open>None\<close> in place of \<open>key_h\<close> is \<open>NULL\<close>.\<close>
definition dpi_rule_add_one ::
  "addr_env \<Rightarrow> dpi_fqdn_hdl \<Rightarrow> bool \<Rightarrow> bool \<Rightarrow> dpi_policy_hdl \<Rightarrow> rule_counter \<Rightarrow> dpi_rule_key \<Rightarrow> dpi_rule_key option
     \<Rightarrow> rule_dir \<Rightarrow> dpi_policy_desc \<Rightarrow> dpi_policy_desc \<Rightarrow> add_result option" where
  "dpi_rule_add_one env fq oom1 oom2 hdl c key_l mkey_h dir desc exist_desc =
     (case mkey_h of
        None \<Rightarrow> do {
          ex \<leftarrow> dpi_policy_lookup_by_key env fq (Some hdl) (k_sip key_l) (k_dip key_l) (k_dport key_l)
                  (k_proto key_l) (k_app key_l) (dir = POLICY_RULE_DIR_INGRESS) exist_desc;
          if d_id ex \<noteq> 0 then Some (0, hdl, c, ex)
          else if oom1 then Some (-1, hdl, c, ex)
          else Some (1, hdl\<lparr>h_policy_map := rcu_map_add (h_policy_map hdl) rule_hash
                               \<lparr>r_desc = desc, r_key = key_l\<rparr> key_l\<rparr>,
                     c\<lparr>type1_rules := type1_rules c + 1\<rparr>, ex) }
      | Some key_h \<Rightarrow> Some (dpi_range_rule_add oom1 oom2 hdl c key_l key_h dir desc exist_desc))"

text \<open>\<open>dpi_add_app_rule\<close> also overwrites \<open>key_l->app\<close> and \<open>key_h->app\<close>.\<close>
definition dpi_add_app_rule ::
  "addr_env \<Rightarrow> dpi_fqdn_hdl \<Rightarrow> bool \<Rightarrow> bool \<Rightarrow> dpi_policy_hdl \<Rightarrow> rule_counter \<Rightarrow> dpi_rule_key \<Rightarrow> dpi_rule_key option
     \<Rightarrow> dpi_policy_app_rule \<Rightarrow> rule_dir \<Rightarrow> dpi_policy_desc \<Rightarrow> dpi_policy_desc
     \<Rightarrow> (add_result \<times> dpi_rule_key \<times> dpi_rule_key option) option" where
  "dpi_add_app_rule env fq oom1 oom2 hdl c key_l0 mkey_h0 app_rule dir desc exist_desc =
     (let key_l = key_l0\<lparr>k_app := ar_app app_rule\<rparr>;
          mkey_h = (if k_app key_l \<noteq> 0 then map_option (\<lambda>k. k\<lparr>k_app := k_app key_l\<rparr>) mkey_h0
                    else map_option (\<lambda>k. k\<lparr>k_app := 0xffffffff\<rparr>) mkey_h0);
          use = (if k_app key_l = 0 \<and> mkey_h0 = None then Some (key_l\<lparr>k_app := 0xffffffff\<rparr>) else mkey_h);
          app_desc = \<lparr>d_id = ar_rule_id app_rule, d_action = ar_action app_rule, d_flags = d_flags desc,
                      d_hdl_ver = 0, d_order = d_order desc\<rparr>
      in map_option (\<lambda>r. (r, key_l, mkey_h))
           (dpi_rule_add_one env fq oom1 oom2 hdl c key_l use dir app_desc exist_desc))"

text \<open>The loop over the application rules; \<open>oom\<close> gives the allocation failures of each call.\<close>
fun add_app_rules ::
  "addr_env \<Rightarrow> dpi_fqdn_hdl \<Rightarrow> (nat \<Rightarrow> bool \<times> bool) \<Rightarrow> nat \<Rightarrow> dpi_policy_app_rule list \<Rightarrow> rule_dir \<Rightarrow> dpi_policy_desc
     \<Rightarrow> add_result \<Rightarrow> dpi_rule_key \<Rightarrow> dpi_rule_key option \<Rightarrow> (add_result \<times> dpi_rule_key \<times> dpi_rule_key option) option" where
  "add_app_rules env fq oom i [] dir desc acc key_l mkey_h = Some (acc, key_l, mkey_h)"
| "add_app_rules env fq oom i (a # as) dir desc (ret, hdl, c, ex) key_l mkey_h = do {
     ((ret', hdl', c', ex'), key_l', mkey_h') \<leftarrow>
        dpi_add_app_rule env fq (fst (oom i)) (snd (oom i)) hdl c key_l mkey_h a dir desc ex;
     add_app_rules env fq oom (i + 1) as dir desc
       ((if ret' = 1 then ret + 1 else ret), hdl', c', ex') key_l' mkey_h' }"

definition dpi_rule_add ::
  "addr_env \<Rightarrow> dpi_fqdn_hdl \<Rightarrow> (nat \<Rightarrow> bool \<times> bool) \<Rightarrow> dpi_policy_hdl \<Rightarrow> rule_counter \<Rightarrow> dpi_rule_key
     \<Rightarrow> dpi_rule_key option \<Rightarrow> dpi_policy_app_rule list \<Rightarrow> rule_dir \<Rightarrow> dpi_policy_desc
     \<Rightarrow> (int \<times> dpi_policy_hdl \<times> rule_counter \<times> dpi_rule_key \<times> dpi_rule_key option) option" where
  "dpi_rule_add env fq oom hdl c key_l mkey_h app_rules dir desc = do {
     (ret, hdl1, c1, ex) \<leftarrow> dpi_rule_add_one env fq (fst (oom 0)) (snd (oom 0)) hdl c key_l mkey_h dir desc zero_desc;
     if ret < 0 then Some (ret, hdl1, c1, key_l, mkey_h)
     else if ret = 0 \<and> d_id ex > 0 \<and> d_action ex \<noteq> DP_POLICY_ACTION_CHECK_APP then Some (ret, hdl1, c1, key_l, mkey_h)
     else do {
       ((ret2, hdl2, c2, ex2), key_l2, mkey_h2) \<leftarrow>
         (if ret = 0 \<and> d_id ex > 0 \<and> d_action desc \<noteq> DP_POLICY_ACTION_CHECK_APP
          then dpi_add_app_rule env fq (fst (oom 1)) (snd (oom 1)) hdl1 c1 key_l mkey_h
                 \<lparr>ar_rule_id = d_id desc, ar_app = 0, ar_action = d_action desc\<rparr> dir desc ex
          else Some ((ret, hdl1, c1, ex), key_l, mkey_h));
       if app_rules = [] then Some (ret2, hdl2, c2, key_l2, mkey_h2)
       else do {
         ((ret3, hdl3, c3, ex3), key_l3, mkey_h3) \<leftarrow>
           add_app_rules env fq oom 2 app_rules dir desc (ret2, hdl2, c2, ex2) key_l2 mkey_h2;
         Some (ret3, hdl3, c3, key_l3\<lparr>k_app := 0\<rparr>, map_option (\<lambda>k. k\<lparr>k_app := 0\<rparr>) mkey_h3) } } }"

definition IPPROTO_ICMP :: u16 where "IPPROTO_ICMP = 1"
definition IPPROTO_TCP :: u16 where "IPPROTO_TCP = 6"
definition IPPROTO_UDP :: u16 where "IPPROTO_UDP = 17"

definition dpi_add_default_policy ::
  "addr_env \<Rightarrow> dpi_fqdn_hdl \<Rightarrow> (nat \<Rightarrow> bool \<times> bool) \<Rightarrow> dpi_policy_hdl \<Rightarrow> rule_counter \<Rightarrow> (dpi_policy_hdl \<times> rule_counter) option" where
  "dpi_add_default_policy env fq oom hdl c =
     (let key_l = zero_key\<lparr>k_proto := IPPROTO_ICMP\<rparr>;
          key_h = zero_key\<lparr>k_sip := 0xffffffff, k_dip := 0xffffffff, k_proto := IPPROTO_ICMP\<rparr>;
          desc = zero_desc\<lparr>d_action := DP_POLICY_ACTION_ALLOW, d_id := 0, d_order := 0xffffffff\<rparr>
      in map_option (\<lambda>(_, hdl', c', _, _). (hdl', c'))
           (dpi_rule_add env fq oom hdl c key_l (Some key_h) [] POLICY_RULE_DIR_NONE desc))"

subsection \<open>Unknown addresses\<close>

record dpi_unknown_ip_cache =
  uc_sip :: u32
  uc_dip :: u32
  uc_hdl_ver :: u16
  uc_start_hit :: u32
  uc_last_hit :: u32
  uc_ts_entry :: nat

text \<open>The cache of the thread with its timer wheel and tick; \<open>uip_fresh\<close> numbers the timer entries.\<close>
record uip_state =
  th_unknown_ip_map :: "dpi_unknown_ip_cache rcu_map"
  uip_timer :: "timer_cb timer_wheel"
  uip_tick :: u32
  uip_fresh :: nat

definition UNKNOWN_IP_CACHE_TIMEOUT :: u16 where "UNKNOWN_IP_CACHE_TIMEOUT = 600"
definition POLICY_DESC_VER_CHG_MAX :: u32 where "POLICY_DESC_VER_CHG_MAX = 60"

definition unknown_ip_match :: "dpi_unknown_ip_cache \<Rightarrow> u32 \<times> u32 \<Rightarrow> bool" where
  "unknown_ip_match c k \<longleftrightarrow> uc_sip c = fst k \<and> uc_dip c = snd k"

definition unknown_ip_hash :: "u32 \<times> u32 \<Rightarrow> u32" where
  "unknown_ip_hash k = sdbm_hash (u32_bytes (fst k)) + sdbm_hash (u32_bytes (snd k))"

definition unknown_ip_release :: "nat \<Rightarrow> dpi_unknown_ip_cache rcu_map \<Rightarrow> dpi_unknown_ip_cache rcu_map" where
  "unknown_ip_release entry m = fst (rcu_map_del m (\<lambda>c. uc_ts_entry c = entry))"

definition add_unknown_ip_cache :: "bool \<Rightarrow> uip_state \<Rightarrow> u32 \<Rightarrow> u32 \<Rightarrow> u16 \<Rightarrow> uip_state" where
  "add_unknown_ip_cache ok st sip dip ver =
     (if \<not> ok then st
      else let n = uip_fresh st;
               cache = \<lparr>uc_sip = sip, uc_dip = dip, uc_hdl_ver = ver, uc_start_hit = uip_tick st,
                        uc_last_hit = uip_tick st, uc_ts_entry = n\<rparr>
           in st\<lparr>th_unknown_ip_map := rcu_map_add (th_unknown_ip_map st) unknown_ip_hash cache (sip, dip),
                 uip_timer := timer_wheel_entry_start (timer_wheel_entry_init (uip_timer st) n) n
                    CB_unknown_ip_release UNKNOWN_IP_CACHE_TIMEOUT (uip_tick st),
                 uip_fresh := n + 1\<rparr>)"

definition update_unknown_ip_cache :: "uip_state \<Rightarrow> dpi_unknown_ip_cache \<Rightarrow> uip_state" where
  "update_unknown_ip_cache st cache =
     st\<lparr>uip_timer := timer_wheel_entry_refresh (uip_timer st) (uc_ts_entry cache) (uip_tick st),
        th_unknown_ip_map := rcu_map_upd (th_unknown_ip_map st) (\<lambda>c. uc_ts_entry c = uc_ts_entry cache)
           (\<lambda>c. c\<lparr>uc_last_hit := uip_tick st\<rparr>)\<rparr>"

definition dpi_policy_implicit_default :: "dpi_policy_hdl option \<Rightarrow> dpi_policy_desc \<Rightarrow> bool" where
  "dpi_policy_implicit_default mhdl desc = (case mhdl of None \<Rightarrow> False
     | Some hdl \<Rightarrow> d_order desc = 0xffffffff \<and> d_id desc = 0 \<and> d_flags desc AND POLICY_DESC_CHECK_VER \<noteq> 0 \<and>
         uint (d_action desc) = h_def_action hdl \<and>
         (d_action desc = DP_POLICY_ACTION_VIOLATE \<or> d_action desc = DP_POLICY_ACTION_DENY))"

definition open_unknown :: "dpi_policy_desc \<Rightarrow> dpi_policy_desc" where
  "open_unknown desc = desc\<lparr>d_flags := (d_flags desc AND NOT POLICY_DESC_CHECK_VER) OR POLICY_DESC_UNKNOWN_IP,
     d_action := DP_POLICY_ACTION_OPEN\<rparr>"

text \<open>\<open>ok\<close>: the allocation of a cache entry succeeds.\<close>
definition dpi_policy_chk_unknown_ip ::
  "bool \<Rightarrow> dpi_policy_hdl option \<Rightarrow> u32 \<Rightarrow> u32 \<Rightarrow> byte \<Rightarrow> dpi_policy_desc \<Rightarrow> uip_state \<Rightarrow> dpi_policy_desc \<times> uip_state" where
  "dpi_policy_chk_unknown_ip ok mhdl sip dip iptype desc st = (case mhdl of None \<Rightarrow> (desc, st)
     | Some hdl \<Rightarrow>
         if iptype = DP_IPTYPE_NONE \<or> iptype = DP_IPTYPE_HOSTIP \<or> iptype = DP_IPTYPE_TUNNELIP then
           (case rcu_map_lookup (th_unknown_ip_map st) unknown_ip_hash unknown_ip_match (sip, dip) of
              Some cache \<Rightarrow>
                if h_ver hdl = uc_hdl_ver cache \<and> uip_tick st - uc_start_hit cache < POLICY_DESC_VER_CHG_MAX
                then (open_unknown desc, update_unknown_ip_cache st cache)
                else (desc, st)
            | None \<Rightarrow> (open_unknown desc, add_unknown_ip_cache ok st sip dip (h_ver hdl)))
         else if iptype = DP_IPTYPE_DEVIP then
           (desc\<lparr>d_flags := d_flags desc AND NOT POLICY_DESC_CHECK_VER, d_action := DP_POLICY_ACTION_OPEN\<rparr>, st)
         else (desc, st))"

subsection \<open>Packets and sessions\<close>

definition ETH_P_IP :: u16 where "ETH_P_IP = 0x0800"

text \<open>The surroundings of a packet lookup: subnets, FQDN tables, and the allocation outcome.\<close>
record pol_env =
  pe_addr :: addr_env
  pe_fqdn :: dpi_fqdn_hdl
  pe_alloc_ok :: bool

text \<open>\<open>dpi_policy_lookup\<close>: the descriptor, the session (its \<open>xff_port\<close> may be set), the unknown-address
  cache, and whether the external-IP threat is raised.\<close>
definition dpi_policy_lookup ::
  "pol_env \<Rightarrow> dpi_packet \<Rightarrow> dpi_session \<Rightarrow> uip_state \<Rightarrow> dpi_policy_hdl option \<Rightarrow> u32 \<Rightarrow> bool \<Rightarrow> bool \<Rightarrow> dpi_policy_desc \<Rightarrow> u32
     \<Rightarrow> (dpi_policy_desc \<times> dpi_session \<times> uip_state \<times> bool) option" where
  "dpi_policy_lookup pe p s st mhdl app to_server xff desc0 xff_replace_dst_ip =
     (let desc1 = (if xff then desc0 else zero_desc);
          proto = ucast (p_ip_proto p) :: u16
      in if p_eth_type p \<noteq> ETH_P_IP then Some (desc1, s, st, False)
         else if proto \<noteq> IPPROTO_TCP \<and> proto \<noteq> IPPROTO_UDP \<and> proto \<noteq> IPPROTO_ICMP then Some (desc1, s, st, False)
         else do {
           let dport0 = (if proto = IPPROTO_ICMP then 0 else if to_server then p_dport p else p_sport p);
           saddr \<leftarrow> ld32 (p_pkt p) (unat (p_l3 p) + 12);
           daddr \<leftarrow> ld32 (p_pkt p) (unat (p_l3 p) + 16);
           let sip0 = (if to_server then saddr else daddr);
           let dip0 = (if to_server then daddr else saddr);
           if xff \<and> sip0 = s_xff_client_ip s then Some (desc1, s, st, False)
           else do {
             let sip = (if xff then s_xff_client_ip s else sip0);
             let dport = (if xff \<and> s_xff_port s > 0 then s_xff_port s else dport0);
             let s1 = (if xff \<and> \<not> s_xff_port s > 0 then s\<lparr>s_xff_port := dport0\<rparr> else s);
             let dip = (if xff \<and> xff_replace_dst_ip > 0 then xff_replace_dst_ip else dip0);
             let desc2 = (if xff then zero_desc else desc1);
             let ing = FLAGS_TEST (p_flags p) DPI_PKT_FLAG_INGRESS;
             let is_ingress = (if to_server then ing else \<not> ing);
             desc3 \<leftarrow> dpi_policy_lookup_by_key (pe_addr pe) (pe_fqdn pe) mhdl sip dip dport proto app is_ingress desc2;
             let remote = (if is_ingress then sip else dip);
             let (desc4, st1) =
               (if d_flags desc3 AND POLICY_DESC_INTERNAL \<noteq> 0 \<and> dpi_policy_implicit_default mhdl desc3
                   \<and> \<not> dpi_is_policy_addr (pe_addr pe) remote
                then dpi_policy_chk_unknown_ip (pe_alloc_ok pe) mhdl sip dip (dpi_ip4_iptype (pe_addr pe) remote) desc3 st
                else (desc3, st));
             Some (desc4, s1, st1, d_flags desc4 AND POLICY_DESC_SVC_EXTIP \<noteq> 0) } })"

text \<open>What the evaluation reads of an endpoint.\<close>
record io_ep_pol =
  ep_policy_hdl :: "dpi_policy_hdl option"
  ep_policy_ver :: u16
  ep_pmac :: bytes
  ep_pips :: "u32 list option"

definition DPI_POLICY_LOG_VIOLATE :: "byte \<Rightarrow> bool" where
  "DPI_POLICY_LOG_VIOLATE action \<longleftrightarrow> action > DP_POLICY_ACTION_CHECK_APP"

definition sess_app :: "dpi_session \<Rightarrow> u32" where
  "sess_app s = (if s_app s \<noteq> 0 then ucast (s_app s) else if s_base_app s \<noteq> 0 then ucast (s_base_app s)
     else DP_POLICY_APP_UNKNOWN)"

text \<open>The evaluation threads the session, the unknown-address cache and the threat indication.\<close>
type_synonym eval_state = "dpi_session \<times> uip_state \<times> bool"

definition eval_desc :: "pol_env \<Rightarrow> dpi_packet \<Rightarrow> dpi_policy_hdl option \<Rightarrow> u32 \<Rightarrow> bool \<Rightarrow> eval_state \<Rightarrow> eval_state option" where
  "eval_desc pe p mhdl app to_server es = (case es of (s, st, thr) \<Rightarrow> do {
     (d, s', st', t) \<leftarrow> dpi_policy_lookup pe p s st mhdl app to_server False (s_policy_desc s) 0;
     Some (s'\<lparr>s_policy_desc := d\<rparr>, st', thr \<or> t) })"

definition eval_xff :: "pol_env \<Rightarrow> dpi_packet \<Rightarrow> dpi_policy_hdl option \<Rightarrow> u32 \<Rightarrow> bool \<Rightarrow> u32 \<Rightarrow> eval_state \<Rightarrow> eval_state option" where
  "eval_xff pe p mhdl app to_server ip es = (case es of (s, st, thr) \<Rightarrow> do {
     (d, s', st', t) \<leftarrow> dpi_policy_lookup pe p s st mhdl app to_server True (s_xff_desc s) ip;
     Some (s'\<lparr>s_xff_desc := d\<rparr>, st', thr \<or> t) })"

text \<open>The lookup of the X-Forwarded-For address, repeated with the application when the result asks for it.\<close>
definition xff_lookup :: "pol_env \<Rightarrow> dpi_packet \<Rightarrow> dpi_policy_hdl option \<Rightarrow> bool \<Rightarrow> u32 \<Rightarrow> eval_state \<Rightarrow> eval_state option" where
  "xff_lookup pe p mhdl to_server ip es = do {
     es1 \<leftarrow> eval_xff pe p mhdl 0 to_server ip es;
     if d_action (s_xff_desc (fst es1)) = DP_POLICY_ACTION_CHECK_APP
     then eval_xff pe p mhdl (ucast (s_xff_app (fst es1))) to_server ip es1
     else Some es1 }"

fun xff_lookup_ips :: "pol_env \<Rightarrow> dpi_packet \<Rightarrow> dpi_policy_hdl option \<Rightarrow> bool \<Rightarrow> u32 list \<Rightarrow> eval_state \<Rightarrow> eval_state option" where
  "xff_lookup_ips pe p mhdl to_server [] es = Some es"
| "xff_lookup_ips pe p mhdl to_server (ip # ips) es = do {
     es' \<leftarrow> xff_lookup pe p mhdl to_server ip es;
     if DPI_POLICY_LOG_VIOLATE (d_action (s_xff_desc (fst es'))) then Some es'
     else xff_lookup_ips pe p mhdl to_server ips es' }"

definition IS_IN_LOOPBACK :: "u32 \<Rightarrow> bool" where
  "IS_IN_LOOPBACK a \<longleftrightarrow> a AND 0xff000000 = 0x7f000000"

definition cmp_mac_prefix :: "bytes \<Rightarrow> bytes \<Rightarrow> bool" where
  "cmp_mac_prefix m1 prefix \<longleftrightarrow> take 4 m1 = take 4 prefix"

definition PROXYMESH_MAC_PREFIX :: bytes where
  "PROXYMESH_MAC_PREFIX = [0x6c, 0x6b, 0x73, 0x74]"

text \<open>The handle and the destination for X-Forwarded-For traffic: on a proxymesh endpoint the handle of the
  original MAC is used, and a loopback destination is replaced by the parent's addresses.\<close>
definition xff_target :: "(bytes \<Rightarrow> io_ep_pol option) \<Rightarrow> io_ep_pol \<Rightarrow> dpi_packet \<Rightarrow> bool
    \<Rightarrow> (dpi_policy_hdl option \<times> bool) option" where
  "xff_target g_ep_map ep p to_server =
     (let same = Some (ep_policy_hdl ep, False) in
      if cmp_mac_prefix (p_ep_mac p) PROXYMESH_MAC_PREFIX \<and> \<not> mac_zero (ep_pmac ep) then
        (case g_ep_map (ep_pmac ep) of None \<Rightarrow> same
         | Some pep \<Rightarrow> (case ep_policy_hdl pep of None \<Rightarrow> same
             | Some phdl \<Rightarrow> do {
                 dip \<leftarrow> ld32 (p_pkt p) (unat (p_l3 p) + (if to_server then 16 else 12));
                 Some (Some phdl, IS_IN_LOOPBACK (ntohl dip)) }))
      else same)"

definition POLICY_CHANGED :: "dpi_policy_desc \<Rightarrow> dpi_policy_desc \<Rightarrow> bool" where
  "POLICY_CHANGED old new \<longleftrightarrow> d_action old \<noteq> d_action new \<or> d_id old \<noteq> d_id new"

text \<open>\<open>dpi_policy_reeval\<close>: the value it returns, the packet with its log flags, and the evaluation state.\<close>
definition dpi_policy_reeval ::
  "pol_env \<Rightarrow> (bytes \<Rightarrow> io_ep_pol option) \<Rightarrow> bool \<Rightarrow> io_ep_pol \<Rightarrow> dpi_packet \<Rightarrow> bool \<Rightarrow> dpi_session \<Rightarrow> uip_state
     \<Rightarrow> (int \<times> dpi_packet \<times> eval_state) option" where
  "dpi_policy_reeval pe g_ep_map xff_enabled ep p to_server s0 st0 = do {
     let hdl = ep_policy_hdl ep;
     let c1 = (d_hdl_ver (s_policy_desc s0) \<noteq> ep_policy_ver ep \<and> d_flags (s_policy_desc s0) AND POLICY_DESC_UNKNOWN_IP \<noteq> 0);
     es1 \<leftarrow> (if c1 then do {
         (s, st, t) \<leftarrow> eval_desc pe p hdl 0 to_server (s0, st0, False);
         Some (if d_flags (s_policy_desc s) AND POLICY_DESC_UNKNOWN_IP \<noteq> 0
               then s\<lparr>s_policy_desc := (s_policy_desc s)\<lparr>d_action :=
                      (case hdl of Some h \<Rightarrow> word_of_int (h_def_action h) | None \<Rightarrow> DP_POLICY_ACTION_OPEN)\<rparr>\<rparr>
               else s, st, t) }
       else Some (s0, st0, False));
     let c2 = (d_hdl_ver (s_policy_desc (fst es1)) \<noteq> ep_policy_ver ep \<and>
               d_flags (s_policy_desc (fst es1)) AND POLICY_DESC_CHECK_VER \<noteq> 0);
     es2 \<leftarrow> (if c2 then eval_desc pe p hdl 0 to_server es1 else Some es1);
     let c3 = (d_action (s_policy_desc (fst es2)) = DP_POLICY_ACTION_CHECK_APP \<and>
               FLAGS_TEST (s_flags (fst es2)) DPI_SESS_FLAG_POLICY_APP_READY \<and>
               (sess_app (fst es2) \<noteq> DP_POLICY_APP_UNKNOWN \<or> \<not> FLAGS_TEST (s_flags (fst es2)) DPI_SESS_FLAG_MID_STREAM));
     es3 \<leftarrow> (if c3 then eval_desc pe p hdl (sess_app (fst es2)) to_server es2 else Some es2);
     let xff = (xff_enabled \<and> FLAGS_TEST (s_flags (fst es3)) DPI_SESS_FLAG_INGRESS \<and>
                FLAGS_TEST (s_flags (fst es3)) DPI_SESS_FLAG_XFF);
     es4 \<leftarrow> (if xff then do {
         (xhdl, dstlo) \<leftarrow> xff_target g_ep_map ep p to_server;
         let s3 = (if s_xff_app (fst es3) = 0 then (fst es3)\<lparr>s_xff_app := ucast (sess_app (fst es3))\<rparr> else fst es3);
         if dstlo then (case ep_pips ep of None \<Rightarrow> Some (s3, snd es3)
             | Some ips \<Rightarrow> xff_lookup_ips pe p xhdl to_server ips (s3, snd es3))
         else xff_lookup pe p xhdl to_server 0 (s3, snd es3) }
       else Some es3);
     let s = fst es4;
     let chg = POLICY_CHANGED (s_policy_desc s0) (s_policy_desc s);
     let xchg = POLICY_CHANGED (s_xff_desc s0) (s_xff_desc s);
     let viol = ((if DPI_POLICY_LOG_VIOLATE (d_action (s_policy_desc s)) then 1 else 0) :: int);
     let xviol = ((if DPI_POLICY_LOG_VIOLATE (d_action (s_xff_desc s)) then 1 else 0) :: int);
     Some (if \<not> (c1 \<or> c2 \<or> c3 \<or> xff) then (0, p, es4)
           else if xff then
             (if chg \<or> xchg then viol + xviol else 0,
              p\<lparr>p_flags := p_flags p OR (if xchg then DPI_PKT_FLAG_LOG_XFF else 0) OR (if chg then DPI_PKT_FLAG_LOG_MID else 0)\<rparr>,
              es4)
           else (if chg then viol else 0, p\<lparr>p_flags := p_flags p OR (if chg then DPI_PKT_FLAG_LOG_MID else 0)\<rparr>, es4)) }"

definition dpi_sess_policy_reeval ::
  "pol_env \<Rightarrow> (bytes \<Rightarrow> io_ep_pol option) \<Rightarrow> dpi_session \<Rightarrow> (int \<times> dpi_session) option" where
  "dpi_sess_policy_reeval pe g_ep_map s =
     (if d_flags (s_policy_desc s) AND POLICY_DESC_CHECK_VER = 0 then Some (0, s)
      else
        let is_ingress = FLAGS_TEST (s_flags s) DPI_SESS_FLAG_INGRESS;
            ep_mac = (if is_ingress then w_mac (s_server s) else w_mac (s_client s))
        in case g_ep_map ep_mac of None \<Rightarrow> Some (0, s)
         | Some ep \<Rightarrow> do {
             let look = (\<lambda>app d. dpi_policy_lookup_by_key (pe_addr pe) (pe_fqdn pe) (ep_policy_hdl ep) (w_ip4 (s_client s))
                        (w_ip4 (s_server s)) (w_port (s_server s)) (ucast (s_ip_proto s)) app is_ingress d);
             let c1 = (d_hdl_ver (s_policy_desc s) \<noteq> ep_policy_ver ep);
             d1 \<leftarrow> (if c1 then look 0 (s_policy_desc s) else Some (s_policy_desc s));
             let c2 = (d_action d1 = DP_POLICY_ACTION_CHECK_APP \<and> FLAGS_TEST (s_flags s) DPI_SESS_FLAG_POLICY_APP_READY);
             d2 \<leftarrow> (if c2 then look (sess_app s) d1 else Some d1);
             Some (if (c1 \<or> c2) \<and> DPI_POLICY_LOG_VIOLATE (d_action d2) \<and> POLICY_CHANGED (s_policy_desc s) d2 then 1 else 0,
                   s\<lparr>s_policy_desc := d2\<rparr>) })"

end
