(* ===== verification/DP_Log.thy ===== *)
theory DP_Log
  imports DP_Policy
begin

text \<open>
  Threat logs, \<open>dpi/dpi_log.c\<close>: the properties of the threats, the assembly of a log message from a packet or a
  session, and the cache that aggregates repeated threats of an endpoint. The fields of a message are kept in
  network byte order, as in the structure that is sent. The text of a message is left out.
\<close>

subsection \<open>Threats\<close>

definition DPI_ACTION_NONE :: byte where "DPI_ACTION_NONE = 0"
definition DPI_ACTION_ALLOW :: byte where "DPI_ACTION_ALLOW = 1"
definition DPI_ACTION_DROP :: byte where "DPI_ACTION_DROP = 2"
definition DPI_ACTION_RESET :: byte where "DPI_ACTION_RESET = 3"
definition DPI_ACTION_BYPASS :: byte where "DPI_ACTION_BYPASS = 4"
definition DPI_ACTION_BLOCK :: byte where "DPI_ACTION_BLOCK = 5"

definition THRT_SEVERITY_INFO :: byte where "THRT_SEVERITY_INFO = 1"
definition THRT_SEVERITY_LOW :: byte where "THRT_SEVERITY_LOW = 2"
definition THRT_SEVERITY_MEDIUM :: byte where "THRT_SEVERITY_MEDIUM = 3"
definition THRT_SEVERITY_HIGH :: byte where "THRT_SEVERITY_HIGH = 4"
definition THRT_SEVERITY_CRITICAL :: byte where "THRT_SEVERITY_CRITICAL = 5"

lemmas action_consts [dp_eval] = DPI_ACTION_NONE_def DPI_ACTION_ALLOW_def DPI_ACTION_DROP_def DPI_ACTION_RESET_def
  DPI_ACTION_BYPASS_def DPI_ACTION_BLOCK_def
  THRT_SEVERITY_INFO_def THRT_SEVERITY_LOW_def THRT_SEVERITY_MEDIUM_def THRT_SEVERITY_HIGH_def THRT_SEVERITY_CRITICAL_def

datatype dpi_threat = DPI_THRT_NONE | DPI_THRT_TCP_FLOOD | DPI_THRT_ICMP_FLOOD | DPI_THRT_IP_SRC_SESSION | DPI_THRT_BAD_PACKET
  | DPI_THRT_IP_TEARDROP | DPI_THRT_TCP_SYN_DATA | DPI_THRT_TCP_SPLIT_HDSHK | DPI_THRT_TCP_NODATA | DPI_THRT_TCP_SMALL_WINDOW
  | DPI_THRT_TCP_SMALL_MSS | DPI_THRT_PING_DEATH | DPI_THRT_DNS_LOOP_PTR | DPI_THRT_SSH_VER_1 | DPI_THRT_SSL_HEARTBLEED
  | DPI_THRT_SSL_CIPHER_OVF | DPI_THRT_SSL_VER_2OR3 | DPI_THRT_SSL_TLS_1DOT0 | DPI_THRT_HTTP_NEG_LEN | DPI_THRT_HTTP_SMUGGLING
  | DPI_THRT_HTTP_SLOWLORIS | DPI_THRT_DNS_OVERFLOW | DPI_THRT_MYSQL_ACCESS_DENY | DPI_THRT_DNS_ZONE_TRANSFER
  | DPI_THRT_ICMP_TUNNELING | DPI_THRT_DNS_TYPE_NULL | DPI_THRT_SQL_INJECTION | DPI_THRT_APACHE_STRUTS_RCE | DPI_THRT_K8S_EXTIP_MITM

record threat_property_t =
  tp_id :: u32
  tp_severity :: byte
  tp_volume :: bool
  tp_ddos :: bool
  tp_freq :: u32

definition tprop :: "u32 \<Rightarrow> byte \<Rightarrow> bool \<Rightarrow> bool \<Rightarrow> u32 \<Rightarrow> threat_property_t" where
  "tprop i s v d f = \<lparr>tp_id = i, tp_severity = s, tp_volume = v, tp_ddos = d, tp_freq = f\<rparr>"

primrec threat_property :: "dpi_threat \<Rightarrow> threat_property_t" where
  "threat_property DPI_THRT_NONE = tprop 0 0 False False 0"
| "threat_property DPI_THRT_TCP_FLOOD = tprop 1001 THRT_SEVERITY_CRITICAL True True 10"
| "threat_property DPI_THRT_ICMP_FLOOD = tprop 1002 THRT_SEVERITY_CRITICAL True True 10"
| "threat_property DPI_THRT_IP_SRC_SESSION = tprop 1003 THRT_SEVERITY_HIGH True True 10"
| "threat_property DPI_THRT_BAD_PACKET = tprop 2001 THRT_SEVERITY_MEDIUM False False 10"
| "threat_property DPI_THRT_IP_TEARDROP = tprop 2002 THRT_SEVERITY_CRITICAL False True 10"
| "threat_property DPI_THRT_TCP_SYN_DATA = tprop 2003 THRT_SEVERITY_MEDIUM False False 10"
| "threat_property DPI_THRT_TCP_SPLIT_HDSHK = tprop 2004 THRT_SEVERITY_MEDIUM False False 10"
| "threat_property DPI_THRT_TCP_NODATA = tprop 2005 THRT_SEVERITY_MEDIUM False True 10"
| "threat_property DPI_THRT_TCP_SMALL_WINDOW = tprop 2016 THRT_SEVERITY_HIGH False True 10"
| "threat_property DPI_THRT_TCP_SMALL_MSS = tprop 2025 THRT_SEVERITY_HIGH False False 10"
| "threat_property DPI_THRT_PING_DEATH = tprop 2006 THRT_SEVERITY_CRITICAL False False (- 1)"
| "threat_property DPI_THRT_DNS_LOOP_PTR = tprop 2007 THRT_SEVERITY_CRITICAL False False 10"
| "threat_property DPI_THRT_SSH_VER_1 = tprop 2008 THRT_SEVERITY_LOW False False 10"
| "threat_property DPI_THRT_SSL_HEARTBLEED = tprop 2009 THRT_SEVERITY_CRITICAL False False 10"
| "threat_property DPI_THRT_SSL_CIPHER_OVF = tprop 2010 THRT_SEVERITY_CRITICAL False False 10"
| "threat_property DPI_THRT_SSL_VER_2OR3 = tprop 2011 THRT_SEVERITY_MEDIUM False False 10"
| "threat_property DPI_THRT_SSL_TLS_1DOT0 = tprop 2012 THRT_SEVERITY_INFO False False 10"
| "threat_property DPI_THRT_HTTP_NEG_LEN = tprop 2013 THRT_SEVERITY_HIGH False False 10"
| "threat_property DPI_THRT_HTTP_SMUGGLING = tprop 2014 THRT_SEVERITY_HIGH False False 10"
| "threat_property DPI_THRT_HTTP_SLOWLORIS = tprop 2015 THRT_SEVERITY_CRITICAL False True 10"
| "threat_property DPI_THRT_DNS_OVERFLOW = tprop 2017 THRT_SEVERITY_CRITICAL False False 10"
| "threat_property DPI_THRT_MYSQL_ACCESS_DENY = tprop 2018 THRT_SEVERITY_INFO False False 10"
| "threat_property DPI_THRT_DNS_ZONE_TRANSFER = tprop 2019 THRT_SEVERITY_CRITICAL False False 10"
| "threat_property DPI_THRT_ICMP_TUNNELING = tprop 2020 THRT_SEVERITY_CRITICAL False False (- 1)"
| "threat_property DPI_THRT_DNS_TYPE_NULL = tprop 2021 THRT_SEVERITY_CRITICAL False False 10"
| "threat_property DPI_THRT_SQL_INJECTION = tprop 2022 THRT_SEVERITY_CRITICAL False False 10"
| "threat_property DPI_THRT_APACHE_STRUTS_RCE = tprop 2023 THRT_SEVERITY_CRITICAL False False 10"
| "threat_property DPI_THRT_K8S_EXTIP_MITM = tprop 2026 THRT_SEVERITY_CRITICAL False False 10"

text \<open>\<open>threat_config\<close>: whether the threat is enabled, and its action.\<close>
primrec threat_config :: "dpi_threat \<Rightarrow> bool \<times> byte" where
  "threat_config DPI_THRT_NONE = (False, DPI_ACTION_NONE)"
| "threat_config DPI_THRT_TCP_FLOOD = (False, DPI_ACTION_DROP)"
| "threat_config DPI_THRT_ICMP_FLOOD = (True, DPI_ACTION_DROP)"
| "threat_config DPI_THRT_IP_SRC_SESSION = (False, DPI_ACTION_DROP)"
| "threat_config DPI_THRT_BAD_PACKET = (True, DPI_ACTION_DROP)"
| "threat_config DPI_THRT_IP_TEARDROP = (True, DPI_ACTION_DROP)"
| "threat_config DPI_THRT_TCP_SYN_DATA = (False, DPI_ACTION_DROP)"
| "threat_config DPI_THRT_TCP_SPLIT_HDSHK = (True, DPI_ACTION_ALLOW)"
| "threat_config DPI_THRT_TCP_NODATA = (False, DPI_ACTION_RESET)"
| "threat_config DPI_THRT_TCP_SMALL_WINDOW = (False, DPI_ACTION_RESET)"
| "threat_config DPI_THRT_TCP_SMALL_MSS = (True, DPI_ACTION_DROP)"
| "threat_config DPI_THRT_PING_DEATH = (True, DPI_ACTION_DROP)"
| "threat_config DPI_THRT_DNS_LOOP_PTR = (True, DPI_ACTION_DROP)"
| "threat_config DPI_THRT_SSH_VER_1 = (True, DPI_ACTION_ALLOW)"
| "threat_config DPI_THRT_SSL_HEARTBLEED = (True, DPI_ACTION_DROP)"
| "threat_config DPI_THRT_SSL_CIPHER_OVF = (True, DPI_ACTION_DROP)"
| "threat_config DPI_THRT_SSL_VER_2OR3 = (True, DPI_ACTION_DROP)"
| "threat_config DPI_THRT_SSL_TLS_1DOT0 = (False, DPI_ACTION_ALLOW)"
| "threat_config DPI_THRT_HTTP_NEG_LEN = (True, DPI_ACTION_DROP)"
| "threat_config DPI_THRT_HTTP_SMUGGLING = (True, DPI_ACTION_DROP)"
| "threat_config DPI_THRT_HTTP_SLOWLORIS = (False, DPI_ACTION_RESET)"
| "threat_config DPI_THRT_DNS_OVERFLOW = (True, DPI_ACTION_ALLOW)"
| "threat_config DPI_THRT_MYSQL_ACCESS_DENY = (True, DPI_ACTION_ALLOW)"
| "threat_config DPI_THRT_DNS_ZONE_TRANSFER = (True, DPI_ACTION_DROP)"
| "threat_config DPI_THRT_ICMP_TUNNELING = (True, DPI_ACTION_ALLOW)"
| "threat_config DPI_THRT_DNS_TYPE_NULL = (False, DPI_ACTION_ALLOW)"
| "threat_config DPI_THRT_SQL_INJECTION = (True, DPI_ACTION_ALLOW)"
| "threat_config DPI_THRT_APACHE_STRUTS_RCE = (True, DPI_ACTION_DROP)"
| "threat_config DPI_THRT_K8S_EXTIP_MITM = (True, DPI_ACTION_DROP)"

text \<open>An index is a value of the enumeration, so the range tests of the two queries are void.\<close>
definition dpi_threat_status :: "dpi_threat \<Rightarrow> bool" where
  "dpi_threat_status idx = fst (threat_config idx)"

definition dpi_threat_action :: "dpi_threat \<Rightarrow> byte" where
  "dpi_threat_action idx = snd (threat_config idx)"

subsection \<open>Messages\<close>

record threat_log =
  l_ThreatID :: u32
  l_ReportedAt :: u32
  l_Count :: u32
  l_Action :: byte
  l_Severity :: byte
  l_IPProto :: byte
  l_Flags :: byte
  l_EPMAC :: bytes
  l_EtherType :: u16
  l_SrcIP :: bytes
  l_DstIP :: bytes
  l_SrcPort :: u16
  l_DstPort :: u16
  l_ICMPCode :: byte
  l_ICMPType :: byte
  l_Application :: u16
  l_PktLen :: u16
  l_CapLen :: u16
  l_Packet :: bytes
  l_DlpNameHash :: u32

definition DPLOG_MAX_PKT_LEN :: nat where "DPLOG_MAX_PKT_LEN = 2048"
definition DPLOG_FLAG_PKT_INGRESS :: byte where "DPLOG_FLAG_PKT_INGRESS = 0x01"
definition DPLOG_FLAG_SESS_INGRESS :: byte where "DPLOG_FLAG_SESS_INGRESS = 0x02"
definition DPLOG_FLAG_TAP :: byte where "DPLOG_FLAG_TAP = 0x04"

definition zero_log :: threat_log where
  "zero_log = \<lparr>l_ThreatID = 0, l_ReportedAt = 0, l_Count = 0, l_Action = 0, l_Severity = 0, l_IPProto = 0, l_Flags = 0,
     l_EPMAC = replicate 6 0, l_EtherType = 0, l_SrcIP = replicate 16 0, l_DstIP = replicate 16 0, l_SrcPort = 0, l_DstPort = 0,
     l_ICMPCode = 0, l_ICMPType = 0, l_Application = 0, l_PktLen = 0, l_CapLen = 0, l_Packet = replicate DPLOG_MAX_PKT_LEN 0,
     l_DlpNameHash = 0\<rparr>"

abbreviation htons :: "u16 \<Rightarrow> u16" where "htons \<equiv> ntohs"

definition session_app :: "dpi_session \<Rightarrow> u16" where
  "session_app s = (if s_app s > 0 then s_app s else s_base_app s)"

text \<open>\<open>now\<close>: the result of \<open>time(NULL)\<close>.\<close>
definition log_common :: "u32 \<Rightarrow> threat_log \<Rightarrow> dpi_threat \<Rightarrow> threat_log" where
  "log_common now log idx = log\<lparr>l_ThreatID := htonl (tp_id (threat_property idx)), l_Action := snd (threat_config idx),
     l_Severity := tp_severity (threat_property idx), l_ReportedAt := htonl now\<rparr>"

definition log_packet_flags :: "bool \<Rightarrow> threat_log \<Rightarrow> dpi_packet \<Rightarrow> dpi_session option \<Rightarrow> bool \<Rightarrow> threat_log" where
  "log_packet_flags tap log p ms flip =
     (let f1 = (if tap then l_Flags log OR DPLOG_FLAG_TAP else l_Flags log);
          f2 = (if FLAGS_TEST (p_flags p) DPI_PKT_FLAG_INGRESS then (if \<not> flip then f1 OR DPLOG_FLAG_PKT_INGRESS else f1)
                else (if flip then f1 OR DPLOG_FLAG_PKT_INGRESS else f1));
          f3 = (case ms of None \<Rightarrow> f2
                | Some s \<Rightarrow> if FLAGS_TEST (s_flags s) DPI_SESS_FLAG_INGRESS then f2 OR DPLOG_FLAG_SESS_INGRESS else f2)
      in log\<lparr>l_Flags := f3\<rparr>)"

text \<open>\<open>ip4_cpy\<close> into a 16 byte field.\<close>
definition ip4_cpy :: "bytes \<Rightarrow> bytes \<Rightarrow> bytes" where
  "ip4_cpy dst src = take 4 src @ drop 4 dst"

definition IPPROTO_ICMPV6 :: u16 where "IPPROTO_ICMPV6 = 58"

text \<open>Addresses of an IPv4 or IPv6 header at \<open>off\<close>.\<close>
definition hdr_ips :: "dpi_packet \<Rightarrow> threat_log \<Rightarrow> bool \<Rightarrow> threat_log option" where
  "hdr_ips p log flip =
     (if p_eth_type p = ETH_P_IP then do {
        s \<leftarrow> mem_read (p_pkt p) (unat (p_l3 p) + 12) 4;
        d \<leftarrow> mem_read (p_pkt p) (unat (p_l3 p) + 16) 4;
        Some (if \<not> flip then log\<lparr>l_SrcIP := ip4_cpy (l_SrcIP log) s, l_DstIP := ip4_cpy (l_DstIP log) d\<rparr>
              else log\<lparr>l_SrcIP := ip4_cpy (l_SrcIP log) d, l_DstIP := ip4_cpy (l_DstIP log) s\<rparr>) }
      else do {
        s \<leftarrow> mem_read (p_pkt p) (unat (p_l3 p) + 8) 16;
        d \<leftarrow> mem_read (p_pkt p) (unat (p_l3 p) + 24) 16;
        Some (if \<not> flip then log\<lparr>l_SrcIP := s, l_DstIP := d\<rparr> else log\<lparr>l_SrcIP := d, l_DstIP := s\<rparr>) })"

definition log_packet_detail :: "threat_log \<Rightarrow> dpi_packet \<Rightarrow> dpi_session option \<Rightarrow> bool \<Rightarrow> threat_log option" where
  "log_packet_detail log p ms flip = do {
     let log0 = log\<lparr>l_EtherType := htons (p_eth_type p)\<rparr>;
     log1 \<leftarrow> (if p_l3 p > 0 then hdr_ips p (log0\<lparr>l_IPProto := p_ip_proto p\<rparr>) flip else Some log0);
     let proto = (ucast (p_ip_proto p) :: u16);
     log2 \<leftarrow> (if p_l4 p > 0 then
                (if proto = IPPROTO_TCP \<or> proto = IPPROTO_UDP then
                   Some (if \<not> flip then log1\<lparr>l_SrcPort := htons (p_sport p), l_DstPort := htons (p_dport p)\<rparr>
                         else log1\<lparr>l_SrcPort := htons (p_dport p), l_DstPort := htons (p_sport p)\<rparr>)
                 else if proto = IPPROTO_ICMP \<or> proto = IPPROTO_ICMPV6 then do {
                   c \<leftarrow> rd8 (p_pkt p) (unat (p_l4 p) + 1);
                   t \<leftarrow> rd8 (p_pkt p) (unat (p_l4 p));
                   Some (log1\<lparr>l_ICMPCode := c, l_ICMPType := t\<rparr>) }
                 else Some log1)
              else Some log1);
     Some (case ms of None \<Rightarrow> log2 | Some s \<Rightarrow> log2\<lparr>l_Application := htons (session_app s)\<rparr>) }"

definition log_session_flags :: "threat_log \<Rightarrow> dpi_session \<Rightarrow> threat_log" where
  "log_session_flags log s =
     (let f1 = (if FLAGS_TEST (s_flags s) DPI_SESS_FLAG_TAP then l_Flags log OR DPLOG_FLAG_TAP else l_Flags log);
          f2 = (if FLAGS_TEST (s_flags s) DPI_SESS_FLAG_INGRESS
                then f1 OR (DPLOG_FLAG_SESS_INGRESS OR DPLOG_FLAG_PKT_INGRESS) else f1)
      in log\<lparr>l_Flags := f2\<rparr>)"

definition ETH_P_IPV6 :: u16 where "ETH_P_IPV6 = 0x86DD"

definition log_session_detail :: "threat_log \<Rightarrow> dpi_session \<Rightarrow> threat_log" where
  "log_session_detail log s =
     (let c = s_client s; v = s_server s;
          log1 = (if FLAGS_TEST (s_flags s) DPI_SESS_FLAG_IPV4
                  then log\<lparr>l_IPProto := s_ip_proto s, l_EtherType := htons ETH_P_IP,
                           l_SrcIP := ip4_cpy (l_SrcIP log) (u32_bytes (w_ip4 c)), l_DstIP := ip4_cpy (l_DstIP log) (u32_bytes (w_ip4 v))\<rparr>
                  else log\<lparr>l_IPProto := s_ip_proto s, l_EtherType := htons ETH_P_IPV6, l_SrcIP := w_ip6 c, l_DstIP := w_ip6 v\<rparr>);
          proto = (ucast (s_ip_proto s) :: u16);
          log2 = (if proto = IPPROTO_TCP \<or> proto = IPPROTO_UDP
                  then log1\<lparr>l_SrcPort := htons (w_port c), l_DstPort := htons (w_port v)\<rparr>
                  else if proto = IPPROTO_ICMP \<or> proto = IPPROTO_ICMPV6
                  then log1\<lparr>l_ICMPCode := ucast (w_port v AND 0xff), l_ICMPType := ucast (drop_bit 8 (w_port v) AND 0xff)\<rparr>
                  else log1)
      in log2\<lparr>l_Application := htons (session_app s)\<rparr>)"

text \<open>\<open>store_packet\<close>: the first bytes of the packet, with the MAC address of the endpoint put back.\<close>
definition store_packet :: "threat_log \<Rightarrow> dpi_packet \<Rightarrow> threat_log option" where
  "store_packet log p = do {
     let n = (if unat (p_cap_len p) < DPLOG_MAX_PKT_LEN then unat (p_cap_len p) else DPLOG_MAX_PKT_LEN);
     src \<leftarrow> mem_read (p_pkt p) 0 n;
     pkt \<leftarrow> mem_write (l_Packet log) 0 src;
     let log1 = log\<lparr>l_CapLen := htons (p_cap_len p), l_PktLen := htons (of_nat n), l_Packet := pkt\<rparr>;
     if p_cap_len p \<ge> 14 then do {
       pkt' \<leftarrow> mem_write pkt (unat (p_l2 p) + (if FLAGS_TEST (p_flags p) DPI_PKT_FLAG_INGRESS then 0 else 6)) (take 6 (p_ep_mac p));
       Some (log1\<lparr>l_Packet := pkt'\<rparr>) }
     else Some log1 }"

subsection \<open>The cache of threats\<close>

record log_cache =
  lc_log :: threat_log
  lc_count :: u32
  lc_last_log :: u32
  lc_ts_entry :: nat

text \<open>The thread's cache with its timer, tick and wall clock; \<open>lg_out\<close> holds what was handed to the
  \<open>threat_log\<close> callback.\<close>
record log_state =
  th_log_map :: "log_cache rcu_map"
  lg_timer :: "timer_cb timer_wheel"
  lg_tick :: u32
  lg_time :: u32
  lg_fresh :: nat
  lg_cur_caches :: u32
  lg_out :: "threat_log list"

definition LOG_CACHE_TIMEOUT :: u16 where "LOG_CACHE_TIMEOUT = 5"
definition DPI_SIG_MIN_USER_SIG_ID :: u32 where "DPI_SIG_MIN_USER_SIG_ID = 20000"

definition log_dlp_match :: "log_cache \<Rightarrow> threat_log \<Rightarrow> bool" where
  "log_dlp_match c k \<longleftrightarrow> l_DlpNameHash (lc_log c) = l_DlpNameHash k \<and> l_Flags (lc_log c) = l_Flags k \<and> l_EPMAC (lc_log c) = l_EPMAC k"

definition log_match :: "log_cache \<Rightarrow> threat_log \<Rightarrow> bool" where
  "log_match c k \<longleftrightarrow>
     (if l_ThreatID k > DPI_SIG_MIN_USER_SIG_ID then log_dlp_match c k
      else l_ThreatID (lc_log c) = l_ThreatID k \<and> l_Flags (lc_log c) = l_Flags k \<and> l_EPMAC (lc_log c) = l_EPMAC k)"

definition log_dlp_hash :: "threat_log \<Rightarrow> u32" where
  "log_dlp_hash k = sdbm_hash (l_EPMAC k) + l_DlpNameHash k"

definition log_hash :: "threat_log \<Rightarrow> u32" where
  "log_hash k = (if l_ThreatID k > DPI_SIG_MIN_USER_SIG_ID then log_dlp_hash k else sdbm_hash (l_EPMAC k) + l_ThreatID k)"

definition log_release :: "nat \<Rightarrow> log_state \<Rightarrow> log_state" where
  "log_release entry st = (case find (\<lambda>c. lc_ts_entry c = entry) (map snd (th_log_map st)) of None \<Rightarrow> st
     | Some c \<Rightarrow>
         let st1 = (if lc_count c > 0
                    then st\<lparr>lg_out := lg_out st @ [(lc_log c)\<lparr>l_Count := htonl (lc_count c), l_ReportedAt := htonl (lg_time st)\<rparr>]\<rparr>
                    else st)
         in st1\<lparr>lg_cur_caches := lg_cur_caches st - 1, th_log_map := fst (rcu_map_del (th_log_map st) (\<lambda>c. lc_ts_entry c = entry))\<rparr>)"

definition add_cache :: "bool \<Rightarrow> log_state \<Rightarrow> threat_log \<Rightarrow> threat_log \<Rightarrow> log_state" where
  "add_cache ok st log key =
     (if \<not> ok then st
      else let n = lg_fresh st;
               cache = \<lparr>lc_log = log, lc_count = 0, lc_last_log = lg_tick st, lc_ts_entry = n\<rparr>
           in st\<lparr>th_log_map := rcu_map_add (th_log_map st) log_hash cache key,
                 lg_cur_caches := lg_cur_caches st + 1,
                 lg_timer := timer_wheel_entry_start (timer_wheel_entry_init (lg_timer st) n) n
                    CB_log_release LOG_CACHE_TIMEOUT (lg_tick st),
                 lg_fresh := n + 1\<rparr>)"

definition upd_cache :: "log_state \<Rightarrow> log_cache \<Rightarrow> (log_cache \<Rightarrow> log_cache) \<Rightarrow> log_state" where
  "upd_cache st cache f = st\<lparr>th_log_map := rcu_map_upd (th_log_map st) (\<lambda>c. lc_ts_entry c = lc_ts_entry cache) f\<rparr>"

text \<open>\<open>update_cache\<close> returns the count to be logged.\<close>
definition update_cache :: "log_state \<Rightarrow> log_cache \<Rightarrow> threat_property_t \<Rightarrow> log_state \<times> u32" where
  "update_cache st cache tp =
     (let st1 = st\<lparr>lg_timer := timer_wheel_entry_refresh (lg_timer st) (lc_ts_entry cache) (lg_tick st)\<rparr>
      in if lg_tick st - lc_last_log cache < tp_freq tp
         then (upd_cache st1 cache (\<lambda>c. c\<lparr>lc_count := lc_count c + 1\<rparr>), 0)
         else (upd_cache st1 cache (\<lambda>c. c\<lparr>lc_count := 0, lc_last_log := lg_tick st\<rparr>), lc_count cache + 1))"

definition dpi_set_action :: "dpi_packet \<Rightarrow> byte \<Rightarrow> dpi_packet" where
  "dpi_set_action p act = (if p_action p > DPI_ACTION_ALLOW \<and> act \<le> DPI_ACTION_ALLOW then p else p\<lparr>p_action := act\<rparr>)"

definition DPI_SESS_TERM_THREAT :: byte where "DPI_SESS_TERM_THREAT = 2"

definition dpi_session_term_reason :: "dpi_session \<Rightarrow> byte \<Rightarrow> dpi_session" where
  "dpi_session_term_reason s r = s\<lparr>s_term_reason := r\<rparr>"

text \<open>The threat's mark on the packet and on its session, if it has one.\<close>
definition mark_packet :: "dpi_threat \<Rightarrow> dpi_packet \<Rightarrow> dpi_packet" where
  "mark_packet idx p = (let tp = threat_property idx in
     if tp_severity tp > p_severity p then p\<lparr>p_threat_id := tp_id tp, p_severity := tp_severity tp\<rparr> else p)"

definition mark_session :: "dpi_threat \<Rightarrow> dpi_packet \<Rightarrow> dpi_session option \<Rightarrow> dpi_packet \<times> dpi_session option" where
  "mark_session idx p ms = (case ms of None \<Rightarrow> (p, None)
     | Some s \<Rightarrow>
         let act = snd (threat_config idx); tp = threat_property idx;
             s1 = (if act = DPI_ACTION_RESET \<or> act = DPI_ACTION_DROP then dpi_session_term_reason s DPI_SESS_TERM_THREAT else s)
         in if tp_severity tp > s_severity s1
            then (p\<lparr>p_flags := p_flags p OR DPI_PKT_FLAG_LOG_MID\<rparr>, Some (s1\<lparr>s_threat_id := tp_id tp, s_severity := tp_severity tp\<rparr>))
            else (p, Some s1))"

text \<open>What a trigger works on: \<open>tap\<close> is \<open>p->ep->tap\<close>, the empty MAC address is the null pointer.\<close>
definition dpi_threat_trigger_dir ::
  "bool \<Rightarrow> bool \<Rightarrow> dpi_threat \<Rightarrow> bool \<Rightarrow> log_state \<Rightarrow> dpi_packet \<Rightarrow> dpi_session option \<Rightarrow> (log_state \<times> dpi_packet \<times> dpi_session option) option" where
  "dpi_threat_trigger_dir ok tap idx flip st p ms =
     (if \<not> dpi_threat_status idx then Some (st, p, ms)
      else let p1 = dpi_set_action p (snd (threat_config idx)) in
        if p_ep_mac p = [] then Some (st, p1, ms)
        else do {
          let log0 = zero_log\<lparr>l_ThreatID := htonl (tp_id (threat_property idx)), l_EPMAC := take 6 (p_ep_mac p1)\<rparr>;
          let log1 = log_packet_flags tap log0 p1 ms flip;
          let p2 = mark_packet idx p1;
          let log2 = (case ms of None \<Rightarrow> log1
             | Some s \<Rightarrow> if FLAGS_TEST (s_flags s) DPI_SESS_FLAG_INGRESS then log1\<lparr>l_Flags := l_Flags log1 OR DPLOG_FLAG_SESS_INGRESS\<rparr> else log1);
          let (p3, ms3) = mark_session idx p2 ms;
          let found = rcu_map_lookup (th_log_map st) log_hash log_match log2;
          let (st1, count) = (case found of None \<Rightarrow> (st, 1) | Some c \<Rightarrow> update_cache st c (threat_property idx));
          (case found of
             Some c \<Rightarrow>
               if count = 0 then do {
                 lg \<leftarrow> store_packet (lc_log c) p3;
                 Some (upd_cache st1 c (\<lambda>c. c\<lparr>lc_log := lg\<rparr>), p3, ms3) }
               else do {
                 d \<leftarrow> log_packet_detail ((log_common (lg_time st) log2 idx)\<lparr>l_Count := htonl count\<rparr>) p3 ms3 flip;
                 lg \<leftarrow> store_packet d p3;
                 let st2 = upd_cache st1 c (\<lambda>c. c\<lparr>lc_log := lg\<rparr>);
                 Some (st2\<lparr>lg_out := lg_out st2 @ [lg]\<rparr>, p3, ms3) }
           | None \<Rightarrow> do {
               d \<leftarrow> log_packet_detail ((log_common (lg_time st) log2 idx)\<lparr>l_Count := htonl count\<rparr>) p3 ms3 flip;
               lg \<leftarrow> store_packet d p3;
               let st2 = add_cache ok st1 lg lg;
               Some (st2\<lparr>lg_out := lg_out st2 @ [lg]\<rparr>, p3, ms3) }) })"

definition dpi_threat_trigger where
  "dpi_threat_trigger ok tap idx st p ms = dpi_threat_trigger_dir ok tap idx False st p ms"

definition dpi_threat_trigger_flip where
  "dpi_threat_trigger_flip ok tap idx st p ms = dpi_threat_trigger_dir ok tap idx True st p ms"

text \<open>The parts of \<open>dpi_threat_log_by_session\<close>: the key of the message, and the mark on the session.\<close>
definition session_key :: "dpi_threat \<Rightarrow> dpi_session \<Rightarrow> threat_log" where
  "session_key idx s = log_session_flags (zero_log\<lparr>l_ThreatID := htonl (tp_id (threat_property idx)),
     l_EPMAC := take 6 (if FLAGS_TEST (s_flags s) DPI_SESS_FLAG_INGRESS then w_mac (s_server s) else w_mac (s_client s))\<rparr>) s"

definition session_mark :: "dpi_threat \<Rightarrow> dpi_session \<Rightarrow> dpi_session" where
  "session_mark idx s =
     (let tp = threat_property idx; act = snd (threat_config idx);
          s1 = (if act = DPI_ACTION_RESET \<or> act = DPI_ACTION_DROP then dpi_session_term_reason s DPI_SESS_TERM_THREAT else s)
      in if tp_severity tp > s_severity s1 then s1\<lparr>s_threat_id := tp_id tp, s_severity := tp_severity tp\<rparr> else s1)"

definition dpi_threat_log_by_session ::
  "bool \<Rightarrow> dpi_threat \<Rightarrow> log_state \<Rightarrow> dpi_session \<Rightarrow> log_state \<times> dpi_session" where
  "dpi_threat_log_by_session ok idx st s =
     (let key = session_key idx s;
          s2 = session_mark idx s;
          found = rcu_map_lookup (th_log_map st) log_hash log_match key;
          (st1, count) = (case found of None \<Rightarrow> (st, 1) | Some c \<Rightarrow> update_cache st c (threat_property idx));
          lg = log_session_detail ((log_common (lg_time st) key idx)\<lparr>l_Count := htonl count\<rparr>) s2
      in (case found of
            Some c \<Rightarrow> if count = 0 then (st1, s2)
                      else let st2 = upd_cache st1 c (\<lambda>c. c\<lparr>lc_log := lg\<rparr>) in (st2\<lparr>lg_out := lg_out st2 @ [lg]\<rparr>, s2)
          | None \<Rightarrow> let st2 = add_cache ok st1 lg lg in (st2\<lparr>lg_out := lg_out st2 @ [lg]\<rparr>, s2)))"

subsection \<open>Every threat is counted once\<close>

text \<open>The counts handed out so far, and the counts still held in the cache, as 32-bit sums.\<close>
definition reported :: "log_state \<Rightarrow> u32" where
  "reported st = sum_list (map (\<lambda>l. ntohl (l_Count l)) (lg_out st))"

definition pending :: "log_state \<Rightarrow> u32" where
  "pending st = sum_list (map (\<lambda>(h, c). lc_count c) (th_log_map st))"

definition cache_ids :: "log_state \<Rightarrow> nat list" where
  "cache_ids st = map (\<lambda>(h, c). lc_ts_entry c) (th_log_map st)"

text \<open>Cache entries are different objects, and every message kept has its full packet field.\<close>
definition log_inv :: "log_state \<Rightarrow> bool" where
  "log_inv st \<longleftrightarrow> distinct (cache_ids st) \<and> (\<forall>n \<in> set (cache_ids st). n < lg_fresh st) \<and>
     (\<forall>(h, c) \<in> set (th_log_map st). length (l_Packet (lc_log c)) = DPLOG_MAX_PKT_LEN)"

lemma sum_lfht_add: "sum_list (map f (cds_lfht_add m h d)) = (f (h, d) :: 'a::comm_monoid_add) + sum_list (map f m)"
  by (induction m h d rule: cds_lfht_add.induct) (auto simp: add.left_commute)

lemma sum_upd:
  fixes g :: "log_cache \<Rightarrow> u32"
  assumes "distinct (map (\<lambda>(h, c). lc_ts_entry c) m)" "(h0, c) \<in> set m"
  shows "sum_list (map (\<lambda>(h, c). g c) (rcu_map_upd m (\<lambda>d. lc_ts_entry d = lc_ts_entry c) f)) =
    sum_list (map (\<lambda>(h, c). g c) m) - g c + g (f c)"
  using assms
proof (induction m)
  case (Cons x m)
  obtain h d where x: "x = (h, d)" by (cases x)
  have same: "map (\<lambda>(h, d). (h, if lc_ts_entry d = lc_ts_entry c then f d else d)) m = m" if "lc_ts_entry c \<notin> set (map (\<lambda>(h, c). lc_ts_entry c) m)"
    using that by (intro map_idI) force
  show ?case
  proof (cases "lc_ts_entry d = lc_ts_entry c")
    case True
    then have "lc_ts_entry c \<notin> set (map (\<lambda>(h, c). lc_ts_entry c) m)" using Cons.prems(1) x by simp
    moreover from this have "(h0, c) \<notin> set m" by force
    ultimately show ?thesis using Cons.prems(2) x same by (auto simp: rcu_map_upd_def)
  next
    case False
    then have "(h0, c) \<in> set m" using Cons.prems(2) x by auto
    then show ?thesis using Cons.IH Cons.prems(1) x False by (simp add: rcu_map_upd_def add_ac)
  qed
qed simp

lemma sum_del:
  fixes g :: "log_cache \<Rightarrow> u32"
  assumes "distinct (map (\<lambda>(h, c). lc_ts_entry c) m)" "(h0, c) \<in> set m"
  shows "sum_list (map (\<lambda>(h, c). g c) (fst (rcu_map_del m (\<lambda>d. lc_ts_entry d = lc_ts_entry c)))) =
    sum_list (map (\<lambda>(h, c). g c) m) - g c"
  using assms
proof (induction m)
  case (Cons x m)
  obtain h d where x: "x = (h, d)" by (cases x)
  have same: "filter (\<lambda>(h, d). lc_ts_entry d \<noteq> lc_ts_entry c) m = m" if "lc_ts_entry c \<notin> set (map (\<lambda>(h, c). lc_ts_entry c) m)"
    using that by (intro filter_True) force
  show ?case
  proof (cases "lc_ts_entry d = lc_ts_entry c")
    case True
    then have "lc_ts_entry c \<notin> set (map (\<lambda>(h, c). lc_ts_entry c) m)" using Cons.prems(1) x by simp
    moreover from this have "(h0, c) \<notin> set m" by force
    ultimately show ?thesis using Cons.prems(2) x same by (auto simp: rcu_map_del_def)
  next
    case False
    then have "(h0, c) \<in> set m" using Cons.prems(2) x by auto
    then show ?thesis using Cons.IH Cons.prems(1) x False by (simp add: rcu_map_del_def)
  qed
qed simp

lemma ids_upd:
  assumes "\<And>c. lc_ts_entry (f c) = lc_ts_entry c"
  shows "map (\<lambda>(h, c). lc_ts_entry c) (rcu_map_upd m P f) = map (\<lambda>(h, c). lc_ts_entry c) m"
  using assms by (auto simp: rcu_map_upd_def)

lemma upd_cache_spec:
  assumes "log_inv st" "(h0, c) \<in> set (th_log_map st)" "\<And>c. lc_ts_entry (f c) = lc_ts_entry c"
    "\<And>c. length (l_Packet (lc_log c)) = DPLOG_MAX_PKT_LEN \<Longrightarrow> length (l_Packet (lc_log (f c))) = DPLOG_MAX_PKT_LEN"
  shows "log_inv (upd_cache st c f)" "pending (upd_cache st c f) = pending st - lc_count c + lc_count (f c)"
    "reported (upd_cache st c f) = reported st" "lg_out (upd_cache st c f) = lg_out st"
    "\<exists>h c'. (h, c') \<in> set (th_log_map (upd_cache st c f)) \<and> c' = f c"
proof -
  have ids: "cache_ids (upd_cache st c f) = cache_ids st" using ids_upd[OF assms(3)] by (simp add: cache_ids_def upd_cache_def)
  show "log_inv (upd_cache st c f)"
    using assms(1,4) unfolding log_inv_def ids by (auto simp: upd_cache_def rcu_map_upd_def)
  show "pending (upd_cache st c f) = pending st - lc_count c + lc_count (f c)"
    using sum_upd[OF _ assms(2), of lc_count f] assms(1) by (simp add: pending_def upd_cache_def log_inv_def cache_ids_def)
  show "reported (upd_cache st c f) = reported st" "lg_out (upd_cache st c f) = lg_out st" by (simp_all add: reported_def upd_cache_def)
  show "\<exists>h c'. (h, c') \<in> set (th_log_map (upd_cache st c f)) \<and> c' = f c"
    using assms(2) by (force simp: upd_cache_def rcu_map_upd_def)
qed

lemma log_inv_timer [simp]: "log_inv (st\<lparr>lg_timer := w\<rparr>) = log_inv st" "pending (st\<lparr>lg_timer := w\<rparr>) = pending st"
  "reported (st\<lparr>lg_timer := w\<rparr>) = reported st"
  by (simp_all add: log_inv_def cache_ids_def pending_def reported_def)

lemma emit_spec: "log_inv (st\<lparr>lg_out := lg_out st @ [lg]\<rparr>) = log_inv st" "pending (st\<lparr>lg_out := lg_out st @ [lg]\<rparr>) = pending st"
  "reported (st\<lparr>lg_out := lg_out st @ [lg]\<rparr>) = reported st + ntohl (l_Count lg)"
  by (simp_all add: log_inv_def cache_ids_def pending_def reported_def)

lemma update_cache_spec:
  assumes inv: "log_inv st" and c: "(h0, c) \<in> set (th_log_map st)" and u: "update_cache st c tp = (st1, n)"
  shows "log_inv st1" "reported st1 = reported st" "pending st1 + n = pending st + 1"
    "\<exists>h c'. (h, c') \<in> set (th_log_map st1) \<and> lc_ts_entry c' = lc_ts_entry c"
proof -
  let ?st = "st\<lparr>lg_timer := timer_wheel_entry_refresh (lg_timer st) (lc_ts_entry c) (lg_tick st)\<rparr>"
  have i: "log_inv ?st" and m: "(h0, c) \<in> set (th_log_map ?st)" using inv c by simp_all
  show "log_inv st1" "reported st1 = reported st" "pending st1 + n = pending st + 1"
    using u upd_cache_spec(1,2,3)[OF i m, of "\<lambda>c. c\<lparr>lc_count := lc_count c + 1\<rparr>"]
      upd_cache_spec(1,2,3)[OF i m, of "\<lambda>c. c\<lparr>lc_count := 0, lc_last_log := lg_tick st\<rparr>"]
    by (auto simp: update_cache_def Let_def split: if_splits)
  show "\<exists>h c'. (h, c') \<in> set (th_log_map st1) \<and> lc_ts_entry c' = lc_ts_entry c"
    using u upd_cache_spec(5)[OF i m, of "\<lambda>c. c\<lparr>lc_count := lc_count c + 1\<rparr>"]
      upd_cache_spec(5)[OF i m, of "\<lambda>c. c\<lparr>lc_count := 0, lc_last_log := lg_tick st\<rparr>"]
    by (auto simp: update_cache_def Let_def split: if_splits) force+
qed

lemma add_cache_spec:
  assumes "log_inv st" "length (l_Packet lg) = DPLOG_MAX_PKT_LEN"
  shows "log_inv (add_cache ok st lg key)" "pending (add_cache ok st lg key) = pending st" "reported (add_cache ok st lg key) = reported st"
    "lg_out (add_cache ok st lg key) = lg_out st"
proof -
  have ids: "set (cache_ids (add_cache True st lg key)) = insert (lg_fresh st) (set (cache_ids st))"
    by (simp add: add_cache_def cache_ids_def rcu_map_add_def Let_def)
  have len: "length (cds_lfht_add m h d) = Suc (length m)" for m :: "log_cache rcu_map" and h d
    by (induction m h d rule: cds_lfht_add.induct) auto
  have fresh: "lg_fresh st \<notin> set (cache_ids st)" using assms(1) unfolding log_inv_def by blast
  have "length (cache_ids (add_cache True st lg key)) = Suc (length (cache_ids st))"
    by (simp add: add_cache_def cache_ids_def rcu_map_add_def Let_def len)
  then have "distinct (cache_ids (add_cache True st lg key))"
    using ids fresh assms(1) by (intro card_distinct) (simp add: distinct_card log_inv_def)
  then have "log_inv (add_cache True st lg key)"
    using assms ids unfolding log_inv_def by (auto simp: add_cache_def rcu_map_add_def Let_def)
  then show "log_inv (add_cache ok st lg key)" using assms(1) by (cases ok) (simp_all add: add_cache_def)
  show "pending (add_cache ok st lg key) = pending st" "reported (add_cache ok st lg key) = reported st"
    "lg_out (add_cache ok st lg key) = lg_out st"
    by (simp_all add: add_cache_def pending_def reported_def Let_def rcu_map_add_def sum_lfht_add)
qed

lemma mem_write_length: "mem_write buf off src = Some buf' \<Longrightarrow> length buf' = length buf"
  by (auto simp: mem_write_def split: if_splits)

lemma store_packet_keeps:
  assumes "store_packet lg p = Some lg'"
  shows "length (l_Packet lg') = length (l_Packet lg)" "l_Count lg' = l_Count lg"
  using assms by (auto simp: store_packet_def Let_def split: bind_splits if_splits dest!: mem_write_length)

lemma hdr_ips_keeps: "hdr_ips p lg flip = Some lg' \<Longrightarrow> l_Packet lg' = l_Packet lg \<and> l_Count lg' = l_Count lg"
  by (auto simp: hdr_ips_def split: bind_splits if_splits)

lemma log_packet_detail_keeps:
  assumes "log_packet_detail lg p ms flip = Some lg'"
  shows "l_Packet lg' = l_Packet lg" "l_Count lg' = l_Count lg"
  using assms by (auto simp: log_packet_detail_def Let_def split: bind_splits if_splits option.splits dest!: hdr_ips_keeps)

lemma log_packet_flags_keeps [simp]: "l_Packet (log_packet_flags tap lg p ms flip) = l_Packet lg"
  by (simp add: log_packet_flags_def Let_def)

lemma zero_log_packet [simp]: "length (l_Packet zero_log) = DPLOG_MAX_PKT_LEN"
  by (simp add: zero_log_def)

lemma upd_log_spec:
  assumes "log_inv st" "(h, c') \<in> set (th_log_map st)" "lc_ts_entry c' = lc_ts_entry c" "length (l_Packet lg) = DPLOG_MAX_PKT_LEN"
  shows "log_inv (upd_cache st c (\<lambda>c. c\<lparr>lc_log := lg\<rparr>))" "pending (upd_cache st c (\<lambda>c. c\<lparr>lc_log := lg\<rparr>)) = pending st"
    "reported (upd_cache st c (\<lambda>c. c\<lparr>lc_log := lg\<rparr>)) = reported st"
proof -
  have eq: "upd_cache st c f = upd_cache st c' f" for f using assms(3) by (simp add: upd_cache_def)
  show "log_inv (upd_cache st c (\<lambda>c. c\<lparr>lc_log := lg\<rparr>))" "pending (upd_cache st c (\<lambda>c. c\<lparr>lc_log := lg\<rparr>)) = pending st"
    "reported (upd_cache st c (\<lambda>c. c\<lparr>lc_log := lg\<rparr>)) = reported st"
    unfolding eq using upd_cache_spec(1,2,3)[OF assms(1,2), of "\<lambda>c. c\<lparr>lc_log := lg\<rparr>"] assms(4) by simp_all
qed

lemma trigger_counts:
  assumes inv: "log_inv st" and t: "dpi_threat_trigger_dir ok tap idx flip st p ms = Some (st', p', ms')"
  shows "log_inv st'" "reported st' + pending st' = reported st + pending st + (if dpi_threat_status idx \<and> p_ep_mac p \<noteq> [] then 1 else 0)"
proof -
  have "log_inv st' \<and> reported st' + pending st' = reported st + pending st + (if dpi_threat_status idx \<and> p_ep_mac p \<noteq> [] then 1 else 0)"
  proof (cases "dpi_threat_status idx \<and> p_ep_mac p \<noteq> []")
    case False
    then have "st' = st" using t by (auto simp: dpi_threat_trigger_dir_def Let_def split: if_splits)
    then show ?thesis using inv False by simp
  next
    case True
    define p1 where "p1 = dpi_set_action p (snd (threat_config idx))"
    define log1 where "log1 = log_packet_flags tap (zero_log\<lparr>l_ThreatID := htonl (tp_id (threat_property idx)), l_EPMAC := take 6 (p_ep_mac p1)\<rparr>) p1 ms flip"
    define log2 where "log2 = (case ms of None \<Rightarrow> log1
             | Some s \<Rightarrow> if FLAGS_TEST (s_flags s) DPI_SESS_FLAG_INGRESS then log1\<lparr>l_Flags := l_Flags log1 OR DPLOG_FLAG_SESS_INGRESS\<rparr> else log1)"
    obtain p3 ms3 where m: "mark_session idx (mark_packet idx p1) ms = (p3, ms3)" by fastforce
    have len2: "length (l_Packet log2) = DPLOG_MAX_PKT_LEN" by (simp add: log2_def log1_def split: option.splits)
    note T = t[unfolded dpi_threat_trigger_dir_def Let_def p1_def[symmetric] log1_def[symmetric] log2_def[symmetric] m prod.case]
    show ?thesis
    proof (cases "rcu_map_lookup (th_log_map st) log_hash log_match log2")
      case None
      obtain d lg where d: "log_packet_detail ((log_common (lg_time st) log2 idx)\<lparr>l_Count := htonl 1\<rparr>) p3 ms3 flip = Some d"
        and lg: "store_packet d p3 = Some lg" and st': "st' = (add_cache ok st lg lg)\<lparr>lg_out := lg_out (add_cache ok st lg lg) @ [lg]\<rparr>"
        using T True None by (auto split: bind_splits)
      have "length (l_Packet lg) = DPLOG_MAX_PKT_LEN" "l_Count lg = htonl 1"
        using store_packet_keeps[OF lg] log_packet_detail_keeps[OF d] len2 by (simp_all add: log_common_def)
      then show ?thesis unfolding st' emit_spec using add_cache_spec[OF inv, of lg ok lg] True by simp
    next
      case (Some c)
      then obtain h0 where c: "(h0, c) \<in> set (th_log_map st)" using rcu_map_lookup_SomeD by fast
      obtain st1 n where u: "update_cache st c (threat_property idx) = (st1, n)" by fastforce
      note us = update_cache_spec[OF inv c u]
      obtain h c' where c': "(h, c') \<in> set (th_log_map st1)" "lc_ts_entry c' = lc_ts_entry c" using us(4) by blast
      have old: "length (l_Packet (lc_log c)) = DPLOG_MAX_PKT_LEN" using inv c by (auto simp: log_inv_def)
      show ?thesis
      proof (cases "n = 0")
        case n0: True
        obtain lg where lg: "store_packet (lc_log c) p3 = Some lg" and st': "st' = upd_cache st1 c (\<lambda>c. c\<lparr>lc_log := lg\<rparr>)"
          using T True Some u n0 by (auto split: bind_splits)
        have "length (l_Packet lg) = DPLOG_MAX_PKT_LEN" using store_packet_keeps[OF lg] old by simp
        note ul = upd_log_spec[OF us(1) c' this]
        show ?thesis unfolding st' ul(2,3) using ul(1) us(2,3) True n0 by (simp add: add.assoc)
      next
        case n0: False
        obtain d lg where d: "log_packet_detail ((log_common (lg_time st) log2 idx)\<lparr>l_Count := htonl n\<rparr>) p3 ms3 flip = Some d"
          and lg: "store_packet d p3 = Some lg"
          and st': "st' = (upd_cache st1 c (\<lambda>c. c\<lparr>lc_log := lg\<rparr>))\<lparr>lg_out := lg_out (upd_cache st1 c (\<lambda>c. c\<lparr>lc_log := lg\<rparr>)) @ [lg]\<rparr>"
          using T True Some u n0 by (auto split: bind_splits)
        have l: "length (l_Packet lg) = DPLOG_MAX_PKT_LEN" "l_Count lg = htonl n"
          using store_packet_keeps[OF lg] log_packet_detail_keeps[OF d] len2 by (simp_all add: log_common_def)
        note ul = upd_log_spec[OF us(1) c' l(1)]
        show ?thesis unfolding st' emit_spec ul(2,3) using ul(1) us(2,3) True l(2) by (simp add: add_ac)
      qed
    qed
  qed
  then show "log_inv st'" "reported st' + pending st' = reported st + pending st + (if dpi_threat_status idx \<and> p_ep_mac p \<noteq> [] then 1 else 0)"
    by simp_all
qed

lemma session_log_counts:
  assumes inv: "log_inv st" and t: "dpi_threat_log_by_session ok idx st s = (st', s')"
  shows "log_inv st'" "reported st' + pending st' = reported st + pending st + 1"
proof -
  define log1 where "log1 = session_key idx s"
  have len1: "length (l_Packet (log_session_detail ((log_common (lg_time st) log1 idx)\<lparr>l_Count := c\<rparr>) v)) = DPLOG_MAX_PKT_LEN"
    "l_Count (log_session_detail ((log_common (lg_time st) log1 idx)\<lparr>l_Count := c\<rparr>) v) = c" for c v
    by (simp_all add: log1_def session_key_def log_session_flags_def log_session_detail_def log_common_def Let_def)
  note T = t[unfolded dpi_threat_log_by_session_def Let_def log1_def[symmetric]]
  have "log_inv st' \<and> reported st' + pending st' = reported st + pending st + 1"
  proof (cases "rcu_map_lookup (th_log_map st) log_hash log_match log1")
    case None
    obtain lg where st': "st' = (add_cache ok st lg lg)\<lparr>lg_out := lg_out (add_cache ok st lg lg) @ [lg]\<rparr>"
      and lg: "length (l_Packet lg) = DPLOG_MAX_PKT_LEN" "l_Count lg = htonl 1"
      using T None len1 by auto
    then show ?thesis unfolding st' emit_spec using add_cache_spec[OF inv, of lg ok lg] by simp
  next
    case (Some c)
    then obtain h0 where c: "(h0, c) \<in> set (th_log_map st)" using rcu_map_lookup_SomeD by fast
    obtain st1 n where u: "update_cache st c (threat_property idx) = (st1, n)" by fastforce
    note us = update_cache_spec[OF inv c u]
    obtain h c' where c': "(h, c') \<in> set (th_log_map st1)" "lc_ts_entry c' = lc_ts_entry c" using us(4) by blast
    show ?thesis
    proof (cases "n = 0")
      case True
      then have "st' = st1" using T Some u by simp
      then show ?thesis using us(1,2,3) True by (simp add: add.assoc)
    next
      case False
      obtain lg where st': "st' = (upd_cache st1 c (\<lambda>c. c\<lparr>lc_log := lg\<rparr>))\<lparr>lg_out := lg_out (upd_cache st1 c (\<lambda>c. c\<lparr>lc_log := lg\<rparr>)) @ [lg]\<rparr>"
        and lg: "length (l_Packet lg) = DPLOG_MAX_PKT_LEN" "l_Count lg = htonl n"
        using T Some u False len1 by auto
      note ul = upd_log_spec[OF us(1) c' lg(1)]
      show ?thesis unfolding st' emit_spec ul(2,3) using ul(1) us(2,3) lg(2) by (simp add: add_ac)
    qed
  qed
  then show "log_inv st'" "reported st' + pending st' = reported st + pending st + 1" by simp_all
qed

lemma release_counts:
  assumes inv: "log_inv st"
  shows "log_inv (log_release n st)" "reported (log_release n st) + pending (log_release n st) = reported st + pending st"
proof -
  have "log_inv (log_release n st) \<and> reported (log_release n st) + pending (log_release n st) = reported st + pending st"
  proof (cases "find (\<lambda>c. lc_ts_entry c = n) (map snd (th_log_map st))")
    case None
    then show ?thesis using inv by (simp add: log_release_def)
  next
    case (Some c)
    then have "c \<in> snd ` set (th_log_map st)" "lc_ts_entry c = n" using find_SomeD[OF Some] by auto
    then obtain h0 where c: "(h0, c) \<in> set (th_log_map st)" "lc_ts_entry c = n" by force
    have "distinct (map (\<lambda>(h, c). lc_ts_entry c) (filter P (th_log_map st)))" for P
      using inv distinct_map_filter by (auto simp: log_inv_def cache_ids_def)
    then have "log_inv (log_release n st)"
      using inv Some by (auto simp: log_inv_def cache_ids_def log_release_def rcu_map_del_def)
    moreover have "pending (log_release n st) = pending st - lc_count c"
      using sum_del[OF _ c(1), of lc_count] inv Some c(2) by (simp add: pending_def log_release_def log_inv_def cache_ids_def Let_def)
    moreover have "reported (log_release n st) = reported st + lc_count c"
      using Some by (auto simp: reported_def log_release_def Let_def word_gt_0)
    ultimately show ?thesis by simp
  qed
  then show "log_inv (log_release n st)" "reported (log_release n st) + pending (log_release n st) = reported st + pending st" by simp_all
qed

text \<open>What happens to the log cache of a thread: threats of packets and of sessions, the expiry of an entry, and
  the clock.\<close>
datatype log_event =
    EvTrigger bool bool dpi_threat bool dpi_packet "dpi_session option"
  | EvSession bool dpi_threat dpi_session
  | EvRelease nat
  | EvTick u32 u32

primrec log_step :: "log_event \<Rightarrow> log_state \<Rightarrow> log_state option" where
  "log_step (EvTrigger ok tap idx flip p ms) st = map_option fst (dpi_threat_trigger_dir ok tap idx flip st p ms)"
| "log_step (EvSession ok idx s) st = Some (fst (dpi_threat_log_by_session ok idx st s))"
| "log_step (EvRelease n) st = Some (log_release n st)"
| "log_step (EvTick tick now) st = Some (st\<lparr>lg_tick := tick, lg_time := now\<rparr>)"

fun log_run :: "log_event list \<Rightarrow> log_state \<Rightarrow> log_state option" where
  "log_run [] st = Some st"
| "log_run (e # es) st = do { st' \<leftarrow> log_step e st; log_run es st' }"

primrec event_count :: "log_event \<Rightarrow> u32" where
  "event_count (EvTrigger ok tap idx flip p ms) = (if dpi_threat_status idx \<and> p_ep_mac p \<noteq> [] then 1 else 0)"
| "event_count (EvSession ok idx s) = 1"
| "event_count (EvRelease n) = 0"
| "event_count (EvTick tick now) = 0"

definition log_start :: log_state where
  "log_start = \<lparr>th_log_map = rcu_map_init, lg_timer = timer_wheel_init, lg_tick = 0, lg_time = 0, lg_fresh = 0, lg_cur_caches = 0, lg_out = []\<rparr>"

lemma log_step_counts:
  assumes "log_inv st" "log_step e st = Some st'"
  shows "log_inv st'" "reported st' + pending st' = reported st + pending st + event_count e"
proof -
  have tick: "log_inv (st\<lparr>lg_tick := a, lg_time := b\<rparr>) = log_inv st" "reported (st\<lparr>lg_tick := a, lg_time := b\<rparr>) = reported st"
    "pending (st\<lparr>lg_tick := a, lg_time := b\<rparr>) = pending st" for a b
    by (simp_all add: log_inv_def cache_ids_def reported_def pending_def)
  have "log_inv st' \<and> reported st' + pending st' = reported st + pending st + event_count e"
  proof (cases e)
    case (EvTrigger ok tap idx flip p ms)
    then obtain p' ms' where "dpi_threat_trigger_dir ok tap idx flip st p ms = Some (st', p', ms')" using assms(2) by auto
    from trigger_counts[OF assms(1) this] show ?thesis using EvTrigger by simp
  next
    case (EvSession ok idx s)
    then obtain s' where "dpi_threat_log_by_session ok idx st s = (st', s')" using assms(2) by (metis log_step.simps(2) option.inject prod.collapse)
    from session_log_counts[OF assms(1) this] show ?thesis using EvSession by simp
  next
    case (EvRelease n)
    then show ?thesis using assms release_counts[OF assms(1), of n] by auto
  next
    case (EvTick a b)
    then show ?thesis using assms tick by auto
  qed
  then show "log_inv st'" "reported st' + pending st' = reported st + pending st + event_count e" by simp_all
qed

lemma log_run_counts:
  assumes "log_inv st" "log_run es st = Some st'"
  shows "log_inv st' \<and> reported st' + pending st' = reported st + pending st + sum_list (map event_count es)"
  using assms
proof (induction es arbitrary: st)
  case (Cons e es)
  then obtain st1 where 1: "log_step e st = Some st1" "log_run es st1 = Some st'" by (auto split: bind_splits)
  from Cons.IH[OF log_step_counts(1)[OF Cons.prems(1) 1(1)] 1(2)] show ?case
    using log_step_counts(2)[OF Cons.prems(1) 1(1)] by (simp add: add.assoc)
qed simp


lemma threat_id_big: "idx \<noteq> DPI_THRT_NONE \<Longrightarrow> htonl (tp_id (threat_property idx)) > DPI_SIG_MIN_USER_SIG_ID"
  by (cases idx) (simp_all add: tprop_def DPI_SIG_MIN_USER_SIG_ID_def ntohl_def)

lemma threat_freq: "idx \<noteq> DPI_THRT_NONE \<Longrightarrow> tp_freq (threat_property idx) > 0"
  by (cases idx) (simp_all add: tprop_def word_gt_0)


definition wing_zero :: dpi_wing where
  "wing_zero = \<lparr>w_mac = replicate 6 0, w_port = 0, w_ip4 = 0, w_ip6 = replicate 16 0, w_next_seq = 0, w_init_seq = 0, w_asm_seq = 0,
     w_tcp_acked = 0, w_tcp_win = 0, w_icmp_echo_hash = 0, w_icmp_echo_seq = 0, w_icmp_times = 0, w_tcp_mss = 0, w_tcp_state = 0,
     w_tcp_wscale = 0, w_flags = 0, w_asm_cache = asm_init, w_pkts = 0, w_bytes = 0, w_reported_pkts = 0, w_reported_bytes = 0\<rparr>"

definition sess_zero :: dpi_session where
  "sess_zero = \<lparr>s_id = 0, s_created_at = 0, s_last_report = 0, s_client = wing_zero, s_server = wing_zero, s_flags = 0, s_tick_flags = 0,
     s_meter_flags = 0, s_only_parser = 0, s_small_window_tick = 0, s_parser_bits = [], s_app = 0, s_base_app = 0, s_ip_proto = 0,
     s_action = 0, s_severity = 0, s_term_reason = 0, s_threat_id = 0, s_policy_desc = zero_desc, s_xff_desc = zero_desc,
     s_xff_client_ip = 0, s_xff_app = 0, s_xff_port = 0\<rparr>"



end
