(* ===== verification/DP_Cksum.thy ===== *)
theory DP_Cksum
  imports DP_Log
begin

text \<open>
  The Internet checksums of \<open>dpi/dpi_packet.c\<close>: sums of 16-bit words as the machine loads them, folded to 16 bits
  and complemented.
\<close>

definition ihl_of :: "byte \<Rightarrow> u16" where
  "ihl_of b = push_bit 2 (ucast (b AND 0x0f))"

text \<open>\<open>get_iph_len\<close> and \<open>get_tcph_len\<close> of the headers at \<open>off\<close>.\<close>
definition get_iph_len :: "bytes \<Rightarrow> nat \<Rightarrow> u16 option" where
  "get_iph_len m off = map_option ihl_of (rd8 m off)"

definition get_tcph_len :: "bytes \<Rightarrow> nat \<Rightarrow> u16 option" where
  "get_tcph_len m off = map_option (\<lambda>b. push_bit 2 (ucast (drop_bit 4 b))) (rd8 m (off + 12))"

text \<open>The loops: \<open>n\<close> words from \<open>off\<close> on.\<close>
fun sum16 :: "bytes \<Rightarrow> nat \<Rightarrow> nat \<Rightarrow> u32 \<Rightarrow> u32 option" where
  "sum16 m off 0 s = Some s"
| "sum16 m off (Suc n) s = do { w \<leftarrow> ld16 m off; sum16 m (off + 2) n (s + ucast w) }"

definition fold_cksum :: "u32 \<Rightarrow> u16" where
  "fold_cksum s = (let s1 = drop_bit 16 s + (s AND 0xffff); s2 = s1 + drop_bit 16 s1 in ucast (NOT s2))"

definition get_l4_cksum :: "bytes \<Rightarrow> u32 \<Rightarrow> nat \<Rightarrow> u16 \<Rightarrow> u16 option" where
  "get_l4_cksum m s off l4_len = do {
     s1 \<leftarrow> sum16 m off (unat l4_len div 2) s;
     s2 \<leftarrow> (if l4_len AND 1 \<noteq> 0
            then map_option (\<lambda>w. s1 + ucast (w AND htons 0xff00)) (ld16 m (off + 2 * (unat l4_len div 2)))
            else Some s1);
     Some (fold_cksum s2) }"

text \<open>The pseudo headers: addresses, length and protocol, as 16-bit words.\<close>
definition get_l4v6_cksum :: "bytes \<Rightarrow> nat \<Rightarrow> byte \<Rightarrow> nat \<Rightarrow> u16 \<Rightarrow> u16 option" where
  "get_l4v6_cksum m ip6h ip_proto off l4_len = do {
     s1 \<leftarrow> sum16 m (ip6h + 8) 16 0;
     get_l4_cksum m (s1 + ucast (htons l4_len) + push_bit 8 (ucast ip_proto)) off l4_len }"

definition get_l4v4_cksum :: "bytes \<Rightarrow> nat option \<Rightarrow> nat \<Rightarrow> u16 \<Rightarrow> u16 option" where
  "get_l4v4_cksum m miph off l4_len = do {
     s \<leftarrow> (case miph of None \<Rightarrow> Some 0
           | Some iph \<Rightarrow> do {
               s1 \<leftarrow> sum16 m (iph + 12) 4 0;
               proto \<leftarrow> rd8 m (iph + 9);
               Some (s1 + push_bit 8 (ucast proto) + ucast (htons l4_len)) });
     get_l4_cksum m s off l4_len }"

definition get_ip_cksum :: "bytes \<Rightarrow> nat \<Rightarrow> u16 option" where
  "get_ip_cksum m iph = do {
     n \<leftarrow> get_iph_len m iph;
     s \<leftarrow> sum16 m iph (unat n div 2) 0;
     Some (fold_cksum s) }"

definition st16 :: "bytes \<Rightarrow> nat \<Rightarrow> u16 \<Rightarrow> bytes option" where
  "st16 m off w = mem_write m off (u16_bytes w)"

subsection \<open>Sums as numbers\<close>

lemma unat_fold_cksum:
  "unat (fold_cksum s) = 65535 - (let t = unat s div 65536 + unat s mod 65536 in if t < 65536 then t else t - 65535)"
proof -
  have a: "unat (drop_bit 16 x) = unat x div 65536" for x :: u32 by (simp add: drop_bit_eq_div unat_div)
  have m: "x AND 0xffff = take_bit 16 x" for x :: u32
    by (simp add: take_bit_eq_mask mask_eq_exp_minus_1)
  have b: "unat (s AND 0xffff) = unat s mod 65536" unfolding m by (simp add: take_bit_eq_mod unat_mod)
  define t where "t = unat s div 65536 + unat s mod 65536"
  have tb: "t < 131071" "unat s div 65536 < 65536" "unat s mod 65536 < 65536" using unat32_lt[of s] by (auto simp: t_def)
  define s1 where "s1 = drop_bit 16 s + (s AND 0xffff)"
  have s1: "unat s1 = t" using tb by (simp add: s1_def unat_word_ariths a b t_def)
  define s2 where "s2 = s1 + drop_bit 16 s1"
  have s2: "unat s2 = t + t div 65536" using tb by (simp add: s2_def unat_word_ariths a s1)
  have "unat (ucast (NOT s2) :: u16) = unat (NOT s2) mod 65536" by (simp add: unsigned_ucast_eq take_bit_eq_mod)
  also have "unat (NOT s2) = 4294967295 - unat s2"
  proof -
    have "NOT s2 = - 1 - s2" by (simp add: not_eq_complement)
    moreover have "unat (- 1 :: u32) = 4294967295" by (simp add: unsigned_minus_1_eq_mask mask_eq_exp_minus_1)
    ultimately show ?thesis by (simp add: unat_sub)
  qed
  also have "(4294967295 - unat s2) mod 65536 = 65535 - (if t < 65536 then t else t - 65535)"
  proof (cases "t < 65536")
    case True
    then have "4294967295 - (t + t div 65536) = (65535 - t) + 65535 * 65536" by simp
    then show ?thesis unfolding s2 using True by (simp only: mod_mult_self1) simp
  next
    case False
    then have "t div 65536 = 1" using tb(1) by (intro div_nat_eqI) simp_all
    then have "4294967295 - (t + t div 65536) = (131070 - t) + 65534 * 65536" using tb(1) by simp
    then show ?thesis unfolding s2 using False tb(1) by (simp only: mod_mult_self1) simp
  qed
  finally show ?thesis by (simp add: fold_cksum_def Let_def s1_def[symmetric] s2_def[symmetric] t_def)
qed

lemma fold_cksum_mod:
  assumes "unat s > 0"
  shows "\<exists>q. unat s + unat (fold_cksum s) = 65535 * q \<and> q > 0"
proof -
  define a b where "a = unat s div 65536" and "b = unat s mod 65536"
  have s: "unat s = 65536 * a + b" by (simp add: a_def b_def)
  have ab: "a < 65536" "b < 65536" "a + b > 0" using unat32_lt[of s] assms by (auto simp: a_def b_def)
  show ?thesis
  proof (cases "a + b < 65536")
    case True
    then have "unat s + unat (fold_cksum s) = 65535 * (a + 1)"
      unfolding unat_fold_cksum Let_def a_def[symmetric] b_def[symmetric] unfolding s by simp
    then show ?thesis by fastforce
  next
    case False
    then have "unat s + unat (fold_cksum s) = 65535 * (a + 2)"
      unfolding unat_fold_cksum Let_def a_def[symmetric] b_def[symmetric] unfolding s using ab by simp
    then show ?thesis by fastforce
  qed
qed

lemma fold_cksum_zero:
  assumes "unat s = 65535 * q" "q > 0"
  shows "fold_cksum s = 0"
proof -
  have "65535 * q < 65535 * 65538" using unat32_lt[of s] assms by simp
  then have q: "q < 65538" "1 \<le> q" using assms(2) by (simp_all only: nat_mult_less_cancel_disj)
  consider "q \<le> 65535" | "q = 65536" | "q = 65537" using q by linarith
  then have "unat (fold_cksum s) = 0"
  proof cases
    case 1
    have e: "unat s = (q - 1) * 65536 + (65536 - q)" using assms q 1 by (simp add: algebra_simps)
    have "unat s div 65536 = q - 1" "unat s mod 65536 = 65536 - q" unfolding e using q(2) by simp_all
    then show ?thesis using q(2) 1 by (simp add: unat_fold_cksum)
  qed (use assms(1) in \<open>simp_all add: unat_fold_cksum\<close>)
  then show ?thesis by (simp add: unat_eq_zero)
qed

text \<open>A sum of words is linear in its start value, and does not overflow for the lengths at hand.\<close>
lemma sum16_start: "sum16 m off n s = map_option (\<lambda>v. s + v) (sum16 m off n 0)"
proof (induction n arbitrary: off s)
  case (Suc n)
  show ?case
  proof (cases "ld16 m off")
    case (Some w)
    show ?thesis using Suc[of "off + 2" "s + ucast w"] Suc[of "off + 2" "ucast w"] Some
      by (cases "sum16 m (off + 2) n 0") (simp_all add: add.assoc)
  qed simp
qed simp

lemma sum16_bound:
  assumes "sum16 m off n 0 = Some v" "n \<le> 65536"
  shows "unat v \<le> 65535 * n"
  using assms
proof (induction n arbitrary: off v)
  case (Suc n)
  obtain w u where w: "ld16 m off = Some w" "sum16 m (off + 2) n 0 = Some u" "v = ucast w + u"
    using Suc.prems(1) sum16_start[of m "off + 2" n "ucast (the (ld16 m off))"]
    by (cases "ld16 m off"; cases "sum16 m (off + 2) n 0") auto
  have "unat u \<le> 65535 * n" using Suc.IH[OF w(2)] Suc.prems(2) by simp
  moreover have "unat (ucast w :: u32) \<le> 65535" using unat16_lt[of w] by (simp add: unsigned_ucast_eq take_bit_nat_eq_self)
  ultimately show ?case using Suc.prems(2) by (simp add: w(3) unat_word_ariths)
qed simp

lemma sum16_append: "sum16 m off (a + b) s = do { t \<leftarrow> sum16 m off a s; sum16 m (off + 2 * a) b t }"
  by (induction a arbitrary: off s) (auto simp: add.assoc split: bind_splits)

lemma ld16_write:
  assumes "mem_write m off (u16_bytes w) = Some m'"
  shows "ld16 m' off = Some w" "i + 2 \<le> off \<or> off + 2 \<le> i \<Longrightarrow> ld16 m' i = ld16 m i"
proof -
  have len: "off + 2 \<le> length m" "m' = take off m @ u16_bytes w @ drop (off + 2) m" "length m' = length m"
    using assms by (auto simp: mem_write_def u16_bytes_def split: if_splits)
  have nth: "m' ! off = ucast w" "m' ! (off + 1) = ucast (drop_bit 8 w)" using len by (simp_all add: nth_append u16_bytes_def)
  have "(ucast (ucast w :: byte) :: u16) OR push_bit 8 (ucast (ucast (drop_bit 8 w) :: byte)) = w"
    by (rule bit_word_eqI) (auto simp: bit_simps)
  then show "ld16 m' off = Some w" using len nth by (simp add: ld16_def rd8_def)
  have other: "m' ! j = m ! j" if "j < off \<or> off + 2 \<le> j" "j < length m" for j
  proof (cases "j < off")
    case False
    then have "j - off - 2 + (off + 2) = j" "off + 2 \<le> j" using that by simp_all
    then show ?thesis using that len by (auto simp: nth_append u16_bytes_def nth_Cons' add.commute)
  qed (use len in \<open>simp add: nth_append\<close>)
  then show "ld16 m' i = ld16 m i" if "i + 2 \<le> off \<or> off + 2 \<le> i"
    using that len(3) by (auto simp: ld16_def rd8_def)
qed

lemma sum16_cong: "(\<And>j. j < n \<Longrightarrow> ld16 m' (off + 2 * j) = ld16 m (off + 2 * j)) \<Longrightarrow> sum16 m' off n s = sum16 m off n s"
proof (induction n arbitrary: off s)
  case (Suc n)
  have "ld16 m' off = ld16 m off" using Suc.prems[of 0] by simp
  moreover have "sum16 m' (off + 2) n t = sum16 m (off + 2) n t" for t
    using Suc.prems[of "Suc j" for j] by (intro Suc.IH) (simp add: add.assoc)
  ultimately show ?case by simp
qed simp

lemma sum16_replace:
  assumes m0: "st16 m (off + 2 * k) 0 = Some m0" and m1: "st16 m0 (off + 2 * k) c = Some m1" and k: "k < n"
    and v: "sum16 m0 off n 0 = Some v"
  shows "sum16 m1 off n 0 = Some (v + ucast c)"
proof -
  note w0 = ld16_write[OF m0[unfolded st16_def]] and w1 = ld16_write[OF m1[unfolded st16_def]]
  have n: "n = k + Suc (n - k - 1)" using k by simp
  have split: "sum16 mm off n 0 = do { t \<leftarrow> sum16 mm off k 0; w \<leftarrow> ld16 mm (off + 2 * k); sum16 mm (off + 2 * k + 2) (n - k - 1) (t + ucast w) }" for mm
    by (subst n) (simp only: sum16_append sum16.simps)
  have a: "sum16 m1 off k 0 = sum16 m0 off k 0" by (rule sum16_cong) (use w1(2) in simp)
  have b: "sum16 m1 (off + 2 * k + 2) (n - k - 1) t = sum16 m0 (off + 2 * k + 2) (n - k - 1) t" for t
    by (rule sum16_cong) (use w1(2) in simp)
  obtain t u where t: "sum16 m0 off k 0 = Some t" "sum16 m0 (off + 2 * k + 2) (n - k - 1) 0 = Some u" "v = t + u"
    using v sum16_start[of m0 "off + 2 * k + 2" "n - k - 1" "the (sum16 m0 off k 0)"] unfolding split w0(1)
    by (cases "sum16 m0 off k 0"; cases "sum16 m0 (off + 2 * k + 2) (n - k - 1) 0") auto
  show ?thesis unfolding split a w1(1) b using t sum16_start[of m0 "off + 2 * k + 2" "n - k - 1" "t + ucast c"]
    by (simp add: add_ac)
qed

lemma ip_cksum_fill:
  assumes "get_iph_len m off = Some n" and "12 \<le> unat n"
    and "st16 m (off + 10) 0 = Some m0" and "get_ip_cksum m0 off = Some c" and "st16 m0 (off + 10) c = Some m1"
  shows "get_ip_cksum m1 off = Some 0"
proof -
  have hl: "get_iph_len m0 off = Some n" "get_iph_len m1 off = Some n"
    using assms(1,3,5) by (auto simp: get_iph_len_def rd8_def st16_def mem_write_def u16_bytes_def nth_append split: if_splits)
  obtain v where v: "sum16 m0 off (unat n div 2) 0 = Some v" "c = fold_cksum v"
    using assms(4) by (auto simp: get_ip_cksum_def hl split: bind_splits)
  have k: "5 < unat n div 2" using assms(2) by simp
  have s: "sum16 m1 off (unat n div 2) 0 = Some (v + ucast c)"
    using sum16_replace[of m off 5 m0 c m1, OF _ _ k v(1)] assms(3,5) by simp
  have "unat v \<le> 65535 * (unat n div 2)" using sum16_bound[OF v(1)] unat16_lt[of n] by simp
  then have "unat v \<le> 65535 * 32768" using unat16_lt[of n] by simp
  then have u: "unat (v + ucast c) = unat v + unat c"
    using unat16_lt[of c] by (simp add: unat_word_ariths unsigned_ucast_eq take_bit_nat_eq_self)
  have "\<exists>q. unat (v + ucast c) = 65535 * q \<and> q > 0"
  proof (cases "unat v > 0")
    case True
    then show ?thesis using fold_cksum_mod[OF True] u v(2) by simp
  next
    case False
    then have "unat c = 65535" by (simp add: v(2) unat_fold_cksum Let_def)
    then show ?thesis using False u by (intro exI[of _ 1]) simp
  qed
  then have "fold_cksum (v + ucast c) = 0" using fold_cksum_zero by blast
  then show ?thesis by (simp add: get_ip_cksum_def hl(2) s)
qed

text \<open>C16. Round trip of the IP checksum: a header whose checksum field is filled with what \<open>get_ip_cksum\<close> computes
  over the header with a zero field is a valid header - the sum over it, checksum included, folds to zero. This
  is how a reassembled packet gets its new checksum.\<close>
theorem ip_cksum_roundtrip:
  assumes "get_iph_len m off = Some n" and "12 \<le> unat n"
    and "st16 m (off + 10) 0 = Some m0" and "get_ip_cksum m0 off = Some c" and "st16 m0 (off + 10) c = Some m1"
  shows "get_ip_cksum m1 off = Some 0"
  using assms by (rule ip_cksum_fill)

definition hdr_one :: bytes where
  "hdr_one = [0x45,0,0,40, 0x12,0x34,0,0, 64,6,0xab,0xcd, 10,0,0,1, 10,0,0,2]"

theorem ip_cksum_roundtrip_witness:
  "\<exists>m0 c m1. get_iph_len hdr_one 0 = Some 20 \<and> st16 hdr_one 10 0 = Some m0 \<and> get_ip_cksum m0 0 = Some c \<and>
     st16 m0 10 c = Some m1 \<and> c \<noteq> 0 \<and> get_ip_cksum m1 0 = Some 0"
proof -
  have 1: "get_iph_len hdr_one 0 = Some 20" by code_simp
  have 2: "st16 hdr_one (0 + 10) 0 = Some (the (st16 hdr_one 10 0))" by code_simp
  have 3: "get_ip_cksum (the (st16 hdr_one 10 0)) 0 = Some 0x9a54" by code_simp
  have 4: "st16 (the (st16 hdr_one 10 0)) (0 + 10) 0x9a54 = Some (the (st16 (the (st16 hdr_one 10 0)) 10 0x9a54))" by code_simp
  have "get_ip_cksum (the (st16 (the (st16 hdr_one 10 0)) 10 0x9a54)) 0 = Some 0"
    using ip_cksum_roundtrip[OF 1 _ 2 3 4] by simp
  then show ?thesis using 1 2 3 4
    by (intro exI[of _ "the (st16 hdr_one 10 0)"] exI[of _ "0x9a54"] exI[of _ "the (st16 (the (st16 hdr_one 10 0)) 10 0x9a54)"]) simp
qed

end
