(* ===== verification/DP_Frag.thy ===== *)
theory DP_Frag
  imports DP_Cksum
begin

text \<open>
  Fragment reassembly, \<open>dpi/dpi_frag.c\<close>. A tracker collects the fragments of one datagram in a reassembly cache; when
  the first and the last one are there, the datagram is built in the thread's reassembly buffer. A tracker lives
  in its map and is named by its timer entry; a tracker taken out of the map to be sent later is kept under its
  name in \<open>fr_kept\<close>. Deleting a node from a map it is not linked in is undefined, a failure of the model.
\<close>

definition DPI_FRAG_TIMEOUT :: u16 where "DPI_FRAG_TIMEOUT = 10"
definition DPI_MAX_PKT_LEN :: nat where "DPI_MAX_PKT_LEN = 65536"
definition IP_OFFMASK :: u32 where "IP_OFFMASK = 0x1fff"
definition IP_MF :: u32 where "IP_MF = 0x2000"

text \<open>The masks of \<open>netinet/ip6.h\<close> on a little-endian machine: they are for the field in network byte order.\<close>
definition IP6F_OFF_MASK :: u32 where "IP6F_OFF_MASK = 0xf8ff"
definition IP6F_MORE_FRAG :: u32 where "IP6F_MORE_FRAG = 0x0100"

text \<open>\<open>FRAG_TRAC_COMMON\<close>; \<open>f_length\<close> is a 30-bit field.\<close>
record frag_trac =
  f_ts_entry :: nat
  f_length :: u32
  f_first :: bool
  f_last :: bool
  f_frags :: asm_t

record ip4frag_trac = frag_trac +
  f4_src :: u32
  f4_dst :: u32
  f4_ipid :: u16
  f4_ingress :: bool

record ip6frag_trac = frag_trac +
  f6_src :: bytes
  f6_dst :: bytes
  f6_ipid :: u16
  f6_next_header :: byte
  f6_ingress :: bool

text \<open>The state of the thread: both maps, the timers, the reassembly buffer, the trackers of packets on their
  way, the threat log, and what was handed to \<open>send_packet\<close>.\<close>
record frag_state =
  th_ip4frag_map :: "ip4frag_trac rcu_map"
  th_ip6frag_map :: "ip6frag_trac rcu_map"
  fr_timer :: "timer_cb timer_wheel"
  fr_tick :: u32
  fr_fresh :: nat
  fr_defrag :: bytes
  fr_kept :: "nat \<rightharpoonup> asm_t"
  fr_log :: log_state
  fr_sent :: "bytes list"

text \<open>The outcomes of the allocations of a packet: of a tracker, of a clip, of a threat log entry.\<close>
record frag_mem =
  ok_trac :: bool
  ok_clip :: bool
  ok_log :: bool

definition ip4frag_trac_match :: "ip4frag_trac \<Rightarrow> ip4frag_trac \<Rightarrow> bool" where
  "ip4frag_trac_match t1 t2 \<longleftrightarrow> f4_src t1 = f4_src t2 \<and> f4_dst t1 = f4_dst t2 \<and> f4_ipid t1 = f4_ipid t2 \<and> f4_ingress t1 = f4_ingress t2"

definition ip4frag_trac_hash :: "ip4frag_trac \<Rightarrow> u32" where
  "ip4frag_trac_hash t = sdbm_hash (u32_bytes (f4_src t)) + sdbm_hash (u32_bytes (f4_dst t)) + ucast (f4_ipid t)"

text \<open>The callback of \<open>asm_foreach\<close>, with the flag it accumulates.\<close>
definition teardrop_check :: "u32 \<Rightarrow> u32 \<Rightarrow> bool \<Rightarrow> clip \<Rightarrow> bool" where
  "teardrop_check seq len overlap clip =
     (if \<not> overlap then u32_overlap seq (seq + len) (c_seq clip) (c_seq clip + c_len clip) else overlap)"

text \<open>How a fragment that ends at \<open>fin\<close> changes the known length; the flag says whether it is saved.\<close>
definition frag_bounds :: "bool \<Rightarrow> u32 \<Rightarrow> 'a frag_trac_scheme \<Rightarrow> 'a frag_trac_scheme \<times> bool" where
  "frag_bounds mf fin t =
     (if mf then
        (if fin > f_length t then
           (if f_last t then (t, False) else (t\<lparr>f_length := take_bit 30 fin\<rparr>, True))
         else (t, True))
      else if fin < f_length t \<or> f_last t \<and> fin \<noteq> f_length t then (t, False)
      else (t\<lparr>f_last := True, f_length := take_bit 30 fin\<rparr>, True))"

text \<open>A copy of the packet becomes a clip. The code leaves \<open>action\<close> as \<open>malloc\<close> returned it and does not read it.\<close>
definition frag_save :: "bool \<Rightarrow> u32 \<Rightarrow> u32 \<Rightarrow> dpi_packet \<Rightarrow> 'a frag_trac_scheme \<Rightarrow> 'a frag_trac_scheme option" where
  "frag_save ok seq len p t =
     (if \<not> ok then Some t
      else do {
        data \<leftarrow> mem_read (p_pkt p) 0 (unat (p_cap_len p));
        let clip = \<lparr>c_ptr = data, c_seq = seq, c_len = take_bit 24 len, c_action = 0, c_skip = p_l4 p\<rparr>;
        Some (t\<lparr>f_frags := snd (asm_insert (f_frags t) clip)\<rparr>) })"

definition ipfrag_hold ::
  "frag_mem \<Rightarrow> bool \<Rightarrow> ip4frag_trac \<Rightarrow> log_state \<Rightarrow> dpi_packet \<Rightarrow> (ip4frag_trac \<times> log_state \<times> dpi_packet) option" where
  "ipfrag_hold mm tap t lg p = do {
     fo \<leftarrow> ld16 (p_pkt p) (unat (p_l3 p) + 6);
     let frag_off = (ucast (ntohs fo) :: u32);
     let seq = push_bit 3 (frag_off AND IP_OFFMASK);
     let len = (ucast (p_len p) - ucast (p_l4 p) :: u32);
     if len = 0 then Some (t, lg, p)
     else do {
       overlap \<leftarrow> (if asm_count (f_frags t) > 0
                   then map_option (foldl (teardrop_check seq len) False) (asm_foreach (f_frags t))
                   else Some False);
       if overlap then do {
         (lg1, p1, _) \<leftarrow> dpi_threat_trigger (ok_log mm) tap DPI_THRT_IP_TEARDROP lg p None;
         Some (t, lg1, p1) }
       else do {
         let t1 = (if seq = 0 then t\<lparr>f_first := True\<rparr> else t);
         let (t2, save) = frag_bounds (FLAGS_TEST frag_off IP_MF) (seq + len) t1;
         if save then do { t3 \<leftarrow> frag_save (ok_clip mm) seq len p t2; Some (t3, lg, p) }
         else Some (t2, lg, p) } } }"

text \<open>The target clip in the reassembly buffer from \<open>off\<close> on.\<close>
definition frag_target :: "frag_state \<Rightarrow> nat \<Rightarrow> clip" where
  "frag_target st off = \<lparr>c_ptr = drop off (fr_defrag st), c_seq = 0,
     c_len = take_bit 24 (of_nat (DPI_MAX_PKT_LEN - off)), c_action = 0, c_skip = 0\<rparr>"

text \<open>The tracker leaves the map and its timer, to be sent or discarded with the packet.\<close>
definition frag_detach4 :: "frag_state \<Rightarrow> ip4frag_trac \<Rightarrow> frag_state option" where
  "frag_detach4 st t =
     (let (m, linked) = rcu_map_del (th_ip4frag_map st) (\<lambda>x. f_ts_entry x = f_ts_entry t)
      in if linked then Some (st\<lparr>th_ip4frag_map := m, fr_timer := timer_wheel_entry_remove (fr_timer st) (f_ts_entry t),
              fr_kept := (fr_kept st)(f_ts_entry t \<mapsto> f_frags t)\<rparr>)
         else None)"

text \<open>The header of the current fragment, made that of the whole datagram.\<close>
definition frag_header :: "bytes \<Rightarrow> dpi_packet \<Rightarrow> u32 \<Rightarrow> bytes option" where
  "frag_header buf p n = do {
     hdr \<leftarrow> mem_read (p_pkt p) 0 (unat (p_l4 p));
     m \<leftarrow> mem_write buf 0 hdr;
     m \<leftarrow> st16 m (unat (p_l3 p) + 6) 0;
     m \<leftarrow> st16 m (unat (p_l3 p) + 2) (htons (p_l4 p - p_l3 p + ucast n));
     m \<leftarrow> st16 m (unat (p_l3 p) + 10) 0;
     c \<leftarrow> get_ip_cksum m (unat (p_l3 p));
     st16 m (unat (p_l3 p) + 10) c }"

text \<open>The result is the C value of a function declared \<open>bool\<close>: 0 on success, and 1 where the code says \<open>-1\<close>.\<close>
definition ipfrag_construct :: "ip4frag_trac \<Rightarrow> frag_state \<Rightarrow> dpi_packet \<Rightarrow> (int \<times> frag_state \<times> dpi_packet) option" where
  "ipfrag_construct t st p = do {
     (ret, cons) \<leftarrow> asm_construct (f_frags t) (frag_target st (unat (p_l4 p))) (f_length t - 1);
     if ret = ASM_OK then do {
       m \<leftarrow> frag_header (take (unat (p_l4 p)) (fr_defrag st) @ c_ptr cons) p (c_len cons);
       let n = p_l4 p + ucast (c_len cons);
       st1 \<leftarrow> frag_detach4 (st\<lparr>fr_defrag := m\<rparr>) t;
       Some (0, st1, p\<lparr>p_pkt := m, p_cap_len := n, p_len := n, p_frag_trac := Some (f_ts_entry t)\<rparr>) }
     else Some (1, st, p) }"

definition ipfrag_release :: "nat \<Rightarrow> frag_state \<Rightarrow> frag_state option" where
  "ipfrag_release entry st = do {
     t \<leftarrow> find (\<lambda>t. f_ts_entry t = entry) (map snd (th_ip4frag_map st));
     _ \<leftarrow> asm_destroy (f_frags t);
     Some (st\<lparr>th_ip4frag_map := fst (rcu_map_del (th_ip4frag_map st) (\<lambda>x. f_ts_entry x = entry))\<rparr>) }"

definition frag_key4 :: "dpi_packet \<Rightarrow> ip4frag_trac option" where
  "frag_key4 p = do {
     src \<leftarrow> ld32 (p_pkt p) (unat (p_l3 p) + 12);
     dst \<leftarrow> ld32 (p_pkt p) (unat (p_l3 p) + 16);
     ipid \<leftarrow> ld16 (p_pkt p) (unat (p_l3 p) + 4);
     Some \<lparr>f_ts_entry = 0, f_length = 0, f_first = False, f_last = False, f_frags = asm_init, f4_src = src, f4_dst = dst,
       f4_ipid = ipid, f4_ingress = FLAGS_TEST (p_flags p) DPI_PKT_FLAG_INGRESS\<rparr> }"

text \<open>The tracker of a key, a new one with a started timer if there is none; \<^term>\<open>None\<close> of the pair is the
  failed allocation.\<close>
definition frag_locate4 :: "bool \<Rightarrow> frag_state \<Rightarrow> ip4frag_trac \<Rightarrow> frag_state \<times> ip4frag_trac option" where
  "frag_locate4 ok st key = (case rcu_map_lookup (th_ip4frag_map st) ip4frag_trac_hash ip4frag_trac_match key of
      Some t \<Rightarrow> (st, Some t)
    | None \<Rightarrow>
        if \<not> ok then (st, None)
        else let n = fr_fresh st; t = key\<lparr>f_ts_entry := n\<rparr>
             in (st\<lparr>th_ip4frag_map := rcu_map_add (th_ip4frag_map st) ip4frag_trac_hash t key,
                    fr_timer := timer_wheel_entry_start (timer_wheel_entry_init (fr_timer st) n) n CB_frag_release DPI_FRAG_TIMEOUT (fr_tick st),
                    fr_fresh := n + 1\<rparr>, Some t))"

definition dpi_ip_defrag :: "frag_mem \<Rightarrow> bool \<Rightarrow> frag_state \<Rightarrow> dpi_packet \<Rightarrow> (int \<times> frag_state \<times> dpi_packet) option" where
  "dpi_ip_defrag mm tap st p = do {
     key \<leftarrow> frag_key4 p;
     (case frag_locate4 (ok_trac mm) st key of
        (st1, None) \<Rightarrow> Some (- 1, st1, p)
      | (st1, Some t) \<Rightarrow> do {
          let st2 = st1\<lparr>fr_timer := timer_wheel_entry_refresh (fr_timer st1) (f_ts_entry t) (fr_tick st1)\<rparr>;
          (t1, lg, p1) \<leftarrow> ipfrag_hold mm tap t (fr_log st2) p;
          let st3 = st2\<lparr>fr_log := lg, th_ip4frag_map := rcu_map_upd (th_ip4frag_map st2) (\<lambda>x. f_ts_entry x = f_ts_entry t) (\<lambda>_. t1)\<rparr>;
          if f_first t1 \<and> f_last t1 then ipfrag_construct t1 st3 p1 else Some (- 1, st3, p1) }) }"

subsection \<open>IPv6\<close>

definition ip6frag_trac_match :: "ip6frag_trac \<Rightarrow> ip6frag_trac \<Rightarrow> bool" where
  "ip6frag_trac_match t1 t2 \<longleftrightarrow> f6_src t1 = f6_src t2 \<and> f6_dst t1 = f6_dst t2 \<and> f6_ipid t1 = f6_ipid t2 \<and> f6_ingress t1 = f6_ingress t2"

definition ip6frag_trac_hash :: "ip6frag_trac \<Rightarrow> u32" where
  "ip6frag_trac_hash t = sdbm_hash (f6_src t) + sdbm_hash (f6_dst t) + ucast (f6_ipid t)"

text \<open>The fields of the fragment header of the packet: next header, offset and flags, identification.\<close>
definition ip6f_nxt :: "dpi_packet \<Rightarrow> byte option" where
  "ip6f_nxt p = do { h \<leftarrow> p_ip6_fragh p; rd8 (p_pkt p) h }"

definition ip6f_offlg :: "dpi_packet \<Rightarrow> u16 option" where
  "ip6f_offlg p = do { h \<leftarrow> p_ip6_fragh p; ld16 (p_pkt p) (h + 2) }"

definition ip6f_ident :: "dpi_packet \<Rightarrow> u32 option" where
  "ip6f_ident p = do { h \<leftarrow> p_ip6_fragh p; ld32 (p_pkt p) (h + 4) }"

definition ip6frag_hold :: "frag_mem \<Rightarrow> ip6frag_trac \<Rightarrow> dpi_packet \<Rightarrow> ip6frag_trac option" where
  "ip6frag_hold mm t p = do {
     fo \<leftarrow> ip6f_offlg p;
     let frag_off = (ucast (ntohs fo) :: u32);
     let seq = frag_off AND IP6F_OFF_MASK;
     let len = (ucast (p_len p) - ucast (p_l4 p) :: u32);
     t1 \<leftarrow> (if seq = 0 then map_option (\<lambda>nxt. t\<lparr>f_first := True, f6_next_header := nxt\<rparr>) (ip6f_nxt p) else Some t);
     let (t2, save) = frag_bounds (FLAGS_TEST frag_off IP6F_MORE_FRAG) (seq + len) t1;
     if save then frag_save (ok_clip mm) seq len p t2 else Some t2 }"

text \<open>As in the code, the tracker is deleted from the map of IPv4 fragments, where it is not linked.\<close>
definition frag_detach6 :: "frag_state \<Rightarrow> ip6frag_trac \<Rightarrow> frag_state option" where
  "frag_detach6 st t =
     (let (m, linked) = rcu_map_del (th_ip4frag_map st) (\<lambda>x. f_ts_entry x = f_ts_entry t)
      in if linked then Some (st\<lparr>th_ip4frag_map := m, fr_timer := timer_wheel_entry_remove (fr_timer st) (f_ts_entry t),
              fr_kept := (fr_kept st)(f_ts_entry t \<mapsto> f_frags t)\<rparr>)
         else None)"

definition frag_header6 :: "bytes \<Rightarrow> dpi_packet \<Rightarrow> byte \<Rightarrow> u32 \<Rightarrow> bytes option" where
  "frag_header6 buf p nxt n = do {
     hdr \<leftarrow> mem_read (p_pkt p) 0 (unat (p_l3 p) + 40);
     m \<leftarrow> mem_write buf 0 hdr;
     m \<leftarrow> mem_write m (unat (p_l3 p) + 6) [nxt];
     st16 m (unat (p_l3 p) + 4) (htons (ucast n)) }"

definition ip6frag_construct :: "ip6frag_trac \<Rightarrow> frag_state \<Rightarrow> dpi_packet \<Rightarrow> (int \<times> frag_state \<times> dpi_packet) option" where
  "ip6frag_construct t st p = do {
     let off = unat (p_l3 p) + 40;
     (ret, cons) \<leftarrow> asm_construct (f_frags t) (frag_target st off) (f_length t - 1);
     if ret = ASM_OK then do {
       m \<leftarrow> frag_header6 (take off (fr_defrag st) @ c_ptr cons) p (f6_next_header t) (c_len cons);
       let n = p_l3 p + 40 + ucast (c_len cons);
       st1 \<leftarrow> frag_detach6 (st\<lparr>fr_defrag := m\<rparr>) t;
       Some (0, st1, p\<lparr>p_pkt := m, p_cap_len := n, p_len := n, p_l4 := p_l3 p + 40, p_frag_trac := Some (f_ts_entry t)\<rparr>) }
     else Some (1, st, p) }"

definition ip6frag_release :: "nat \<Rightarrow> frag_state \<Rightarrow> frag_state option" where
  "ip6frag_release entry st = do {
     t \<leftarrow> find (\<lambda>t. f_ts_entry t = entry) (map snd (th_ip6frag_map st));
     let (m, linked) = rcu_map_del (th_ip4frag_map st) (\<lambda>x. f_ts_entry x = entry);
     _ \<leftarrow> asm_destroy (f_frags t);
     if linked then Some (st\<lparr>th_ip4frag_map := m\<rparr>) else None }"

text \<open>The identification is 32 bits wide in the header and kept in 16 bits.\<close>
definition frag_key6 :: "dpi_packet \<Rightarrow> ip6frag_trac option" where
  "frag_key6 p = do {
     src \<leftarrow> mem_read (p_pkt p) (unat (p_l3 p) + 8) 16;
     dst \<leftarrow> mem_read (p_pkt p) (unat (p_l3 p) + 24) 16;
     ident \<leftarrow> ip6f_ident p;
     Some \<lparr>f_ts_entry = 0, f_length = 0, f_first = False, f_last = False, f_frags = asm_init, f6_src = src, f6_dst = dst,
       f6_ipid = ucast ident, f6_next_header = 0, f6_ingress = FLAGS_TEST (p_flags p) DPI_PKT_FLAG_INGRESS\<rparr> }"

text \<open>The part of \<open>dpi_ipv6_defrag\<close> that has its tracker.\<close>
definition frag_collect6 :: "frag_mem \<Rightarrow> frag_state \<Rightarrow> ip6frag_trac \<Rightarrow> dpi_packet \<Rightarrow> (int \<times> frag_state \<times> dpi_packet) option" where
  "frag_collect6 mm st t p = do {
     let st1 = st\<lparr>fr_timer := timer_wheel_entry_refresh (fr_timer st) (f_ts_entry t) (fr_tick st)\<rparr>;
     t1 \<leftarrow> ip6frag_hold mm t p;
     let st2 = st1\<lparr>th_ip6frag_map := rcu_map_upd (th_ip6frag_map st1) (\<lambda>x. f_ts_entry x = f_ts_entry t) (\<lambda>_. t1)\<rparr>;
     if f_first t1 \<and> f_last t1 then ip6frag_construct t1 st2 p else Some (- 1, st2, p) }"

definition dpi_ipv6_defrag :: "frag_mem \<Rightarrow> frag_state \<Rightarrow> dpi_packet \<Rightarrow> (int \<times> frag_state \<times> dpi_packet) option" where
  "dpi_ipv6_defrag mm st p = do {
     key \<leftarrow> frag_key6 p;
     (case rcu_map_lookup (th_ip6frag_map st) ip6frag_trac_hash ip6frag_trac_match key of
        Some t \<Rightarrow> frag_collect6 mm st t p
      | None \<Rightarrow> do {
          fo \<leftarrow> ip6f_offlg p;
          let frag_off = (ucast (ntohs fo) :: u32);
          if frag_off AND IP6F_OFF_MASK = 0 \<and> frag_off AND IP6F_MORE_FRAG = 0 then Some (0, st, p)
          else if \<not> ok_trac mm then Some (- 1, st, p)
          else let n = fr_fresh st; t = key\<lparr>f_ts_entry := n\<rparr>
               in frag_collect6 mm (st\<lparr>th_ip6frag_map := rcu_map_add (th_ip6frag_map st) ip6frag_trac_hash t key,
                    fr_timer := timer_wheel_entry_start (timer_wheel_entry_init (fr_timer st) n) n CB_frag6_release DPI_FRAG_TIMEOUT (fr_tick st),
                    fr_fresh := n + 1\<rparr>) t p }) }"

subsection \<open>Sending and discarding\<close>

definition send_frag :: "clip \<Rightarrow> bytes option" where
  "send_frag clip = mem_read (c_ptr clip) 0 (unat (c_len clip + ucast (c_skip clip)))"

definition dpi_frag_discard :: "nat \<Rightarrow> frag_state \<Rightarrow> frag_state option" where
  "dpi_frag_discard tr st = do {
     a \<leftarrow> fr_kept st tr;
     _ \<leftarrow> asm_destroy a;
     Some (st\<lparr>fr_kept := (fr_kept st)(tr := None)\<rparr>) }"

definition dpi_frag_send :: "nat \<Rightarrow> frag_state \<Rightarrow> frag_state option" where
  "dpi_frag_send tr st = do {
     a \<leftarrow> fr_kept st tr;
     clips \<leftarrow> asm_foreach a;
     out \<leftarrow> those (map send_frag clips);
     _ \<leftarrow> asm_destroy a;
     Some (st\<lparr>fr_kept := (fr_kept st)(tr := None), fr_sent := fr_sent st @ out\<rparr>) }"

definition dpi_frag_init :: "frag_state \<Rightarrow> frag_state" where
  "dpi_frag_init st = st\<lparr>th_ip4frag_map := rcu_map_init, th_ip6frag_map := rcu_map_init\<rparr>"

subsection \<open>Complete and incomplete sets of clips\<close>


lemma sorted_wrt_distinct_map: "sorted_wrt (\<lambda>c d. (f c :: nat) < f d) xs \<Longrightarrow> distinct (map f xs)"
  by (induction xs) auto

lemma asm_inv_length: "asm_inv b a \<Longrightarrow> length (clips_of a) \<le> 2 ^ 31"
proof -
  assume i: "asm_inv b a"
  have "distinct (map (\<lambda>c. pos b (c_seq c)) (clips_of a))" using sorted_wrt_distinct_map[OF asm_inv_sorted[OF i]] .
  moreover have "set (map (\<lambda>c. pos b (c_seq c)) (clips_of a)) \<subseteq> {..< 2 ^ 31}"
    using i by (auto simp: asm_inv_def clip_window_def)
  ultimately show ?thesis by (metis card_lessThan card_mono distinct_card finite_lessThan length_map)
qed

lemma chained_covers:
  "chained b xs \<Longrightarrow> c \<in> set xs \<Longrightarrow> pos b (c_seq (hd xs)) \<le> i \<Longrightarrow> i < clip_end b c \<Longrightarrow>
     \<exists>d\<in>set xs. pos b (c_seq d) \<le> i \<and> i < clip_end b d"
proof (induction b xs rule: chained.induct)
  case (1 b c' d cs)
  show ?case
  proof (cases "i < clip_end b c'")
    case False
    then have "c \<noteq> c'" "pos b (c_seq d) \<le> i" using 1(2,5) by auto
    then show ?thesis using 1 by fastforce
  qed (use 1 in auto)
qed auto

lemma covered_chained:
  assumes "sorted_wrt (\<lambda>c d. pos b (c_seq c) < pos b (c_seq d) \<and> clip_end b c \<le> pos b (c_seq d)) xs"
    and "\<forall>c\<in>set xs. unat (c_len c) > 0 \<and> clip_end b c \<le> N"
    and "\<And>i. (\<exists>c\<in>set xs. pos b (c_seq c) \<le> i) \<Longrightarrow> i < N \<Longrightarrow> \<exists>c\<in>set xs. pos b (c_seq c) \<le> i \<and> i < clip_end b c"
  shows "chained b xs"
  using assms
proof (induction b xs rule: chained.induct)
  case (1 b c d cs)
  have len: "unat (c_len c) > 0" "unat (c_len d) > 0" "clip_end b d \<le> N" using 1(3) by auto
  have "clip_end b c < N" using 1(2) len by (auto simp: clip_end_def)
  then obtain e where e: "e \<in> set (c # d # cs)" "pos b (c_seq e) \<le> clip_end b c" "clip_end b c < clip_end b e"
    using 1(4)[of "clip_end b c"] by (auto simp: clip_end_def)
  then have "pos b (c_seq d) \<le> clip_end b c" using 1(2) by (auto intro: order_trans less_imp_le)
  moreover have "chained b (d # cs)"
  proof (rule 1(1))
    show "sorted_wrt (\<lambda>c d. pos b (c_seq c) < pos b (c_seq d) \<and> clip_end b c \<le> pos b (c_seq d)) (d # cs)"
      "\<forall>c\<in>set (d # cs). unat (c_len c) > 0 \<and> clip_end b c \<le> N" using 1(2,3) by auto
    fix i assume i: "\<exists>x\<in>set (d # cs). pos b (c_seq x) \<le> i" "i < N"
    then have "pos b (c_seq d) \<le> i" using 1(2) by (auto intro: order_trans less_imp_le)
    then have "clip_end b c \<le> i" using 1(2) by auto
    then show "\<exists>x\<in>set (d # cs). pos b (c_seq x) \<le> i \<and> i < clip_end b x"
      using 1(4)[of i] i by auto
  qed
  ultimately show ?case using 1(2) by auto
qed auto

lemma asm_scan_all:
  assumes "chained b (run @ xs)" "\<forall>c\<in>set (run @ xs). clip_ok b strm c \<and> clip_end b c > pos b tseq \<and> clip_end b c \<le> pos b (c_seq (hd (run @ xs))) + N"
    and "pos b tseq < 2 ^ 31" "unat tot \<le> N"
  shows "\<exists>tot'. asm_scan xs run tot tseq mh = Some (run @ xs, tot') \<and> unat tot' \<le> N"
  using assms
proof (induction xs run tot tseq mh rule: asm_scan.induct)
  case (2 itr rest run tot tseq mh)
  let ?fin = "c_seq itr + c_len itr" let ?tot = "max tot (?fin - c_seq (hd (run @ [itr])))"
  have ok: "clip_ok b strm itr" "clip_end b itr > pos b tseq" using 2(4) by auto
  have e: "pos b ?fin = clip_end b itr" "clip_end b itr < 2 ^ 31" using ok(1) clip_end_pos[OF ok(1)] by (auto simp: clip_ok_def clip_end_def)
  have n1: "\<not> u32_lte ?fin tseq" using ok(2) e 2(5) by (simp add: window_lte[of b])
  have n2: "\<not> (rest \<noteq> [] \<and> u32_lt ?fin (c_seq (hd rest)))"
  proof (cases rest)
    case (Cons d ds)
    have ch: "chained b (run @ itr # d # ds) \<Longrightarrow> pos b (c_seq d) \<le> clip_end b itr" for run
      by (induction run rule: induct_list012) (auto, (case_tac zs; simp)?)
    have "clip_ok b strm d" using 2(4) Cons by auto
    then have "pos b (c_seq d) < 2 ^ 31" by (simp add: clip_ok_def)
    then show ?thesis using ch[of run] 2(3) Cons e by (simp add: window_lt[of b])
  qed simp
  have h: "pos b (c_seq (hd (run @ [itr]))) \<le> pos b (c_seq itr)" "hd (run @ [itr]) = hd (run @ itr # rest)"
    using chained_hd[OF 2(3), of itr] by (cases run; simp)+
  have "unat (?fin - c_seq (hd (run @ [itr]))) = clip_end b itr - pos b (c_seq (hd (run @ [itr])))"
    using h(1) e by (subst pos_diff[of b]) (auto simp: clip_end_def)
  then have "unat (?fin - c_seq (hd (run @ [itr]))) \<le> N" using 2(4) h(2) by auto
  then have "unat ?tot \<le> N" using 2(6) by (simp add: max_def)
  then have "\<exists>tot'. asm_scan rest (run @ [itr]) ?tot tseq mh = Some ((run @ [itr]) @ rest, tot') \<and> unat tot' \<le> N"
    using 2(2)[OF refl refl refl n1 n2] 2(3-5) by simp
  then show ?case using n1 n2 by (auto simp: Let_def)
qed simp

lemma asm_scan_gap:
  assumes "\<not> chained b xs" "sorted_wrt (\<lambda>c d. pos b (c_seq c) < pos b (c_seq d)) xs"
    "\<forall>c\<in>set xs. clip_ok b strm c \<and> unat (c_len c) > 0 \<and> clip_end b c > pos b tseq \<and> clip_end b c \<le> pos b mh + 1"
    "pos b tseq < 2 ^ 31" "pos b mh < 2 ^ 31"
  shows "asm_scan xs run tot tseq mh = None"
  using assms
proof (induction xs run tot tseq mh rule: asm_scan.induct)
  case (2 itr rest run tot tseq mh)
  let ?fin = "c_seq itr + c_len itr"
  obtain d ds where r: "rest = d # ds" using 2(3) by (cases rest) auto
  have ok: "clip_ok b strm itr" "clip_end b itr > pos b tseq" "clip_ok b strm d" "unat (c_len d) > 0" "clip_end b d \<le> pos b mh + 1" using 2(5) r by auto
  have e: "pos b ?fin = clip_end b itr" "clip_end b itr < 2 ^ 31" "pos b (c_seq d) < 2 ^ 31"
    using ok(1,3) clip_end_pos[OF ok(1)] by (auto simp: clip_ok_def clip_end_def)
  have n1: "\<not> u32_lte ?fin tseq" using ok(2) e 2(6) by (simp add: window_lte[of b])
  show ?case
  proof (cases "u32_lt ?fin (c_seq d)")
    case True
    then have "clip_end b itr < pos b mh" using ok(4,5) e by (simp add: window_lt[of b] clip_end_def)
    then have "u32_lt ?fin mh" using e 2(7) by (simp add: window_lt[of b])
    then show ?thesis using n1 True r by (simp add: Let_def)
  next
    case False
    then have "pos b (c_seq d) \<le> clip_end b itr" using e by (simp add: window_lt[of b])
    then have "\<not> chained b rest" using 2(3,4) r by (auto simp: less_imp_le)
    then have "asm_scan rest (run @ [itr]) (max tot (?fin - c_seq (hd (run @ [itr])))) tseq mh = None"
      using 2(2)[OF refl refl refl n1] False r 2(4-7) by simp
    moreover have "\<not> (rest \<noteq> [] \<and> u32_lt ?fin (c_seq (hd rest)))" using False r by simp
    ultimately show ?thesis using n1 by (simp only: asm_scan.simps(2) Let_def if_False)
  qed
qed simp

text \<open>Clips that tile the first \<open>N\<close> bytes are put together; with a gap nothing is.\<close>
lemma asm_construct_complete:
  assumes inv: "asm_inv 0 a" and ok: "\<forall>c\<in>set (clips_of a). clip_ok 0 strm c \<and> unat (c_len c) > 0 \<and> clip_end 0 c \<le> N"
    and ch: "chained 0 (clips_of a)" and h: "c_seq (hd (clips_of a)) = 0" and two: "2 \<le> length (clips_of a)"
    and cN: "c \<in> set (clips_of a)" "clip_end 0 c = N"
    and tg: "c_seq tg = 0" "N \<le> unat (c_len tg)" "unat (c_len tg) \<le> length (c_ptr tg)" "N < 2 ^ 24"
  shows "\<exists>buf. asm_construct a tg mh = Some (ASM_OK, tg\<lparr>c_ptr := buf, c_len := of_nat N, c_seq := 0\<rparr>) \<and> length buf = length (c_ptr tg) \<and>
    (\<forall>i < N. buf ! i = strm (of_nat i))"
proof -
  have cnt: "\<not> asm_count a \<le> 1"
  proof -
    have "unat (asm_count a) = length (clips_of a)" using inv asm_inv_length[OF inv] by (simp add: asm_inv_def unat_of_nat)
    then show ?thesis using two by (simp add: word_le_nat_alt)
  qed
  have fe: "asm_foreach a = Some (clips_of a)" by (simp add: asm_foreach_def tree_traverse_inorder)
  have "\<exists>tot'. asm_scan (clips_of a) [] 0 0 mh = Some ([] @ clips_of a, tot') \<and> unat tot' \<le> N"
    using ok ch by (intro asm_scan_all[where b = 0 and strm = strm]) (auto simp: pos_def clip_end_def)
  then obtain tot where sc: "asm_scan (clips_of a) [] 0 0 mh = Some (clips_of a, tot)" "unat tot \<le> N" by auto
  have "\<exists>buf' len'. asm_copy (clips_of a) 0 (c_ptr tg) 0 = Some (buf', len') \<and> length buf' = length (c_ptr tg) \<and>
      unat (0 :: u32) \<le> unat len' \<and> unat len' \<le> N \<and> (\<forall>c\<in>set (clips_of a). clip_end 0 c \<le> pos 0 0 + unat len') \<and>
      (\<forall>i < unat len'. buf' ! i = strm (0 + of_nat i))"
    using ok ch h tg by (intro asm_copy_spec) (auto simp: pos_def)
  then obtain buf len where cp: "asm_copy (clips_of a) 0 (c_ptr tg) 0 = Some (buf, len)" "length buf = length (c_ptr tg)"
      "unat len = N" "\<forall>i < N. buf ! i = strm (of_nat i)"
    using cN by (auto simp: pos_def le_antisym)
  have "len = of_nat N" by (simp add: cp(3)[symmetric])
  moreover have "\<not> c_len tg < tot" "\<not> u32_lt 0 0" "\<not> length (clips_of a) \<le> 1"
    using sc(2) tg(2) two by (simp_all add: word_less_nat_alt u32_lt_def)
  ultimately show ?thesis using cnt fe sc(1) cp tg(1) h by (intro exI[of _ buf]) (simp add: asm_construct_def)
qed

lemma asm_construct_gap:
  assumes inv: "asm_inv 0 a" and ok: "\<forall>c\<in>set (clips_of a). clip_ok 0 strm c \<and> unat (c_len c) > 0 \<and> clip_end 0 c \<le> unat mh + 1"
    and gap: "\<not> chained 0 (clips_of a)" and tg: "c_seq tg = 0" and mh: "unat mh < 2 ^ 31"
  shows "asm_construct a tg mh = Some (ASM_NOP, tg)"
proof -
  have "asm_scan (clips_of a) [] 0 0 mh = None"
    using ok gap asm_inv_sorted[OF inv] mh by (intro asm_scan_gap[where b = 0 and strm = strm]) (auto simp: pos_def clip_end_def)
  then show ?thesis using tg by (simp add: asm_construct_def asm_foreach_def tree_traverse_inorder)
qed

subsection \<open>Fragments of a datagram\<close>

text \<open>Where the payload of a fragment belongs, and whether more follows.\<close>
definition frag_word :: "dpi_packet \<Rightarrow> u16" where
  "frag_word p = (case ld16 (p_pkt p) (unat (p_l3 p) + 6) of Some w \<Rightarrow> ntohs w | None \<Rightarrow> 0)"

definition frag_off_of :: "dpi_packet \<Rightarrow> nat" where
  "frag_off_of p = 8 * unat (frag_word p AND 0x1fff)"

definition frag_len_of :: "dpi_packet \<Rightarrow> nat" where
  "frag_len_of p = unat (p_len p) - unat (p_l4 p)"

definition frag_end_of :: "dpi_packet \<Rightarrow> nat" where
  "frag_end_of p = frag_off_of p + frag_len_of p"

text \<open>A parsed packet that carries a piece of the datagram's payload \<open>D\<close>.\<close>
definition fragment_of :: "bytes \<Rightarrow> dpi_packet \<Rightarrow> bool" where
  "fragment_of D p \<longleftrightarrow> unat (p_l3 p) + 20 \<le> unat (p_l4 p) \<and> get_iph_len (p_pkt p) (unat (p_l3 p)) = Some (p_l4 p - p_l3 p) \<and>
     unat (p_l4 p) < unat (p_len p) \<and> unat (p_len p) \<le> unat (p_cap_len p) \<and> unat (p_cap_len p) \<le> length (p_pkt p) \<and>
     frag_end_of p \<le> length D \<and> (frag_word p AND 0x2000 \<noteq> 0 \<longleftrightarrow> frag_end_of p < length D) \<and>
     take (frag_len_of p) (drop (unat (p_l4 p)) (p_pkt p)) = take (frag_len_of p) (drop (frag_off_of p) D)"

definition frag_apart :: "dpi_packet \<Rightarrow> dpi_packet \<Rightarrow> bool" where
  "frag_apart p q \<longleftrightarrow> frag_end_of p \<le> frag_off_of q \<or> frag_end_of q \<le> frag_off_of p"

definition clip_of :: "dpi_packet \<Rightarrow> clip" where
  "clip_of p = \<lparr>c_ptr = take (unat (p_cap_len p)) (p_pkt p), c_seq = of_nat (frag_off_of p), c_len = of_nat (frag_len_of p),
     c_action = 0, c_skip = p_l4 p\<rparr>"

text \<open>The tracker holds exactly the fragments \<open>S\<close> of \<open>D\<close>.\<close>
definition trac_inv :: "bytes \<Rightarrow> dpi_packet set \<Rightarrow> 'a frag_trac_scheme \<Rightarrow> bool" where
  "trac_inv D S t \<longleftrightarrow> asm_inv 0 (f_frags t) \<and> set (clips_of (f_frags t)) = clip_of ` S \<and>
     (f_first t \<longleftrightarrow> (\<exists>p\<in>S. frag_off_of p = 0)) \<and> (f_last t \<longleftrightarrow> (\<exists>p\<in>S. frag_end_of p = length D)) \<and>
     (\<forall>p\<in>S. frag_end_of p \<le> unat (f_length t)) \<and> unat (f_length t) \<le> length D"

lemma frag_off_bound: "frag_off_of p \<le> 65528"
proof -
  have "frag_word p AND 0x1fff \<le> 0x1fff" by (rule word_and_le1)
  then show ?thesis by (simp add: frag_off_of_def word_le_nat_alt)
qed

lemma frag_len_bound: "frag_len_of p \<le> 65535"
  using unat16_lt[of "p_len p"] by (simp add: frag_len_of_def)

lemma frag_len_pos: "fragment_of D p \<Longrightarrow> 0 < frag_len_of p"
  by (simp add: fragment_of_def frag_len_of_def)

lemma unat_small: "n < 2 ^ 32 \<Longrightarrow> unat (of_nat n :: u32) = n"
  by (simp add: unat_of_nat)

lemma clip_of_pos:
  "pos 0 (c_seq (clip_of p)) = frag_off_of p" "unat (c_len (clip_of p)) = frag_len_of p" "clip_end 0 (clip_of p) = frag_end_of p"
  using frag_off_bound[of p] frag_len_bound[of p] by (simp_all add: clip_of_def pos_def clip_end_def frag_end_of_def unat_small)

lemma clip_of_window: "clip_of p \<in> clip_window 0"
  using frag_off_bound[of p] by (simp add: clip_window_def clip_of_pos)

lemma clip_of_ok:
  assumes "fragment_of D p"
  shows "clip_ok 0 (\<lambda>i. D ! unat i) (clip_of p)"
proof -
  have f: "unat (p_l4 p) + frag_len_of p \<le> unat (p_cap_len p)" "unat (p_cap_len p) \<le> length (p_pkt p)" "frag_off_of p + frag_len_of p \<le> length D"
    and e: "take (frag_len_of p) (drop (unat (p_l4 p)) (p_pkt p)) = take (frag_len_of p) (drop (frag_off_of p) D)"
    using assms by (auto simp: fragment_of_def frag_len_of_def frag_end_of_def)
  have "p_pkt p ! (unat (p_l4 p) + i) = D ! (frag_off_of p + i)" if "i < frag_len_of p" for i
    using arg_cong[OF e, of "\<lambda>l. l ! i"] that f by simp
  moreover have "unat (of_nat (frag_off_of p) + of_nat i :: u32) = frag_off_of p + i" if "i < frag_len_of p" for i
    using that frag_off_bound[of p] frag_len_bound[of p] by (simp add: unat_small flip: of_nat_add)
  moreover have "unat (c_skip (clip_of p)) = unat (p_l4 p)" "c_ptr (clip_of p) = take (unat (p_cap_len p)) (p_pkt p)" "c_seq (clip_of p) = of_nat (frag_off_of p)"
    by (simp_all add: clip_of_def)
  ultimately show ?thesis using f frag_off_bound[of p] frag_len_bound[of p] unfolding clip_ok_def clip_of_pos by auto
qed

lemma unat_eqI: "unat (x :: u32) = n \<Longrightarrow> x = of_nat n"
  by auto

lemma unat_minus_one_32: "0 < unat (x :: u32) \<Longrightarrow> unat (x - 1) = unat x - 1"
  by (simp add: unat_sub word_le_nat_alt)

lemma ucast_16_zero: "ucast (x :: u16) = (0 :: u32) \<longleftrightarrow> x = 0"
  using unat16_lt[of x] by (simp add: word_unat_eq_iff unsigned_ucast_eq take_bit_nat_eq_self)

lemma frag_fields:
  assumes "fragment_of D p"
  obtains fo where "ld16 (p_pkt p) (unat (p_l3 p) + 6) = Some fo" "ntohs fo = frag_word p"
    "push_bit 3 (ucast (frag_word p) AND IP_OFFMASK) = (of_nat (frag_off_of p) :: u32)"
    "ucast (p_len p) - ucast (p_l4 p) = (of_nat (frag_len_of p) :: u32)"
    "FLAGS_TEST (ucast (frag_word p)) IP_MF \<longleftrightarrow> frag_end_of p < length D"
proof -
  let ?w = "frag_word p"
  have f: "unat (p_l3 p) + 20 \<le> unat (p_l4 p)" "unat (p_l4 p) < unat (p_len p)" "unat (p_len p) \<le> length (p_pkt p)"
    "?w AND 0x2000 \<noteq> 0 \<longleftrightarrow> frag_end_of p < length D"
    using assms by (auto simp: fragment_of_def)
  obtain fo where fo: "ld16 (p_pkt p) (unat (p_l3 p) + 6) = Some fo" using ld16_Some[of "unat (p_l3 p) + 6" "p_pkt p"] f by auto
  have u: "ucast ?w AND (0x1fff :: u32) = ucast (?w AND 0x1fff)" "ucast ?w AND (0x2000 :: u32) = ucast (?w AND 0x2000)"
    by (simp_all add: unsigned_and_eq)
  have le: "unat (?w AND 0x1fff) \<le> 0x1fff" using word_and_le1[of ?w "0x1fff"] by (simp add: word_le_nat_alt)
  have "unat (push_bit 3 (ucast (?w AND 0x1fff)) :: u32) = frag_off_of p"
    using le by (simp add: push_bit_eq_mult unat_word_ariths unsigned_ucast_eq take_bit_nat_eq_self frag_off_of_def)
  then have 1: "push_bit 3 (ucast ?w AND IP_OFFMASK) = (of_nat (frag_off_of p) :: u32)"
    unfolding IP_OFFMASK_def u by (rule unat_eqI)
  have "unat (ucast (p_len p) - ucast (p_l4 p) :: u32) = frag_len_of p"
    using f unat16_lt[of "p_len p"] by (simp add: unat_sub word_le_nat_alt unsigned_ucast_eq take_bit_nat_eq_self frag_len_of_def)
  then have 2: "ucast (p_len p) - ucast (p_l4 p) = (of_nat (frag_len_of p) :: u32)" by (rule unat_eqI)
  have 3: "FLAGS_TEST (ucast ?w) IP_MF \<longleftrightarrow> frag_end_of p < length D"
    using f(4) unfolding FLAGS_TEST_def IP_MF_def u ucast_16_zero by simp
  show ?thesis by (rule that[OF fo _ 1 2 3]) (simp add: frag_word_def fo)
qed

lemma teardrop_none:
  "\<forall>c\<in>set cs. \<not> u32_overlap seq (seq + len) (c_seq c) (c_seq c + c_len c) \<Longrightarrow> \<not> foldl (teardrop_check seq len) False cs"
  by (induction cs) (auto simp: teardrop_check_def)

lemma apart_no_overlap:
  assumes "frag_apart p q"
  shows "\<not> u32_overlap (of_nat (frag_off_of p)) (of_nat (frag_off_of p) + of_nat (frag_len_of p)) (c_seq (clip_of q)) (c_seq (clip_of q) + c_len (clip_of q))"
  using assms frag_off_bound[of p] frag_len_bound[of p] frag_off_bound[of q] frag_len_bound[of q]
  by (auto simp: frag_apart_def u32_overlap_def clip_of_def frag_end_of_def word_less_nat_alt unat_small simp flip: of_nat_add)

lemma take_bit_30: "n < 2 ^ 30 \<Longrightarrow> take_bit 30 (of_nat n :: u32) = of_nat n"
  by (simp add: word_unat_eq_iff unsigned_take_bit_eq unat_small take_bit_nat_eq_self)

lemma frag_bounds_eq:
  assumes "unat (f_length t) \<le> n" "f_last t \<Longrightarrow> unat (f_length t) = n" "fin \<le> n" "n < 2 ^ 30"
  shows "frag_bounds (fin < n) (of_nat fin) t =
    (t\<lparr>f_last := f_last t \<or> fin = n, f_length := of_nat (max (unat (f_length t)) fin)\<rparr>, True)"
proof (cases "fin < n")
  case True
  then show ?thesis using assms
    by (cases t; cases "fin \<le> unat (f_length t)") (auto simp: frag_bounds_def word_less_nat_alt unat_small take_bit_30 max_def)
next
  case False
  then have n: "fin = n" using assms(3) by simp
  have "\<not> (of_nat n :: u32) < f_length t" "f_last t \<Longrightarrow> f_length t = of_nat n"
    using assms by (auto simp: word_less_nat_alt unat_small)
  then show ?thesis using assms unfolding n by (auto simp: frag_bounds_def take_bit_30 max_absorb2)
qed

lemma frag_save_eq:
  assumes "fragment_of D p"
  shows "frag_save True (of_nat (frag_off_of p)) (of_nat (frag_len_of p)) p t = Some (t\<lparr>f_frags := snd (asm_insert (f_frags t) (clip_of p))\<rparr>)"
proof -
  have "take_bit 24 (of_nat (frag_len_of p) :: u32) = of_nat (frag_len_of p)"
    using frag_len_bound[of p] by (intro take_bit_24) (simp add: unat_small)
  moreover have "mem_read (p_pkt p) 0 (unat (p_cap_len p)) = Some (take (unat (p_cap_len p)) (p_pkt p))"
    using assms by (simp add: mem_read_def fragment_of_def)
  ultimately show ?thesis by (simp add: frag_save_def clip_of_def)
qed

text \<open>The tracker after a fragment that is apart from those it holds.\<close>
definition held :: "bytes \<Rightarrow> dpi_packet \<Rightarrow> 'a frag_trac_scheme \<Rightarrow> 'a frag_trac_scheme" where
  "held D p t = t\<lparr>f_first := f_first t \<or> frag_off_of p = 0, f_last := f_last t \<or> frag_end_of p = length D,
     f_length := of_nat (max (unat (f_length t)) (frag_end_of p)), f_frags := snd (asm_insert (f_frags t) (clip_of p))\<rparr>"

lemma held_inv:
  assumes inv: "trac_inv D S t" and fr: "\<forall>q\<in>S. fragment_of D q" and p: "fragment_of D p"
    and ap: "\<forall>q\<in>S. frag_apart p q" and D: "length D < 2 ^ 30"
  shows "trac_inv D (insert p S) (held D p t)"
proof -
  have a: "asm_inv 0 (f_frags t)" "set (clips_of (f_frags t)) = clip_of ` S" using inv by (simp_all add: trac_inv_def)
  have ne: "c_seq (clip_of q) \<noteq> c_seq (clip_of p)" if "q \<in> S" for q
  proof -
    have "frag_off_of q \<noteq> frag_off_of p"
      using ap fr p that by (fastforce simp: frag_apart_def frag_end_of_def fragment_of_def frag_len_of_def)
    then show ?thesis using clip_of_pos(1)[of p] clip_of_pos(1)[of q] by auto
  qed
  obtain a' where a': "asm_insert (f_frags t) (clip_of p) = (ASM_OK, a')" "asm_inv 0 a'" "set (clips_of a') = insert (clip_of p) (clip_of ` S)"
    using asm_insert_spec[OF a(1) clip_of_window[of p]] ne a(2) by auto
  have "frag_end_of p \<le> length D" using p by (simp add: fragment_of_def)
  then show ?thesis using inv a' D by (auto simp: trac_inv_def held_def unat_small max_def)
qed

lemma ipfrag_hold_eq:
  assumes inv: "trac_inv D S t" and p: "fragment_of D p" and ap: "\<forall>q\<in>S. frag_apart p q" and D: "length D < 2 ^ 30"
    and ok: "ok_clip mm"
  shows "ipfrag_hold mm tap t lg p = Some (held D p t, lg, p)"
proof -
  obtain fo where fo: "ld16 (p_pkt p) (unat (p_l3 p) + 6) = Some fo" "ntohs fo = frag_word p"
    "push_bit 3 (ucast (frag_word p) AND IP_OFFMASK) = (of_nat (frag_off_of p) :: u32)"
    "ucast (p_len p) - ucast (p_l4 p) = (of_nat (frag_len_of p) :: u32)"
    "FLAGS_TEST (ucast (frag_word p)) IP_MF \<longleftrightarrow> frag_end_of p < length D"
    using frag_fields[OF p] by blast
  have pos: "(of_nat (frag_len_of p) :: u32) \<noteq> 0"
    using frag_len_pos[OF p] frag_len_bound[of p] by (auto simp: word_unat_eq_iff unat_small)
  have cs: "set (clips_of (f_frags t)) = clip_of ` S" using inv by (simp add: trac_inv_def)
  have ov: "\<not> foldl (teardrop_check (of_nat (frag_off_of p)) (of_nat (frag_len_of p))) False (clips_of (f_frags t))"
    by (intro teardrop_none, unfold cs) (use ap apart_no_overlap in blast)
  have fe: "asm_foreach (f_frags t) = Some (clips_of (f_frags t))" by (simp add: asm_foreach_def tree_traverse_inorder)
  have z: "(of_nat (frag_off_of p) :: u32) = 0 \<longleftrightarrow> frag_off_of p = 0"
    using frag_off_bound[of p] by (auto simp: word_unat_eq_iff unat_small)
  have e: "frag_end_of p \<le> length D" using p by (simp add: fragment_of_def)
  let ?t = "if frag_off_of p = 0 then t\<lparr>f_first := True\<rparr> else t"
  have b: "frag_bounds (frag_end_of p < length D) (of_nat (frag_end_of p)) ?t =
      (?t\<lparr>f_last := f_last ?t \<or> frag_end_of p = length D, f_length := of_nat (max (unat (f_length ?t)) (frag_end_of p))\<rparr>, True)"
    using inv e D by (intro frag_bounds_eq) (auto simp: trac_inv_def)
  have s: "(of_nat (frag_off_of p) + of_nat (frag_len_of p) :: u32) = of_nat (frag_end_of p)" by (simp add: frag_end_of_def)
  have "ipfrag_hold mm tap t lg p = do {
     let (t2, save) = frag_bounds (frag_end_of p < length D) (of_nat (frag_end_of p)) ?t;
     if save then do { t3 \<leftarrow> frag_save True (of_nat (frag_off_of p)) (of_nat (frag_len_of p)) p t2; Some (t3, lg, p) }
     else Some (t2, lg, p) }"
    unfolding ipfrag_hold_def fo(1) Let_def Option.bind_lunit fo(2-5) s z eqTrueI[OF ok] using ov fe pos by simp
  also have "\<dots> = Some (held D p t, lg, p)"
    unfolding b by (cases t) (simp add: frag_save_eq[OF p] held_def)
  finally show ?thesis .
qed

subsection \<open>Completion\<close>

definition covers :: "dpi_packet set \<Rightarrow> nat \<Rightarrow> bool" where
  "covers S i \<longleftrightarrow> (\<exists>p\<in>S. frag_off_of p \<le> i \<and> i < frag_end_of p)"

definition pieces :: "bytes \<Rightarrow> dpi_packet set \<Rightarrow> bool" where
  "pieces D S \<longleftrightarrow> (\<forall>p\<in>S. fragment_of D p) \<and> (\<forall>p\<in>S. \<forall>q\<in>S. p \<noteq> q \<longrightarrow> frag_apart p q)"

lemma clips_apart:
  assumes inv: "trac_inv D S t" and S: "pieces D S"
  shows "sorted_wrt (\<lambda>c d. pos 0 (c_seq c) < pos 0 (c_seq d) \<and> clip_end 0 c \<le> pos 0 (c_seq d)) (clips_of (f_frags t))"
proof (rule sorted_wrt_mono_rel)
  show "sorted_wrt (\<lambda>c d. pos 0 (c_seq c) < pos 0 (c_seq d)) (clips_of (f_frags t))"
    using inv by (intro asm_inv_sorted) (simp add: trac_inv_def)
  fix c d assume "c \<in> set (clips_of (f_frags t))" "d \<in> set (clips_of (f_frags t))" and lt: "pos 0 (c_seq c) < pos 0 (c_seq d)"
  then obtain p q where pq: "p \<in> S" "q \<in> S" "c = clip_of p" "d = clip_of q" using inv by (auto simp: trac_inv_def)
  then have o: "frag_off_of p < frag_off_of q" using lt by (simp add: clip_of_pos)
  then have "frag_apart p q" using S pq by (auto simp: pieces_def)
  then have "frag_end_of p \<le> frag_off_of q" using o frag_len_pos[of D q] S pq by (auto simp: frag_apart_def frag_end_of_def pieces_def)
  then show "pos 0 (c_seq c) < pos 0 (c_seq d) \<and> clip_end 0 c \<le> pos 0 (c_seq d)" using lt pq by (simp add: clip_of_pos)
qed

lemma clips_ok:
  assumes "trac_inv D S t" "pieces D S"
  shows "\<forall>c\<in>set (clips_of (f_frags t)). clip_ok 0 (\<lambda>i. D ! unat i) c \<and> unat (c_len c) > 0 \<and> clip_end 0 c \<le> length D"
proof -
  have "set (clips_of (f_frags t)) = clip_of ` S" "\<And>p. p \<in> S \<Longrightarrow> fragment_of D p" using assms by (simp_all add: trac_inv_def pieces_def)
  moreover have "frag_end_of p \<le> length D" if "fragment_of D p" for p using that by (simp add: fragment_of_def)
  ultimately show ?thesis by (simp only: ball_simps clip_of_pos) (blast intro: clip_of_ok frag_len_pos)
qed

lemma frag_target_len: "off \<le> 65536 \<Longrightarrow> unat (c_len (frag_target st off)) = 65536 - off"
proof -
  have u: "unat (of_nat (65536 - off) :: u32) = 65536 - off" by (rule unat_small) simp
  then have "take_bit 24 (of_nat (65536 - off) :: u32) = of_nat (65536 - off)" by (intro take_bit_24) simp
  then show ?thesis using u by (simp only: frag_target_def DPI_MAX_PKT_LEN_def clip.simps)
qed

lemma trac_complete:
  assumes inv: "trac_inv D S t" and S: "pieces D S" and cov: "\<forall>i < length D. covers S i"
    and two: "p \<in> S" "q \<in> S" "p \<noteq> q" and D: "length D + off \<le> 65536" and buf: "length (fr_defrag st) = 65536"
  shows "\<exists>buf. asm_construct (f_frags t) (frag_target st off) mh =
      Some (ASM_OK, (frag_target st off)\<lparr>c_ptr := buf, c_len := of_nat (length D), c_seq := 0\<rparr>) \<and>
    length buf = 65536 - off \<and> take (length D) buf = D"
proof -
  let ?cs = "clips_of (f_frags t)"
  have set: "set ?cs = clip_of ` S" using inv by (simp add: trac_inv_def)
  have ai: "asm_inv 0 (f_frags t)" using inv by (simp add: trac_inv_def)
  have fp: "fragment_of D p" "fragment_of D q" "frag_apart p q" using S two by (auto simp: pieces_def)
  have D0: "0 < length D" using fp(1) frag_len_pos[OF fp(1)] by (fastforce simp: fragment_of_def frag_end_of_def)
  have ch: "chained 0 ?cs"
  proof (rule covered_chained[OF clips_apart[OF inv S], of "length D"])
    show "\<forall>c\<in>set ?cs. unat (c_len c) > 0 \<and> clip_end 0 c \<le> length D" using clips_ok[OF inv S] by simp
    fix i assume "i < length D"
    then obtain x where "x \<in> S" "frag_off_of x \<le> i" "i < frag_end_of x" using cov by (auto simp: covers_def)
    then show "\<exists>c\<in>set ?cs. pos 0 (c_seq c) \<le> i \<and> i < clip_end 0 c" using set by (auto simp: clip_of_pos)
  qed
  obtain x where x: "x \<in> S" "frag_off_of x = 0" using cov D0 by (auto simp: covers_def)
  have h: "c_seq (hd ?cs) = 0" using chained_hd[OF ch, of "clip_of x"] x set by (simp add: clip_of_pos) (simp add: pos_def unsigned_eq_0_iff)
  have "frag_off_of p \<noteq> frag_off_of q"
    using fp frag_len_pos[OF fp(1)] frag_len_pos[OF fp(2)] by (auto simp: frag_apart_def frag_end_of_def)
  then have ne: "clip_of p \<noteq> clip_of q" using clip_of_pos(1)[of p] clip_of_pos(1)[of q] by auto
  have "2 \<le> card (set ?cs)"
    using card_mono[of "set ?cs" "{clip_of p, clip_of q}"] two set ne by simp
  then have len: "2 \<le> length ?cs" using card_length[of ?cs] by simp
  have "covers S (length D - 1)" using cov D0 by simp
  then obtain y where y: "y \<in> S" "length D - 1 < frag_end_of y" by (auto simp: covers_def)
  then have "frag_end_of y = length D" using S by (fastforce simp: pieces_def fragment_of_def)
  then have cN: "clip_of y \<in> set ?cs" "clip_end 0 (clip_of y) = length D" using y set by (auto simp: clip_of_pos)
  have tg: "c_seq (frag_target st off) = 0" "unat (c_len (frag_target st off)) = 65536 - off" "length (c_ptr (frag_target st off)) = 65536 - off"
    using D buf frag_target_len[of off st] by (simp_all add: frag_target_def)
  obtain buf where b: "asm_construct (f_frags t) (frag_target st off) mh =
      Some (ASM_OK, (frag_target st off)\<lparr>c_ptr := buf, c_len := of_nat (length D), c_seq := 0\<rparr>)"
    "length buf = length (c_ptr (frag_target st off))" "\<forall>i < length D. buf ! i = D ! unat (of_nat i :: u32)"
    using asm_construct_complete[OF ai clips_ok[OF inv S] ch h len cN tg(1), of mh] D tg(2,3) by force
  have "take (length D) buf = D" using b(2,3) tg D by (intro nth_equalityI) (auto simp: unat_small)
  then show ?thesis using b tg by auto
qed

lemma trac_gap:
  assumes inv: "trac_inv D S t" and S: "pieces D S" and gap: "i < length D" "\<not> covers S i" and fl: "f_first t" "f_last t"
    and D: "length D < 2 ^ 30"
  shows "asm_construct (f_frags t) (frag_target st off) (f_length t - 1) = Some (ASM_NOP, frag_target st off)"
proof -
  let ?cs = "clips_of (f_frags t)"
  have set: "set ?cs = clip_of ` S" using inv by (simp add: trac_inv_def)
  obtain x y where xy: "x \<in> S" "frag_off_of x = 0" "y \<in> S" "frag_end_of y = length D" using inv fl by (auto simp: trac_inv_def)
  have L: "unat (f_length t) = length D" using inv xy by (auto simp: trac_inv_def)
  have mh: "unat (f_length t - 1) = length D - 1" using L gap(1) unat_minus_one_32[of "f_length t"] by linarith
  have "\<not> chained 0 ?cs"
  proof
    assume ch: "chained 0 ?cs"
    have a: "pos 0 (c_seq (hd ?cs)) \<le> i" using chained_hd[OF ch, of "clip_of x"] xy set by (simp add: clip_of_pos)
    have b: "clip_of y \<in> set ?cs" "i < clip_end 0 (clip_of y)" using xy set gap(1) by (auto simp: clip_of_pos)
    obtain d where "d \<in> set ?cs" "pos 0 (c_seq d) \<le> i" "i < clip_end 0 d" using chained_covers[OF ch b(1) a b(2)] by blast
    then show False using gap(2) unfolding set by (auto simp: covers_def clip_of_pos)
  qed
  then show ?thesis using clips_ok[OF inv S] inv mh D gap(1)
    by (intro asm_construct_gap[where strm = "\<lambda>i. D ! unat i"]) (auto simp: trac_inv_def frag_target_def)
qed

subsection \<open>The header of the whole datagram\<close>

definition put16 :: "bytes \<Rightarrow> nat \<Rightarrow> u16 \<Rightarrow> bytes" where
  "put16 m off w = take off m @ u16_bytes w @ drop (off + 2) m"

lemma st16_Some: "off + 2 \<le> length m \<Longrightarrow> st16 m off w = Some (put16 m off w)"
  by (simp add: st16_def mem_write_def put16_def u16_bytes_def)

lemma length_put16 [simp]: "off + 2 \<le> length m \<Longrightarrow> length (put16 m off w) = length m"
  by (simp add: put16_def u16_bytes_def)

lemma rd8_put16: "i < off \<Longrightarrow> off + 2 \<le> length m \<Longrightarrow> rd8 (put16 m off w) i = rd8 m i"
  by (simp add: rd8_def put16_def u16_bytes_def nth_append)

lemma drop_put16:
  assumes "off + 2 \<le> k" "off + 2 \<le> length m"
  shows "drop k (put16 m off w) = drop k m"
proof -
  obtain j where k: "k = (off + 2) + j" using assms(1) le_Suc_ex by blast
  have "drop (off + 2) (put16 m off w) = drop (off + 2) m" using assms(2) by (simp add: put16_def u16_bytes_def)
  then show ?thesis unfolding k by (metis add.commute drop_drop)
qed

lemma sum16_Some: "off + 2 * n \<le> length m \<Longrightarrow> \<exists>v. sum16 m off n s = Some v"
proof (induction n arbitrary: off s)
  case (Suc n)
  then show ?case using ld16_Some[of off m] by fastforce
qed simp

lemma frag_header_ok:
  assumes p: "fragment_of D p" and buf: "length buf = 65536"
  obtains m where "frag_header buf p n = Some m" "length m = 65536" "drop (unat (p_l4 p)) m = drop (unat (p_l4 p)) buf"
    "get_ip_cksum m (unat (p_l3 p)) = Some 0"
proof -
  let ?l3 = "unat (p_l3 p)" and ?l4 = "unat (p_l4 p)"
  have f: "?l3 + 20 \<le> ?l4" "?l4 \<le> length (p_pkt p)" "get_iph_len (p_pkt p) ?l3 = Some (p_l4 p - p_l3 p)"
    using p by (auto simp: fragment_of_def)
  have l4: "?l4 \<le> 65535" using unat16_lt[of "p_l4 p"] by simp
  have hl: "unat (p_l4 p - p_l3 p) = ?l4 - ?l3" using f(1) by (intro unat_sub) (simp add: word_le_nat_alt)
  define m0 where "m0 = take ?l4 (p_pkt p) @ drop ?l4 buf"
  have m0: "mem_read (p_pkt p) 0 ?l4 = Some (take ?l4 (p_pkt p))" "mem_write buf 0 (take ?l4 (p_pkt p)) = Some m0"
      "length m0 = 65536" "drop ?l4 m0 = drop ?l4 buf" "rd8 m0 ?l3 = rd8 (p_pkt p) ?l3"
    using f buf l4 by (auto simp: mem_read_def mem_write_def m0_def min_def rd8_def nth_append)
  define m2 where "m2 = put16 (put16 m0 (?l3 + 6) 0) (?l3 + 2) (htons (p_l4 p - p_l3 p + ucast n))"
  have m2: "length m2 = 65536" "drop ?l4 m2 = drop ?l4 buf" "rd8 m2 ?l3 = rd8 m0 ?l3"
    using f(1) l4 m0 by (simp_all add: m2_def drop_put16 rd8_put16)
  define m3 where "m3 = put16 m2 (?l3 + 10) 0"
  have m3: "st16 m2 (?l3 + 10) 0 = Some m3" "length m3 = 65536" "drop ?l4 m3 = drop ?l4 buf" "rd8 m3 ?l3 = rd8 m0 ?l3"
    using f(1) l4 m2 by (simp_all add: m3_def drop_put16 rd8_put16 st16_Some)
  have il: "get_iph_len m2 ?l3 = Some (p_l4 p - p_l3 p)" "get_iph_len m3 ?l3 = Some (p_l4 p - p_l3 p)"
    using f(3) m0 m2 m3 by (simp_all add: get_iph_len_def)
  have "?l3 + 2 * (unat (p_l4 p - p_l3 p) div 2) \<le> length m3" using m3(2) hl l4 f(1) by linarith
  then obtain v where v: "sum16 m3 ?l3 (unat (p_l4 p - p_l3 p) div 2) 0 = Some v" using sum16_Some by blast
  then have c: "get_ip_cksum m3 ?l3 = Some (fold_cksum v)" using il by (simp add: get_ip_cksum_def)
  define m4 where "m4 = put16 m3 (?l3 + 10) (fold_cksum v)"
  have m4: "st16 m3 (?l3 + 10) (fold_cksum v) = Some m4" "length m4 = 65536" "drop ?l4 m4 = drop ?l4 buf"
    using f(1) l4 m3 by (simp_all add: m4_def drop_put16 st16_Some)
  have "frag_header buf p n = Some m4"
    using m0 m3 c m4 f(1) l4 by (simp add: frag_header_def st16_Some m2_def)
  moreover have "get_ip_cksum m4 ?l3 = Some 0" using ip_cksum_fill[OF il(1) _ m3(1) c m4(1)] hl f(1) by simp
  ultimately show ?thesis using that m4 by blast
qed

subsection \<open>Any order of arrival\<close>

definition frag_ids :: "frag_state \<Rightarrow> nat list" where
  "frag_ids st = map (\<lambda>(h, t). f_ts_entry t) (th_ip4frag_map st)"

text \<open>Trackers are different objects, and the reassembly buffer has its size.\<close>
definition frag_inv :: "frag_state \<Rightarrow> bool" where
  "frag_inv st \<longleftrightarrow> rm_sorted (th_ip4frag_map st) \<and> distinct (frag_ids st) \<and> (\<forall>n\<in>set (frag_ids st). n < fr_fresh st) \<and>
     length (fr_defrag st) = DPI_MAX_PKT_LEN"

abbreviation frag_find :: "frag_state \<Rightarrow> ip4frag_trac \<Rightarrow> ip4frag_trac option" where
  "frag_find st key \<equiv> rcu_map_lookup (th_ip4frag_map st) ip4frag_trac_hash ip4frag_trac_match key"

lemma ip4frag_hash: "hash_respects ip4frag_trac_hash ip4frag_trac_match"
  by (auto simp: hash_respects_def ip4frag_trac_match_def ip4frag_trac_hash_def)

interpretation ip4frag: first_match_store rm_sorted rcu_map_init
  "\<lambda>m d k. rcu_map_add m ip4frag_trac_hash d k" "\<lambda>m k. rcu_map_lookup m ip4frag_trac_hash ip4frag_trac_match k" ip4frag_trac_match
  by (rule rcu_first_match[OF ip4frag_hash])

lemma lookup_upd_one:
  assumes "rcu_map_lookup m hash match k = Some d" "\<forall>(h, x)\<in>set m. n x \<longleftrightarrow> x = d" "match d' k"
  shows "rcu_map_lookup (rcu_map_upd m n (\<lambda>_. d')) hash match k = Some d'"
proof -
  have "cds_lfht_lookup m h P = Some d \<Longrightarrow> \<forall>(h, x)\<in>set m. n x \<longleftrightarrow> x = d \<Longrightarrow> P d' \<Longrightarrow>
      cds_lfht_lookup (rcu_map_upd m n (\<lambda>_. d')) h P = Some d'" for h P
    by (induction m h P rule: cds_lfht_lookup.induct) (auto simp: rcu_map_upd_def split: if_splits)
  then show ?thesis using assms by (simp add: rcu_map_lookup_def)
qed

lemma lfht_add_ids: "set (map (\<lambda>(h, t). f t) (cds_lfht_add m h d)) = insert (f d) (set (map (\<lambda>(h, t). f t) m))"
  "distinct (map (\<lambda>(h, t). f t) (cds_lfht_add m h d)) \<longleftrightarrow> f d \<notin> set (map (\<lambda>(h, t). f t) m) \<and> distinct (map (\<lambda>(h, t). f t) m)"
  by (induction m h d rule: cds_lfht_add.induct) (auto simp: image_iff)

lemma clips_init: "clips_of asm_init = []"
  by (simp add: asm_init_def tree_init_def)

text \<open>The tracker a fragment finds: its own, or a new one.\<close>
lemma frag_locate_spec:
  assumes inv: "frag_inv st" and key: "f_frags key = asm_init" "f_length key = 0" "\<not> f_first key" "\<not> f_last key"
    and cur: "S = {} \<and> frag_find st key = None \<or> (\<exists>t. frag_find st key = Some t \<and> trac_inv D S t)"
  obtains st1 t where "frag_locate4 True st key = (st1, Some t)" "frag_inv st1" "frag_find st1 key = Some t" "trac_inv D S t"
    "fr_log st1 = fr_log st" "fr_kept st1 = fr_kept st"
proof (cases "frag_find st key")
  case (Some t)
  then show ?thesis using that[of st t] cur inv by (auto simp: frag_locate4_def)
next
  case None
  let ?n = "fr_fresh st" let ?t = "key\<lparr>f_ts_entry := ?n\<rparr>"
  let ?st = "st\<lparr>th_ip4frag_map := rcu_map_add (th_ip4frag_map st) ip4frag_trac_hash ?t key,
     fr_timer := timer_wheel_entry_start (timer_wheel_entry_init (fr_timer st) ?n) ?n CB_frag_release DPI_FRAG_TIMEOUT (fr_tick st), fr_fresh := ?n + 1\<rparr>"
  have m: "ip4frag_trac_match ?t key" by (simp add: ip4frag_trac_match_def)
  have "frag_find ?st key = Some ?t"
    using ip4frag.lookup_add[of "th_ip4frag_map st" ?t key key] None m inv by (simp add: frag_inv_def)
  moreover have "frag_inv ?st"
    using inv lfht_add_ids[of f_ts_entry "th_ip4frag_map st" "ip4frag_trac_hash key" ?t] 
    by (auto simp: frag_inv_def frag_ids_def rm_sorted_add rcu_map_add_def rm_sorted_lfht_add less_Suc_eq)
  moreover have "trac_inv D S ?t" using cur None key asm_inv_init[of 0] by (auto simp: trac_inv_def clips_init)
  ultimately show ?thesis using that[of ?st ?t] None by (simp add: frag_locate4_def Let_def)
qed

lemma frag_find_unique:
  assumes "frag_inv st" "frag_find st key = Some t"
  shows "\<forall>(h, x)\<in>set (th_ip4frag_map st). f_ts_entry x = f_ts_entry t \<longleftrightarrow> x = t" "(ip4frag_trac_hash key, t) \<in> set (th_ip4frag_map st)"
proof -
  show m: "(ip4frag_trac_hash key, t) \<in> set (th_ip4frag_map st)" using rcu_map_lookup_SomeD[OF assms(2)] by simp
  have "distinct (map (\<lambda>(h, t). f_ts_entry t) (th_ip4frag_map st))" using assms(1) by (simp add: frag_inv_def frag_ids_def)
  then show "\<forall>(h, x)\<in>set (th_ip4frag_map st). f_ts_entry x = f_ts_entry t \<longleftrightarrow> x = t"
    using m by (auto simp: distinct_map inj_on_def)
qed

lemma frag_update_spec:
  assumes inv: "frag_inv st" and find: "frag_find st key = Some t" and t1: "f_ts_entry t1 = f_ts_entry t" "ip4frag_trac_match t1 key"
    and st'_def: "st' = st\<lparr>fr_log := lg, th_ip4frag_map := rcu_map_upd (th_ip4frag_map st) (\<lambda>x. f_ts_entry x = f_ts_entry t) (\<lambda>_. t1)\<rparr>"
  shows "frag_inv st'" "frag_find st' key = Some t1"
proof -
  show "frag_find st' key = Some t1"
    using lookup_upd_one[OF find frag_find_unique(1)[OF inv find] t1(2)] by (simp add: st'_def)
  have "frag_ids st' = frag_ids st" using t1(1) by (auto simp: st'_def frag_ids_def rcu_map_upd_def)
  then show "frag_inv st'" using inv by (simp add: frag_inv_def st'_def)
qed

lemma frag_detach_spec:
  assumes inv: "frag_inv st" and find: "frag_find st key = Some t" and m: "length m = 65536"
  obtains st' where "frag_detach4 (st\<lparr>fr_defrag := m\<rparr>) t = Some st'" "frag_inv st'" "f_ts_entry t \<notin> set (frag_ids st')"
    "fr_kept st' = (fr_kept st)(f_ts_entry t \<mapsto> f_frags t)"
proof -
  let ?m = "filter (\<lambda>(h, x). f_ts_entry x \<noteq> f_ts_entry t) (th_ip4frag_map st)"
  let ?st = "st\<lparr>fr_defrag := m, th_ip4frag_map := ?m, fr_timer := timer_wheel_entry_remove (fr_timer st) (f_ts_entry t),
     fr_kept := (fr_kept st)(f_ts_entry t \<mapsto> f_frags t)\<rparr>"
  have "\<exists>(h, x)\<in>set (th_ip4frag_map st). f_ts_entry x = f_ts_entry t" using frag_find_unique(2)[OF inv find] by auto
  then have "frag_detach4 (st\<lparr>fr_defrag := m\<rparr>) t = Some ?st" by (simp add: frag_detach4_def rcu_map_del_def)
  moreover have "frag_inv ?st"
    using inv m by (auto simp: frag_inv_def frag_ids_def DPI_MAX_PKT_LEN_def rm_sorted_filter distinct_map_filter)
  moreover have "f_ts_entry t \<notin> set (frag_ids ?st)" by (auto simp: frag_ids_def)
  ultimately show ?thesis using that by simp
qed

text \<open>The packet a completed datagram leaves in.\<close>
definition whole :: "bytes \<Rightarrow> dpi_packet set \<Rightarrow> dpi_packet \<Rightarrow> dpi_packet \<Rightarrow> frag_state \<Rightarrow> bool" where
  "whole D S p q st \<longleftrightarrow> p_len q = p_l4 p + of_nat (length D) \<and> p_cap_len q = p_len q \<and>
     take (length D) (drop (unat (p_l4 p)) (p_pkt q)) = D \<and> get_ip_cksum (p_pkt q) (unat (p_l3 p)) = Some 0 \<and> length (p_pkt q) = 65536 \<and>
     (\<exists>i a. p_frag_trac q = Some i \<and> i \<notin> set (frag_ids st) \<and> fr_kept st i = Some a \<and> asm_inv 0 a \<and> set (clips_of a) = clip_of ` S)"

lemma construct_whole:
  assumes inv: "frag_inv st" and find: "frag_find st key = Some t" and t: "trac_inv D S t" and S: "pieces D S"
    and cov: "\<forall>i < length D. covers S i" and two: "p \<in> S" "q \<in> S" "p \<noteq> q" and D: "length D + unat (p_l4 p) \<le> 65536"
  shows "\<exists>st' p'. ipfrag_construct t st p = Some (0, st', p') \<and> frag_inv st' \<and> whole D S p p' st'"
proof -
  have fp: "fragment_of D p" using S two by (simp add: pieces_def)
  have l4: "unat (p_l4 p) \<le> 65536" and db: "length (fr_defrag st) = 65536" using D inv by (simp_all add: frag_inv_def DPI_MAX_PKT_LEN_def)
  obtain buf where b: "asm_construct (f_frags t) (frag_target st (unat (p_l4 p))) (f_length t - 1) =
      Some (ASM_OK, (frag_target st (unat (p_l4 p)))\<lparr>c_ptr := buf, c_len := of_nat (length D), c_seq := 0\<rparr>)"
    "length buf = 65536 - unat (p_l4 p)" "take (length D) buf = D"
    using trac_complete[OF t S cov two D db] by blast
  let ?buf = "take (unat (p_l4 p)) (fr_defrag st) @ buf"
  have "length ?buf = 65536" using b(2) l4 db by simp
  then obtain m where m: "frag_header ?buf p (of_nat (length D)) = Some m" "length m = 65536"
      "drop (unat (p_l4 p)) m = drop (unat (p_l4 p)) ?buf" "get_ip_cksum m (unat (p_l3 p)) = Some 0"
    using frag_header_ok[OF fp] by blast
  have dm: "drop (unat (p_l4 p)) m = buf" using m(3) l4 db by simp
  obtain st' where st': "frag_detach4 (st\<lparr>fr_defrag := m\<rparr>) t = Some st'" "frag_inv st'" "f_ts_entry t \<notin> set (frag_ids st')"
      "fr_kept st' = (fr_kept st)(f_ts_entry t \<mapsto> f_frags t)"
    using frag_detach_spec[OF inv find m(2)] by blast
  let ?n = "p_l4 p + of_nat (length D)"
  have u: "ucast (of_nat (length D) :: u32) = (of_nat (length D) :: u16)" by (simp add: word_unat_eq_iff unsigned_ucast_eq unat_of_nat take_bit_eq_mod mod_mod_cancel)
  have "ipfrag_construct t st p = Some (0, st', p\<lparr>p_pkt := m, p_cap_len := ?n, p_len := ?n, p_frag_trac := Some (f_ts_entry t)\<rparr>)"
    using b(1) m(1) st'(1) by (simp add: ipfrag_construct_def u Let_def)
  moreover have "whole D S p (p\<lparr>p_pkt := m, p_cap_len := ?n, p_len := ?n, p_frag_trac := Some (f_ts_entry t)\<rparr>) st'"
    using b(3) m dm st' t by (auto simp: whole_def trac_inv_def)
  ultimately show ?thesis using st'(2) by blast
qed

lemma defrag_step:
  assumes inv: "frag_inv st" and key: "frag_key4 p = Some key" and ok: "ok_trac mm" "ok_clip mm"
    and cur: "S = {} \<and> frag_find st key = None \<or> (\<exists>t. frag_find st key = Some t \<and> trac_inv D S t)"
    and S: "pieces D (insert p S)" "p \<notin> S" and D: "length D < 2 ^ 30"
  obtains st1 t where "frag_inv st1" "frag_find st1 key = Some t" "trac_inv D (insert p S) t"
    "dpi_ip_defrag mm tap st p = (if f_first t \<and> f_last t then ipfrag_construct t st1 p else Some (- 1, st1, p))"
proof -
  have k: "f_frags key = asm_init" "f_length key = 0" "\<not> f_first key" "\<not> f_last key"
    using key by (auto simp: frag_key4_def split: bind_splits)
  obtain st1 t where l: "frag_locate4 True st key = (st1, Some t)" "frag_inv st1" "frag_find st1 key = Some t" "trac_inv D S t"
    using frag_locate_spec[OF inv k cur] by metis
  let ?st2 = "st1\<lparr>fr_timer := timer_wheel_entry_refresh (fr_timer st1) (f_ts_entry t) (fr_tick st1)\<rparr>"
  let ?t1 = "held D p t"
  have i2: "frag_inv ?st2" "frag_find ?st2 key = Some t" using l by (simp_all add: frag_inv_def frag_ids_def)
  have fp: "fragment_of D p" "\<forall>q\<in>S. fragment_of D q" "\<forall>q\<in>S. frag_apart p q" using S by (auto simp: pieces_def)
  have h: "ipfrag_hold mm tap t (fr_log ?st2) p = Some (?t1, fr_log ?st2, p)"
    using ipfrag_hold_eq[OF l(4) fp(1,3) D ok(2)] .
  have same: "f_ts_entry ?t1 = f_ts_entry t" "ip4frag_trac_match ?t1 key"
    using rcu_map_lookup_SomeD[OF l(3)] by (simp_all add: held_def ip4frag_trac_match_def)
  let ?st3 = "?st2\<lparr>fr_log := fr_log ?st2, th_ip4frag_map := rcu_map_upd (th_ip4frag_map ?st2) (\<lambda>x. f_ts_entry x = f_ts_entry t) (\<lambda>_. ?t1)\<rparr>"
  have "dpi_ip_defrag mm tap st p = (if f_first ?t1 \<and> f_last ?t1 then ipfrag_construct ?t1 ?st3 p else Some (- 1, ?st3, p))"
    using key l(1) h ok(1) by (simp add: dpi_ip_defrag_def Let_def)
  then show ?thesis
    using that[OF frag_update_spec[OF i2 same refl] held_inv[OF l(4) fp(2,1,3) D]] by blast
qed

text \<open>The results of a sequence of fragments.\<close>
fun defrag_run :: "frag_mem \<Rightarrow> bool \<Rightarrow> frag_state \<Rightarrow> dpi_packet list \<Rightarrow> ((int \<times> dpi_packet) list \<times> frag_state) option" where
  "defrag_run mm tap st [] = Some ([], st)"
| "defrag_run mm tap st (p # ps) = do {
     (r, st1, q) \<leftarrow> dpi_ip_defrag mm tap st p;
     (rs, st2) \<leftarrow> defrag_run mm tap st1 ps;
     Some ((r, q) # rs, st2) }"

lemma pieces_subset: "pieces D S \<Longrightarrow> S' \<subseteq> S \<Longrightarrow> pieces D S'"
  by (auto simp: pieces_def)

lemma defrag_run_whole:
  assumes "frag_inv st" and ok: "ok_trac mm" "ok_clip mm"
    and "S = {} \<and> frag_find st key = None \<or> (\<exists>t. frag_find st key = Some t \<and> trac_inv D S t)"
    and "pieces D (S \<union> set ps)" "distinct ps" "S \<inter> set ps = {}" "\<forall>i < length D. covers (S \<union> set ps) i"
    and "ps \<noteq> []" "S \<noteq> {} \<or> 2 \<le> length ps" "\<forall>p\<in>set ps. frag_key4 p = Some key \<and> length D + unat (p_l4 p) \<le> 65536"
  shows "\<exists>rs q st'. defrag_run mm tap st ps = Some (rs @ [(0, q)], st') \<and> (\<forall>r\<in>set rs. fst r \<noteq> 0) \<and> frag_inv st' \<and>
    whole D (S \<union> set ps) (last ps) q st'"
  using assms(1,4-)
proof (induction ps arbitrary: st S)
  case (Cons p ps)
  have sub: "pieces D (insert p S)" by (rule pieces_subset[OF Cons.prems(3)]) auto
  have key: "frag_key4 p = Some key" "length D + unat (p_l4 p) \<le> 65536" "p \<notin> S" "length D < 2 ^ 30" using Cons.prems(5,9) by auto
  obtain st1 t where st1: "frag_inv st1" "frag_find st1 key = Some t" "trac_inv D (insert p S) t"
    and run: "dpi_ip_defrag mm tap st p = (if f_first t \<and> f_last t then ipfrag_construct t st1 p else Some (- 1, st1, p))"
    using defrag_step[OF Cons.prems(1) key(1) ok Cons.prems(2) sub key(3,4)] by blast
  show ?case
  proof (cases "ps = []")
    case Nil: True
    obtain q where q: "q \<in> S" using Cons.prems(8) Nil by auto
    have cov: "\<forall>i < length D. covers (insert p S) i" using Cons.prems(6) Nil by simp
    obtain st' p' where c: "ipfrag_construct t st1 p = Some (0, st', p')" "frag_inv st'" "whole D (insert p S) p p' st'"
      using construct_whole[OF st1 sub cov _ _ _ key(2), of q] q key(3) by auto
    have D0: "0 < length D" using sub frag_len_pos[of D p] by (fastforce simp: pieces_def fragment_of_def frag_end_of_def)
    have "f_first t" using cov D0 st1(3) by (auto simp: trac_inv_def covers_def)
    moreover have "f_last t"
    proof -
      have "covers (insert p S) (length D - 1)" using cov D0 by simp
      then obtain y where y: "y \<in> insert p S" "length D - 1 < frag_end_of y" by (auto simp: covers_def)
      have "frag_end_of y \<le> length D" using sub y(1) by (auto simp: pieces_def fragment_of_def)
      then have "frag_end_of y = length D" using y(2) by linarith
      then show ?thesis using st1(3) y(1) unfolding trac_inv_def by blast
    qed
    ultimately show ?thesis using run c Nil by (intro exI[of _ "[]"] exI[of _ p'] exI[of _ st']) simp
  next
    case False
    then obtain p2 ps2 where c2: "ps = p2 # ps2" by (cases ps) auto
    have p2: "fragment_of D p2" "\<forall>x\<in>insert p S. frag_apart p2 x" using Cons.prems(3-5) c2 by (auto simp: pieces_def)
    have gap: "frag_off_of p2 < length D" "\<not> covers (insert p S) (frag_off_of p2)"
      using p2 frag_len_pos[OF p2(1)] by (fastforce simp: fragment_of_def frag_end_of_def covers_def frag_apart_def)+
    have "\<exists>r. r \<noteq> 0 \<and> dpi_ip_defrag mm tap st p = Some (r, st1, p)"
      using run trac_gap[OF st1(3) sub gap _ _ key(4)] by (auto simp: ipfrag_construct_def)
    then obtain r where r: "r \<noteq> 0" "dpi_ip_defrag mm tap st p = Some (r, st1, p)" by blast
    have "\<exists>rs q st'. defrag_run mm tap st1 ps = Some (rs @ [(0, q)], st') \<and> (\<forall>r\<in>set rs. fst r \<noteq> 0) \<and> frag_inv st' \<and>
        whole D (insert p S \<union> set ps) (last ps) q st'"
      using Cons.prems(3-9) c2 st1 by (intro Cons.IH) (auto simp: insert_commute)
    then obtain rs q st' where rs: "defrag_run mm tap st1 ps = Some (rs @ [(0, q)], st')" "\<forall>r\<in>set rs. fst r \<noteq> 0" "frag_inv st'"
        "whole D (insert p S \<union> set ps) (last ps) q st'" by blast
    then show ?thesis using r False by (intro exI[of _ "(r, p) # rs"] exI[of _ q] exI[of _ st']) simp
  qed
qed simp

lemma apart_distinct:
  assumes "sorted_wrt frag_apart ps" "\<forall>p\<in>set ps. fragment_of D p"
  shows "distinct ps" "pieces D (set ps)"
proof -
  have irr: "\<not> frag_apart p p" if "fragment_of D p" for p using frag_len_pos[OF that] by (simp add: frag_apart_def frag_end_of_def)
  show "distinct ps" using assms by (induction ps) (auto simp: irr)
  have sym: "frag_apart p q \<Longrightarrow> frag_apart q p" for p q by (auto simp: frag_apart_def)
  have "\<forall>p\<in>set ps. \<forall>q\<in>set ps. p \<noteq> q \<longrightarrow> frag_apart p q" using assms(1) by (induction ps) (auto intro: sym)
  then show "pieces D (set ps)" using assms(2) by (simp add: pieces_def)
qed


definition pkt_zero :: dpi_packet where
  "pkt_zero = \<lparr>p_pkt = [], p_ip6_fragh = None, p_flags = 0, p_l2 = 0, p_l3 = 0, p_l4 = 0, p_cap_len = 0, p_len = 0, p_eth_type = 0,
     p_sport = 0, p_dport = 0, p_ip_proto = 0, p_tcp_wscale = 0, p_tcp_mss = 0, p_tcp_ts_value = 0, p_tcp_ts_echo = 0,
     p_threat_id = 0, p_action = 0, p_severity = 0, p_raw = \<lparr>b_data = [], b_seq = 0\<rparr>, p_ep_mac = [], p_frag_trac = None\<rparr>"

text \<open>A fragment in an Ethernet frame, with the given word of flags and offset.\<close>
definition frag_packet :: "byte \<Rightarrow> byte \<Rightarrow> bytes \<Rightarrow> dpi_packet" where
  "frag_packet hi lo data = (let n = of_nat (34 + length data) in pkt_zero\<lparr>
     p_pkt := replicate 12 0 @ [8, 0] @ [0x45,0,0,40, 0x12,0x34,hi,lo, 64,17,0,0, 10,0,0,1, 10,0,0,2] @ data,
     p_l3 := 14, p_l4 := 34, p_len := n, p_cap_len := n\<rparr>)"

definition frag_start :: "frag_state" where
  "frag_start = \<lparr>th_ip4frag_map = rcu_map_init, th_ip6frag_map = rcu_map_init, fr_timer = timer_wheel_init, fr_tick = 1, fr_fresh = 0,
     fr_defrag = replicate DPI_MAX_PKT_LEN 0, fr_kept = (\<lambda>_. None), fr_log = log_start, fr_sent = []\<rparr>"

definition frag_two :: "dpi_packet list" where
  "frag_two = [frag_packet 0 1 [9, 10, 11, 12], frag_packet 0x20 0 [1, 2, 3, 4, 5, 6, 7, 8]]"

definition frag_mem_ok :: frag_mem where
  "frag_mem_ok = \<lparr>ok_trac = True, ok_clip = True, ok_log = True\<rparr>"


lemma those_map_Some: "(\<And>x. x \<in> set xs \<Longrightarrow> f x = Some (g x)) \<Longrightarrow> those (map f xs) = Some (map g xs)"
  by (induction xs) auto

lemma send_clip_of:
  assumes "fragment_of D p"
  shows "send_frag (clip_of p) = Some (take (unat (p_len p)) (p_pkt p))"
proof -
  have f: "unat (p_l4 p) < unat (p_len p)" "unat (p_len p) \<le> unat (p_cap_len p)" "unat (p_cap_len p) \<le> length (p_pkt p)"
    using assms by (simp_all add: fragment_of_def)
  have "unat (of_nat (frag_len_of p) + ucast (p_l4 p) :: u32) = unat (p_len p)"
    using f unat16_lt[of "p_len p"] by (simp add: unat_word_ariths unsigned_ucast_eq take_bit_nat_eq_self frag_len_of_def unat_small)
  then show ?thesis using f by (simp add: send_frag_def clip_of_def mem_read_def min_absorb1)
qed

text \<open>C18. What was collected is forwarded unchanged. Sending the fragments a reassembled packet owns hands out every
  original fragment exactly once, as it was captured, frees them, and a second send or discard of the same packet
  would be a use after free.\<close>
theorem frag_send_originals:
  assumes "\<forall>p\<in>S. fragment_of D p" and "fr_kept st i = Some a" and "asm_inv 0 a" and "set (clips_of a) = clip_of ` S"
  shows "\<exists>out st'. dpi_frag_send i st = Some st' \<and> fr_sent st' = fr_sent st @ out \<and> length out = card (clip_of ` S) \<and>
    set out = (\<lambda>p. take (unat (p_len p)) (p_pkt p)) ` S \<and> dpi_frag_send i st' = None \<and> dpi_frag_discard i st' = None"
proof -
  let ?cs = "clips_of a" and ?g = "\<lambda>c. the (send_frag c)"
  have s: "send_frag c = Some (?g c)" if "c \<in> set ?cs" for c
    using that assms(1,4) send_clip_of by auto
  have fe: "asm_foreach a = Some ?cs" by (simp add: asm_foreach_def tree_traverse_inorder)
  obtain ns where d: "asm_destroy a = Some ns" using tree_destroy_all[of "a_tree a"] by (auto simp: asm_destroy_def)
  let ?st = "st\<lparr>fr_kept := (fr_kept st)(i := None), fr_sent := fr_sent st @ map ?g ?cs\<rparr>"
  have "dpi_frag_send i st = Some ?st"
    using assms(2) fe d those_map_Some[of ?cs send_frag ?g] s by (simp add: dpi_frag_send_def)
  moreover have "set (map ?g ?cs) = (\<lambda>p. take (unat (p_len p)) (p_pkt p)) ` S"
    unfolding set_map assms(4) image_image using assms(1) send_clip_of by (intro image_cong) auto
  moreover have "length (map ?g ?cs) = card (clip_of ` S)"
  proof -
    have "distinct ?cs" using sorted_wrt_distinct_map[OF asm_inv_sorted[OF assms(3)]] by (simp only: distinct_map)
    then show ?thesis using distinct_card assms(4) by fastforce
  qed
  moreover have "dpi_frag_send i ?st = None" "dpi_frag_discard i ?st = None" by (simp_all add: dpi_frag_send_def dpi_frag_discard_def)
  ultimately show ?thesis by (intro exI[of _ "map ?g ?cs"] exI[of _ ?st]) simp
qed

text \<open>C19. A defect: reassembly of IPv6 never delivers. The offset field is converted to host order and then tested with
  masks that are for network order, so the first of several fragments is taken for a last one at offset 1.\<close>
theorem ip6_first_fragment_misread:
  assumes "ip6f_offlg p = Some (htons 1)" and "\<not> f_first t" and "\<not> f_last t" and "f_length t = 0"
    and "p_cap_len p \<le> of_nat (length (p_pkt p))" and "length (p_pkt p) < 65536"
  shows "\<exists>t'. ip6frag_hold mm t p = Some t' \<and> \<not> f_first t' \<and> f_last t'"
proof -
  have one: "(ucast (ntohs (htons 1)) :: u32) = 1" by code_simp
  have m: "(1 :: u32) AND IP6F_OFF_MASK = 1" "\<not> FLAGS_TEST 1 IP6F_MORE_FRAG" by code_simp+
  let ?len = "ucast (p_len p) - ucast (p_l4 p) :: u32"
  let ?t = "t\<lparr>f_last := True, f_length := take_bit 30 (1 + ?len)\<rparr>"
  have b: "frag_bounds False (1 + ?len) t = (?t, True)" using assms(3,4) by (simp add: frag_bounds_def)
  have "unat (p_cap_len p) \<le> length (p_pkt p)" using assms(5,6) by (simp add: word_le_nat_alt unat_of_nat)
  then obtain t' where t': "frag_save (ok_clip mm) 1 ?len p ?t = Some t'" "f_first t' = f_first ?t" "f_last t' = f_last ?t"
    by (cases "ok_clip mm") (auto simp: frag_save_def mem_read_def Let_def)
  have "ip6frag_hold mm t p = Some t'" using assms(1) one m b t'(1) by (simp add: ip6frag_hold_def Let_def)
  then show ?thesis using t' assms(2) by simp
qed

definition frag6_packet :: dpi_packet where
  "frag6_packet = pkt_zero\<lparr>p_pkt := replicate 12 0 @ [0x86, 0xdd] @ replicate 40 0 @ [17, 0, 0, 1, 0, 0, 0, 7] @ replicate 8 1,
     p_ip6_fragh := Some 54, p_l3 := 14, p_l4 := 62, p_len := 70, p_cap_len := 70\<rparr>"

theorem ip6_first_fragment_misread_witness:
  "\<exists>t'. ip6frag_hold frag_mem_ok (the (frag_key6 frag6_packet)) frag6_packet = Some t' \<and> \<not> f_first t' \<and> f_last t'"
proof (rule ip6_first_fragment_misread)
  show "ip6f_offlg frag6_packet = Some (htons 1)" by code_simp
  show "\<not> f_first (the (frag_key6 frag6_packet))" "\<not> f_last (the (frag_key6 frag6_packet))" "f_length (the (frag_key6 frag6_packet)) = 0"
    by code_simp+
  show "p_cap_len frag6_packet \<le> of_nat (length (p_pkt frag6_packet))" by code_simp
  show "length (p_pkt frag6_packet) < 65536" by (simp add: frag6_packet_def)
qed


lemma insert_one:
  "asm_inv 0 (snd (asm_insert asm_init (clip_of p)))" "set (clips_of (snd (asm_insert asm_init (clip_of p)))) = clip_of ` {p}"
  using asm_insert_spec[OF asm_inv_init clip_of_window[of p]] unfolding clips_init by (elim disjE conjE exE; simp)+

theorem frag_send_originals_witness:
  "\<exists>st'. dpi_frag_send 3 (frag_start\<lparr>fr_kept := [3 \<mapsto> snd (asm_insert asm_init (clip_of (last frag_two)))]\<rparr>) = Some st' \<and>
     set (fr_sent st') = {p_pkt (last frag_two)}"
proof -
  let ?p = "last frag_two" let ?a = "snd (asm_insert asm_init (clip_of ?p))"
  let ?st = "frag_start\<lparr>fr_kept := [3 \<mapsto> ?a]\<rparr>"
  have "fragment_of [1, 2, 3, 4, 5, 6, 7, 8, 9, 10, 11, 12] ?p" by code_simp
  then have f: "\<forall>p\<in>{?p}. fragment_of [1, 2, 3, 4, 5, 6, 7, 8, 9, 10, 11, 12] p" by blast
  have a: "asm_inv 0 ?a" "set (clips_of ?a) = clip_of ` {?p}" by (rule insert_one)+
  have "take (unat (p_len ?p)) (p_pkt ?p) = p_pkt ?p" by code_simp
  moreover have "fr_sent ?st = []" "fr_kept ?st 3 = Some ?a" by (simp_all add: frag_start_def)
  ultimately show ?thesis using frag_send_originals[OF f _ a, of ?st 3] by auto
qed


end
