(* ===== verification/DP_Packet.thy ===== *)
theory DP_Packet
  imports DP_Frag
begin

text \<open>
  Parsing of packets, \<open>dpi/dpi_packet.c\<close>: Ethernet, IPv4 and IPv6 with extension headers, TCP with options, UDP and
  ICMP. A parser returns whether the packet is good, with the state and the packet it leaves; a read outside of
  the memory of the packet, or a payload that does not lie inside it, is a failure of the model.
\<close>

text \<open>What a parser gets from outside of the packet: the allocations, \<open>p->ep->tap\<close>, and \<open>enable_cksum\<close>.\<close>
record pkt_env =
  pe_mem :: frag_mem
  pe_tap :: bool
  pe_cksum :: bool

type_synonym parse_result = "(bool \<times> frag_state \<times> dpi_packet) option"

definition pkt_threat :: "dpi_threat \<Rightarrow> pkt_env \<Rightarrow> frag_state \<Rightarrow> dpi_packet \<Rightarrow> (frag_state \<times> dpi_packet) option" where
  "pkt_threat idx env st p = do {
     (lg, p1, _) \<leftarrow> dpi_threat_trigger (ok_log (pe_mem env)) (pe_tap env) idx (fr_log st) p None;
     Some (st\<lparr>fr_log := lg\<rparr>, p1) }"

text \<open>\<open>LOG_BAD_PKT\<close> and the return that follows it.\<close>
definition LOG_BAD_PKT :: "pkt_env \<Rightarrow> frag_state \<Rightarrow> dpi_packet \<Rightarrow> parse_result" where
  "LOG_BAD_PKT env st p = map_option (\<lambda>(st1, p1). (False, st1, p1)) (pkt_threat DPI_THRT_BAD_PACKET env st p)"

definition dpi_set_client_pkt :: "dpi_packet \<Rightarrow> dpi_packet" where
  "dpi_set_client_pkt p = p\<lparr>p_flags := p_flags p OR DPI_PKT_FLAG_CLIENT\<rparr>"

definition dpi_is_ipv4 :: "dpi_packet \<Rightarrow> bool" where
  "dpi_is_ipv4 p \<longleftrightarrow> p_eth_type p = ETH_P_IP"

text \<open>The payload from \<open>off\<close> to the end of the packet.\<close>
definition raw_data :: "dpi_packet \<Rightarrow> nat \<Rightarrow> bytes option" where
  "raw_data p off = (if off \<le> unat (p_len p) then mem_read (p_pkt p) off (unat (p_len p) - off) else None)"

text \<open>The field at \<open>off\<close> is zeroed, the sum taken, and the field restored: the sum, and whether it differs.\<close>
definition cksum_check :: "nat \<Rightarrow> (bytes \<Rightarrow> u16 option) \<Rightarrow> dpi_packet \<Rightarrow> (u16 \<times> bool \<times> dpi_packet) option" where
  "cksum_check off f p = do {
     c \<leftarrow> ld16 (p_pkt p) off;
     m \<leftarrow> st16 (p_pkt p) off 0;
     v \<leftarrow> f m;
     m1 \<leftarrow> st16 m off c;
     Some (v, (if c = 0xffff then 0 else c) \<noteq> v, p\<lparr>p_pkt := m1\<rparr>) }"

text \<open>A wrong sum is replaced.\<close>
definition cksum_fix :: "bool \<Rightarrow> nat \<Rightarrow> (bytes \<Rightarrow> u16 option) \<Rightarrow> dpi_packet \<Rightarrow> dpi_packet option" where
  "cksum_fix enable off f p =
     (if \<not> enable then Some p
      else do {
        (v, bad, p1) \<leftarrow> cksum_check off f p;
        if bad then map_option (\<lambda>m. p1\<lparr>p_pkt := m\<rparr>) (st16 (p_pkt p1) off v) else Some p1 })"

text \<open>The sum of a transport header over the pseudo header of its network protocol.\<close>
definition l4_cksum :: "dpi_packet \<Rightarrow> byte \<Rightarrow> u16 \<Rightarrow> bytes \<Rightarrow> u16 option" where
  "l4_cksum p proto len m =
     (if dpi_is_ipv4 p then get_l4v4_cksum m (Some (unat (p_l3 p))) (unat (p_l4 p)) len
      else get_l4v6_cksum m (unat (p_l3 p)) proto (unat (p_l4 p)) len)"

definition ICMP6_ECHO_REPLY :: byte where "ICMP6_ECHO_REPLY = 129"

definition dpi_parse_icmpv6 :: "pkt_env \<Rightarrow> frag_state \<Rightarrow> dpi_packet \<Rightarrow> parse_result" where
  "dpi_parse_icmpv6 env st p = (let l4 = unat (p_l4 p); icmp6_len = p_len p - p_l4 p in
     if icmp6_len < 8 then LOG_BAD_PKT env st p
     else do {
       (bad, p1) \<leftarrow> (if pe_cksum env
          then map_option snd (cksum_check (l4 + 2) (\<lambda>m. get_l4v6_cksum m (unat (p_l3 p)) 58 l4 icmp6_len) p)
          else Some (False, p));
       if bad then Some (False, st, p1)
       else do {
         ty \<leftarrow> rd8 (p_pkt p1) l4;
         code \<leftarrow> rd8 (p_pkt p1) (l4 + 1);
         w \<leftarrow> ld16 (p_pkt p1) (l4 + 4);
         let (sport, dport, p2) =
           (if ty = ICMP6_ECHO_REPLY then (push_bit 8 (ucast code) OR ucast ICMP6_ECHO_REPLY, w, p1)
            else (w, push_bit 8 (ucast code) OR ucast ty, dpi_set_client_pkt p1));
         raw \<leftarrow> raw_data p2 (l4 + 8);
         Some (True, st, p2\<lparr>p_sport := ntohs sport, p_dport := ntohs dport, p_raw := (p_raw p2)\<lparr>b_data := raw\<rparr>\<rparr>) } })"

text \<open>The request type a reply belongs to: echo, timestamp, information, address mask.\<close>
definition icmp_request :: "byte \<Rightarrow> byte option" where
  "icmp_request ty = (if ty = 0 then Some 8 else if ty = 14 then Some 13 else if ty = 16 then Some 15
     else if ty = 18 then Some 17 else None)"

definition dpi_parse_icmp :: "pkt_env \<Rightarrow> frag_state \<Rightarrow> dpi_packet \<Rightarrow> parse_result" where
  "dpi_parse_icmp env st p = (let l4 = unat (p_l4 p); icmp_len = p_len p - p_l4 p in
     if icmp_len < 8 then LOG_BAD_PKT env st p
     else do {
       p1 \<leftarrow> cksum_fix (pe_cksum env) (l4 + 2) (\<lambda>m. get_l4v4_cksum m None l4 icmp_len) p;
       ty \<leftarrow> rd8 (p_pkt p1) l4;
       code \<leftarrow> rd8 (p_pkt p1) (l4 + 1);
       w \<leftarrow> ld16 (p_pkt p1) (l4 + 4);
       let (sport, dport, p2) =
         (case icmp_request ty of
            Some req \<Rightarrow> (push_bit 8 (ucast code) OR ucast req, w, p1)
          | None \<Rightarrow> (w, push_bit 8 (ucast code) OR ucast ty, dpi_set_client_pkt p1));
       raw \<leftarrow> raw_data p2 (l4 + 8);
       Some (True, st, p2\<lparr>p_sport := ntohs sport, p_dport := ntohs dport, p_raw := (p_raw p2)\<lparr>b_data := raw\<rparr>\<rparr>) })"

definition dpi_parse_udp :: "pkt_env \<Rightarrow> frag_state \<Rightarrow> dpi_packet \<Rightarrow> parse_result" where
  "dpi_parse_udp env st p = (let l4 = unat (p_l4 p); udp_len = p_len p - p_l4 p in
     if udp_len < 8 then LOG_BAD_PKT env st p
     else do {
       p1 \<leftarrow> cksum_fix (pe_cksum env) (l4 + 6) (l4_cksum p 17 udp_len) p;
       sport \<leftarrow> ld16 (p_pkt p1) l4;
       dport \<leftarrow> ld16 (p_pkt p1) (l4 + 2);
       raw \<leftarrow> raw_data p1 (l4 + 8);
       Some (True, st, p1\<lparr>p_sport := ntohs sport, p_dport := ntohs dport, p_raw := (p_raw p1)\<lparr>b_data := raw\<rparr>\<rparr>) })"

subsection \<open>TCP\<close>

definition TCP_OPT_MAX :: nat where "TCP_OPT_MAX = 27"
definition TCP_OPT_EOL :: byte where "TCP_OPT_EOL = 0"
definition TCP_OPT_NOP :: byte where "TCP_OPT_NOP = 1"
definition TCP_OPT_MSS :: byte where "TCP_OPT_MSS = 2"
definition TCP_OPT_WSCALE :: byte where "TCP_OPT_WSCALE = 3"
definition TCP_OPT_SACKOK :: byte where "TCP_OPT_SACKOK = 4"
definition TCP_OPT_SACK :: byte where "TCP_OPT_SACK = 5"
definition TCP_OPT_TIMESTAMP :: byte where "TCP_OPT_TIMESTAMP = 8"

lemmas tcp_opt_consts = TCP_OPT_MAX_def TCP_OPT_EOL_def TCP_OPT_NOP_def TCP_OPT_MSS_def TCP_OPT_WSCALE_def
  TCP_OPT_SACKOK_def TCP_OPT_SACK_def TCP_OPT_TIMESTAMP_def

text \<open>The lengths by type; types without an entry have 0.\<close>
definition tcp_opt_len :: "nat list" where
  "tcp_opt_len = [1, 1, 4, 3, 2, 0, 6, 6, 10, 2, 3, 6, 6, 6, 3, 0, 0, 0, 3, 18, 0, 0, 0, 0, 0, 0, 0]"

definition tcp_option :: "dpi_packet \<Rightarrow> byte \<Rightarrow> nat \<Rightarrow> dpi_packet option" where
  "tcp_option p ty ptr =
     (if ty = TCP_OPT_MSS then map_option (\<lambda>w. p\<lparr>p_tcp_mss := ntohs w\<rparr>) (ld16 (p_pkt p) (ptr + 2))
      else if ty = TCP_OPT_WSCALE then map_option (\<lambda>b. p\<lparr>p_tcp_wscale := b\<rparr>) (rd8 (p_pkt p) (ptr + 2))
      else if ty = TCP_OPT_TIMESTAMP then do {
        v \<leftarrow> ld32 (p_pkt p) (ptr + 2);
        e \<leftarrow> ld32 (p_pkt p) (ptr + 6);
        Some (p\<lparr>p_tcp_ts_value := ntohl v, p_tcp_ts_echo := ntohl e, p_flags := p_flags p OR DPI_PKT_FLAG_TCP_TS\<rparr>) }
      else if ty = TCP_OPT_SACKOK then Some (p\<lparr>p_flags := p_flags p OR DPI_PKT_FLAG_SACKOK\<rparr>)
      else Some p)"

text \<open>The test of an empty SACK option reads two bytes behind its header.\<close>
definition sack_empty :: "dpi_packet \<Rightarrow> byte \<Rightarrow> byte \<Rightarrow> nat \<Rightarrow> bool option" where
  "sack_empty p ty len ptr =
     (if ty = TCP_OPT_SACK \<and> len \<le> 2 then do {
        a \<leftarrow> rd8 (p_pkt p) (ptr + 2);
        if a = 0 then map_option (\<lambda>b. b = 0) (rd8 (p_pkt p) (ptr + 3)) else Some False }
      else Some False)"

text \<open>The loop of \<open>dpi_parse_tcp_options\<close> from \<open>ptr\<close> to \<open>fin\<close>.\<close>
function tcp_options :: "pkt_env \<Rightarrow> frag_state \<Rightarrow> dpi_packet \<Rightarrow> nat \<Rightarrow> nat \<Rightarrow> parse_result" where
  "tcp_options env st p ptr fin =
     (if ptr < fin then do {
        ty \<leftarrow> rd8 (p_pkt p) ptr;
        let opt_len = (if unat ty < TCP_OPT_MAX then tcp_opt_len ! unat ty else 0);
        if ty = TCP_OPT_EOL then Some (True, st, p)
        else if ty = TCP_OPT_NOP then tcp_options env st p (ptr + 1) fin
        else if ptr + 1 \<ge> fin then LOG_BAD_PKT env st p
        else do {
          len \<leftarrow> rd8 (p_pkt p) (ptr + 1);
          if ptr + opt_len > fin \<or> opt_len > 1 \<and> unat len \<noteq> opt_len \<or> len < 2 then LOG_BAD_PKT env st p
          else do {
            empty \<leftarrow> sack_empty p ty len ptr;
            if empty then LOG_BAD_PKT env st p
            else do {
              p1 \<leftarrow> tcp_option p ty ptr;
              tcp_options env st p1 (ptr + unat len) fin } } } }
      else Some (True, st, p))"
  by pat_completeness auto
termination
  by (relation "measure (\<lambda>(env, st, p, ptr, fin). fin - ptr)") (auto simp: word_less_nat_alt)

declare tcp_options.simps [simp del]

definition dpi_parse_tcp_options :: "pkt_env \<Rightarrow> frag_state \<Rightarrow> dpi_packet \<Rightarrow> parse_result" where
  "dpi_parse_tcp_options env st p = do {
     n \<leftarrow> get_tcph_len (p_pkt p) (unat (p_l4 p));
     tcp_options env st p (unat (p_l4 p) + 20) (unat (p_l4 p) + unat n) }"

text \<open>Bit sets in arrays of bytes (\<open>utils/bits.h\<close>).\<close>
definition BITMASK_SET :: "bytes \<Rightarrow> nat \<Rightarrow> bytes" where
  "BITMASK_SET var b = var[b div 8 := var ! (b div 8) OR push_bit (b mod 8) 1]"

definition BITMASK_TEST :: "bytes \<Rightarrow> nat \<Rightarrow> bool" where
  "BITMASK_TEST var b \<longleftrightarrow> var ! (b div 8) AND push_bit (b mod 8) 1 \<noteq> 0"

definition TH_FIN :: byte where "TH_FIN = 0x01"
definition TH_SYN :: byte where "TH_SYN = 0x02"
definition TH_RST :: byte where "TH_RST = 0x04"
definition TH_PUSH :: byte where "TH_PUSH = 0x08"
definition TH_ACK :: byte where "TH_ACK = 0x10"
definition TH_URG :: byte where "TH_URG = 0x20"

lemmas th_consts = TH_FIN_def TH_SYN_def TH_RST_def TH_PUSH_def TH_ACK_def TH_URG_def

definition TCP_FLAG_MASK :: byte where
  "TCP_FLAG_MASK = TH_PUSH OR TH_URG OR TH_FIN OR TH_ACK OR TH_SYN OR TH_RST"

definition tcp_bad_flag_list :: bytes where
  "tcp_bad_flag_list = [0, TH_URG, TH_FIN, TH_PUSH, TH_PUSH OR TH_FIN, TH_PUSH OR TH_URG, TH_SYN OR TH_FIN, TH_PUSH OR TH_URG OR TH_FIN,
     TH_PUSH OR TH_URG OR TH_FIN OR TH_ACK OR TH_SYN, TH_PUSH OR TH_URG OR TH_FIN OR TH_ACK OR TH_SYN OR TH_RST]"

text \<open>The bit set \<open>dpi_packet_setup\<close> builds from the list.\<close>
definition dpi_packet_setup :: bytes where
  "dpi_packet_setup = foldl (\<lambda>m f. BITMASK_SET m (unat f)) (replicate 32 0) tcp_bad_flag_list"

definition DPI_MIN_TCP_MSS :: u16 where "DPI_MIN_TCP_MSS = 256"

text \<open>The checks behind the options: a zero timestamp outside of the handshake, and a small segment size.\<close>
definition tcp_after_options :: "pkt_env \<Rightarrow> frag_state \<Rightarrow> dpi_packet \<Rightarrow> byte \<Rightarrow> parse_result" where
  "tcp_after_options env st p flags =
     (if FLAGS_TEST (p_flags p) DPI_PKT_FLAG_TCP_TS \<and> p_tcp_ts_value p = 0 \<and> p_tcp_ts_echo p = 0 \<and>
         FLAGS_TEST flags TH_ACK \<and> \<not> FLAGS_TEST flags TH_SYN then LOG_BAD_PKT env st p
      else if p_tcp_mss p > 0 \<and> p_tcp_mss p < DPI_MIN_TCP_MSS
      then map_option (\<lambda>(st1, p1). (True, st1, p1)) (pkt_threat DPI_THRT_TCP_SMALL_MSS env st p)
      else Some (True, st, p))"

definition dpi_parse_tcp :: "pkt_env \<Rightarrow> frag_state \<Rightarrow> dpi_packet \<Rightarrow> parse_result" where
  "dpi_parse_tcp env st p = (let l4 = unat (p_l4 p); tcp_len = p_len p - p_l4 p in
     if tcp_len < 20 then LOG_BAD_PKT env st p
     else do {
       tcph_len \<leftarrow> get_tcph_len (p_pkt p) l4;
       if tcph_len < 20 \<or> tcp_len < tcph_len then LOG_BAD_PKT env st p
       else do {
         flags \<leftarrow> rd8 (p_pkt p) (l4 + 13);
         if BITMASK_TEST dpi_packet_setup (unat (flags AND TCP_FLAG_MASK)) then LOG_BAD_PKT env st p
         else do {
           p1 \<leftarrow> cksum_fix (pe_cksum env) (l4 + 16) (l4_cksum p 6 tcp_len) p;
           (good, st2, p2) \<leftarrow> (if tcph_len > 20 then do {
                (good, st2, p2) \<leftarrow> dpi_parse_tcp_options env st p1;
                if good then tcp_after_options env st2 p2 flags else Some (False, st2, p2) }
              else Some (True, st, p1));
           if \<not> good then Some (False, st2, p2)
           else do {
             sport \<leftarrow> ld16 (p_pkt p2) l4;
             dport \<leftarrow> ld16 (p_pkt p2) (l4 + 2);
             seq \<leftarrow> ld32 (p_pkt p2) (l4 + 4);
             raw \<leftarrow> raw_data p2 (l4 + unat tcph_len);
             Some (True, st2, p2\<lparr>p_sport := ntohs sport, p_dport := ntohs dport, p_raw := \<lparr>b_data = raw, b_seq = ntohl seq\<rparr>\<rparr>) } } } })"

subsection \<open>IPv4\<close>

definition dpi_parse_ipv4_hdr :: "pkt_env \<Rightarrow> frag_state \<Rightarrow> dpi_packet \<Rightarrow> parse_result" where
  "dpi_parse_ipv4_hdr env st p = (let ip_caplen = p_cap_len p - 14 in
     if ip_caplen < 20 then LOG_BAD_PKT env st p
     else do {
       b \<leftarrow> rd8 (p_pkt p) 14;
       if drop_bit 4 b \<noteq> 4 then LOG_BAD_PKT env st p
       else do {
         tl \<leftarrow> ld16 (p_pkt p) 16;
         let ip_len = ntohs tl;
         iph_len \<leftarrow> get_iph_len (p_pkt p) 14;
         if iph_len < 20 \<or> ip_len < iph_len \<or> ip_len > ip_caplen then LOG_BAD_PKT env st p
         else do {
           let p1 = p\<lparr>p_len := ip_len + 14, p_l4 := p_l3 p + iph_len\<rparr>;
           if pe_cksum env then do {
             (v, bad, p2) \<leftarrow> cksum_check 24 (\<lambda>m. get_ip_cksum m 14) p1;
             Some (\<not> bad, st, p2) }
           else Some (True, st, p1) } } })"

text \<open>The payload of a protocol that is not parsed.\<close>
definition parse_other :: "frag_state \<Rightarrow> dpi_packet \<Rightarrow> parse_result" where
  "parse_other st p = do {
     raw \<leftarrow> raw_data p (unat (p_l4 p));
     Some (True, st, p\<lparr>p_raw := \<lparr>b_data = raw, b_seq = 0\<rparr>\<rparr>) }"

text \<open>The protocol is read through the pointer to the header of the packet as it came, also after reassembly.\<close>
definition dpi_parse_ipv4 :: "pkt_env \<Rightarrow> frag_state \<Rightarrow> dpi_packet \<Rightarrow> parse_result" where
  "dpi_parse_ipv4 env st p = do {
     (good, st1, p1) \<leftarrow> dpi_parse_ipv4_hdr env st p;
     if \<not> good then Some (False, st1, p1)
     else do {
       fo \<leftarrow> ld16 (p_pkt p1) (unat (p_l3 p1) + 6);
       (ret, st2, p2) \<leftarrow> (if FLAGS_TEST (ucast (ntohs fo)) (IP_OFFMASK OR IP_MF) then dpi_ip_defrag (pe_mem env) (pe_tap env) st1 p1
          else Some (0, st1, p1));
       if ret < 0 then Some (False, st2, p2)
       else do {
         proto \<leftarrow> rd8 (p_pkt p1) (unat (p_l3 p1) + 9);
         let p3 = p2\<lparr>p_ip_proto := proto\<rparr>;
         if proto = 6 then dpi_parse_tcp env st2 p3
         else if proto = 17 then dpi_parse_udp env st2 p3
         else if proto = 1 then dpi_parse_icmp env st2 p3
         else parse_other st2 p3 } } }"

subsection \<open>IPv6\<close>

definition IPPROTO_HOPOPTS :: byte where "IPPROTO_HOPOPTS = 0"
definition IPPROTO_ROUTING :: byte where "IPPROTO_ROUTING = 43"
definition IPPROTO_FRAGMENT :: byte where "IPPROTO_FRAGMENT = 44"
definition IPPROTO_AH :: byte where "IPPROTO_AH = 51"
definition IPPROTO_DSTOPTS :: byte where "IPPROTO_DSTOPTS = 60"

lemmas ext_consts = IPPROTO_HOPOPTS_def IPPROTO_ROUTING_def IPPROTO_FRAGMENT_def IPPROTO_AH_def IPPROTO_DSTOPTS_def

text \<open>The length of the extension header at \<open>ptr\<close>; 0 is where the code returns an error, \<^term>\<open>None\<close> of the
  result a type that is no extension.\<close>
definition ext_length :: "bytes \<Rightarrow> byte \<Rightarrow> nat \<Rightarrow> nat \<Rightarrow> bool \<Rightarrow> nat option option" where
  "ext_length m ty ptr fin hopopts =
     (if ty = IPPROTO_FRAGMENT then Some (Some 8)
      else if ty = IPPROTO_AH then
        (if ptr + 1 \<ge> fin then Some (Some 0) else map_option (\<lambda>b. Some ((unat b + 2) * 4)) (rd8 m (ptr + 1)))
      else if ty = IPPROTO_HOPOPTS \<and> hopopts then Some (Some 0)
      else if ty = IPPROTO_HOPOPTS \<or> ty = IPPROTO_ROUTING \<or> ty = IPPROTO_DSTOPTS then
        (if ptr + 1 \<ge> fin then Some (Some 0) else map_option (\<lambda>b. Some ((unat b + 1) * 8)) (rd8 m (ptr + 1)))
      else Some None)"

text \<open>The walk over the extension headers: the offset of the transport header with its protocol, or an error.\<close>
function ext_loop :: "dpi_packet \<Rightarrow> byte \<Rightarrow> nat \<Rightarrow> nat \<Rightarrow> bool \<Rightarrow> ((nat \<times> byte) option \<times> dpi_packet) option" where
  "ext_loop p ty ptr fin hopopts =
     (if ptr < fin then do {
        let p1 = (if ty = IPPROTO_FRAGMENT \<and> p_ip6_fragh p = None then p\<lparr>p_ip6_fragh := Some ptr\<rparr> else p);
        el \<leftarrow> ext_length (p_pkt p) ty ptr fin hopopts;
        (case el of
           None \<Rightarrow> Some (Some (ptr - unat (p_l3 p), ty), p1)
         | Some ext_len \<Rightarrow>
             if ext_len \<le> 2 then Some (None, p1)
             else do {
               ty1 \<leftarrow> rd8 (p_pkt p) ptr;
               ext_loop p1 ty1 (ptr + ext_len) fin (hopopts \<or> ty = IPPROTO_HOPOPTS) }) }
      else Some (None, p))"
  by pat_completeness auto
termination
  by (relation "measure (\<lambda>(p, ty, ptr, fin, hopopts). fin - ptr)") auto

declare ext_loop.simps [simp del]

definition dpi_parse_ipv6_ext :: "dpi_packet \<Rightarrow> ((nat \<times> byte) option \<times> dpi_packet) option" where
  "dpi_parse_ipv6_ext p = do {
     ty \<leftarrow> rd8 (p_pkt p) (unat (p_l3 p) + 6);
     ext_loop p ty (unat (p_l3 p) + 40) (unat (p_len p)) False }"

definition dpi_parse_ipv6_hdr :: "pkt_env \<Rightarrow> frag_state \<Rightarrow> dpi_packet \<Rightarrow> (byte option \<times> frag_state \<times> dpi_packet) option" where
  "dpi_parse_ipv6_hdr env st p = (let ip6_caplen = p_cap_len p - 14; bad = (\<lambda>p. map_option (\<lambda>(_, r). (None, r)) (LOG_BAD_PKT env st p)) in
     if ip6_caplen < 40 then bad p
     else do {
       pl \<leftarrow> ld16 (p_pkt p) 18;
       let ip6_len = ntohs pl + 40;
       if ip6_len > ip6_caplen then bad p
       else do {
         (off, p1) \<leftarrow> dpi_parse_ipv6_ext (p\<lparr>p_len := ip6_len + 14\<rparr>);
         (case off of
            None \<Rightarrow> bad p1
          | Some (n, proto) \<Rightarrow> Some (Some proto, st, p1\<lparr>p_l4 := p_l3 p1 + of_nat n\<rparr>)) } })"

definition dpi_parse_ipv6 :: "pkt_env \<Rightarrow> frag_state \<Rightarrow> dpi_packet \<Rightarrow> parse_result" where
  "dpi_parse_ipv6 env st p = do {
     (hdr, st1, p1) \<leftarrow> dpi_parse_ipv6_hdr env st p;
     (case hdr of
        None \<Rightarrow> Some (False, st1, p1)
      | Some proto \<Rightarrow> do {
          (ret, st2, p2) \<leftarrow> (if p_ip6_fragh p1 \<noteq> None then dpi_ipv6_defrag (pe_mem env) st1 p1 else Some (0, st1, p1));
          if ret < 0 then Some (False, st2, p2)
          else do {
            let p3 = p2\<lparr>p_ip_proto := proto\<rparr>;
            if proto = 6 then dpi_parse_tcp env st2 p3
            else if proto = 17 then dpi_parse_udp env st2 p3
            else if proto = 1 \<or> proto = 58 then dpi_parse_icmpv6 env st2 p3
            else parse_other st2 p3 } }) }"

subsection \<open>Frames\<close>

definition dpi_parse_packet :: "pkt_env \<Rightarrow> frag_state \<Rightarrow> dpi_packet \<Rightarrow> parse_result" where
  "dpi_parse_packet env st p =
     (if p_cap_len p < 14 then LOG_BAD_PKT env st p
      else do {
        et \<leftarrow> ld16 (p_pkt p) 12;
        let p1 = p\<lparr>p_l2 := 0, p_l3 := 14, p_len := p_cap_len p, p_eth_type := ntohs et\<rparr>;
        if p_eth_type p1 = ETH_P_IP then dpi_parse_ipv4 env st p1
        else if p_eth_type p1 = ETH_P_IPV6 then dpi_parse_ipv6 env st p1
        else Some (True, st, p1) })"

definition dpi_is_action_final :: "bool \<Rightarrow> byte \<Rightarrow> bool" where
  "dpi_is_action_final tap act = (if act = DPI_ACTION_BYPASS then True else if tap then False else act > DPI_ACTION_ALLOW)"

definition dpi_parse_ethernet :: "pkt_env \<Rightarrow> frag_state \<Rightarrow> dpi_packet \<Rightarrow> (byte \<times> frag_state \<times> dpi_packet) option" where
  "dpi_parse_ethernet env st p = do {
     (good, st1, p1) \<leftarrow> dpi_parse_packet env st p;
     if \<not> good then (let p2 = dpi_set_action p1 DPI_ACTION_DROP in Some (p_action p2, st1, p2))
     else Some (DPI_ACTION_NONE, st1, p1) }"

end
