(* ===== verification/DP_PacketProps.thy ===== *)
theory DP_PacketProps
  imports DP_Packet
begin

text \<open>
  Safety of the packet parsers: with a little slack behind the captured bytes no parser reads outside of the packet's
  memory, a good packet has its headers and its payload inside the captured bytes, and a bad one is dropped.
\<close>

subsection \<open>Threats of packets under way\<close>

text \<open>What the threat log needs of a packet.\<close>
definition log_ready :: "dpi_packet \<Rightarrow> bool" where
  "log_ready p \<longleftrightarrow> unat (p_l3 p) \<le> 14 \<and> p_l2 p = 0 \<and> 54 \<le> length (p_pkt p) \<and> unat (p_l4 p) + 2 \<le> length (p_pkt p) \<and>
     unat (p_cap_len p) \<le> length (p_pkt p)"

lemma mem_read_Some: "off + n \<le> length m \<Longrightarrow> mem_read m off n = Some (take n (drop off m))"
  by (simp add: mem_read_def)

lemma mem_write_Some: "off + length src \<le> length m \<Longrightarrow> \<exists>m'. mem_write m off src = Some m' \<and> length m' = length m"
  by (simp add: mem_write_def)

lemma log_detail_safe:
  assumes "log_ready p"
  shows "\<exists>lg'. log_packet_detail lg p ms flip = Some lg'"
proof -
  have l: "unat (p_l3 p) \<le> 14" "54 \<le> length (p_pkt p)" "unat (p_l4 p) + 2 \<le> length (p_pkt p)" using assms by (auto simp: log_ready_def)
  have "\<exists>x. hdr_ips p g flip = Some x" for g using l by (simp add: hdr_ips_def mem_read_Some)
  then obtain x where "hdr_ips p (lg\<lparr>l_EtherType := htons (p_eth_type p), l_IPProto := p_ip_proto p\<rparr>) flip = Some x" by blast
  then show ?thesis using l by (simp add: log_packet_detail_def Let_def rd8_Some)
qed

lemma store_packet_safe:
  assumes "log_ready p" "length (l_Packet lg) = DPLOG_MAX_PKT_LEN"
  shows "\<exists>lg'. store_packet lg p = Some lg'"
proof -
  define n where "n = (if unat (p_cap_len p) < DPLOG_MAX_PKT_LEN then unat (p_cap_len p) else DPLOG_MAX_PKT_LEN)"
  have n: "n \<le> length (p_pkt p)" "n \<le> DPLOG_MAX_PKT_LEN" using assms(1) by (auto simp: n_def log_ready_def)
  obtain m where m: "mem_write (l_Packet lg) 0 (take n (p_pkt p)) = Some m" "length m = DPLOG_MAX_PKT_LEN"
    using mem_write_Some[of 0 "take n (p_pkt p)" "l_Packet lg"] n assms(2) by auto
  have "\<exists>m'. mem_write m (unat (p_l2 p) + (if FLAGS_TEST (p_flags p) DPI_PKT_FLAG_INGRESS then 0 else 6)) (take 6 (p_ep_mac p)) = Some m'"
    using mem_write_Some[of "if FLAGS_TEST (p_flags p) DPI_PKT_FLAG_INGRESS then 0 else 6" "take 6 (p_ep_mac p)" m] assms(1) m(2)
    by (auto simp: log_ready_def DPLOG_MAX_PKT_LEN_def mem_write_def min_def)
  then show ?thesis using n m by (auto simp: store_packet_def n_def[symmetric] mem_read_Some Let_def)
qed

text \<open>A packet after a threat without a session: only its verdict changes.\<close>
definition same_but_verdict :: "dpi_packet \<Rightarrow> dpi_packet \<Rightarrow> bool" where
  "same_but_verdict p q \<longleftrightarrow> (\<exists>a i s. q = p\<lparr>p_action := a, p_threat_id := i, p_severity := s\<rparr>)"

lemma verdict_refl: "same_but_verdict p p" unfolding same_but_verdict_def by (cases p) auto

lemma set_action_verdict: "same_but_verdict p (dpi_set_action p a)"
  unfolding same_but_verdict_def dpi_set_action_def by (cases p) auto

lemma mark_verdict: "same_but_verdict p (mark_packet idx (dpi_set_action p a))"
  unfolding same_but_verdict_def dpi_set_action_def mark_packet_def Let_def by (cases p) auto

lemma log_ready_verdict: "same_but_verdict p q \<Longrightarrow> log_ready q = log_ready p"
  by (auto simp: same_but_verdict_def log_ready_def)

lemma trigger_safe:
  assumes inv: "log_inv st" and p: "log_ready p"
  shows "\<exists>st' p'. dpi_threat_trigger ok tap idx st p None = Some (st', p', None) \<and> log_inv st' \<and> same_but_verdict p p' \<and>
    (dpi_threat_status idx \<longrightarrow> p_action p' = p_action (dpi_set_action p (snd (threat_config idx))))"
proof -
  have "\<exists>st' p'. dpi_threat_trigger_dir ok tap idx False st p None = Some (st', p', None) \<and> same_but_verdict p p' \<and>
    (dpi_threat_status idx \<longrightarrow> p_action p' = p_action (dpi_set_action p (snd (threat_config idx))))"
  proof (cases "dpi_threat_status idx \<and> p_ep_mac p \<noteq> []")
    case False
    then show ?thesis using set_action_verdict verdict_refl by (auto simp: dpi_threat_trigger_dir_def Let_def)
  next
    case True
    define p1 where "p1 = dpi_set_action p (snd (threat_config idx))"
    define p3 where "p3 = mark_packet idx p1"
    define log1 where "log1 = log_packet_flags tap (zero_log\<lparr>l_ThreatID := htonl (tp_id (threat_property idx)), l_EPMAC := take 6 (p_ep_mac p1)\<rparr>) p1 None False"
    have v: "same_but_verdict p p3" unfolding p3_def p1_def by (rule mark_verdict)
    have a: "p_action p3 = p_action p1" by (simp add: p3_def mark_packet_def Let_def)
    have r: "log_ready p3" using log_ready_verdict[OF v] p by simp
    have len: "length (l_Packet ((log_common (lg_time st) log1 idx)\<lparr>l_Count := n\<rparr>)) = DPLOG_MAX_PKT_LEN" for n
      by (simp add: log_common_def log1_def)
    have det: "\<exists>d lg. log_packet_detail ((log_common (lg_time st) log1 idx)\<lparr>l_Count := n\<rparr>) p3 None False = Some d \<and> store_packet d p3 = Some lg" for n
      using log_detail_safe[OF r] store_packet_safe[OF r] log_packet_detail_keeps len by metis
    have "\<exists>st'. dpi_threat_trigger_dir ok tap idx False st p None = Some (st', p3, None)"
    proof (cases "rcu_map_lookup (th_log_map st) log_hash log_match log1")
      case None
      then show ?thesis using det[of "htonl 1"] True
        by (auto simp: dpi_threat_trigger_dir_def Let_def p1_def[symmetric] p3_def[symmetric] log1_def[symmetric] mark_session_def)
    next
      case (Some c)
      then obtain h0 where "(h0, c) \<in> set (th_log_map st)" using rcu_map_lookup_SomeD by fast
      then have "length (l_Packet (lc_log c)) = DPLOG_MAX_PKT_LEN" using inv by (auto simp: log_inv_def)
      then obtain lg where lg: "store_packet (lc_log c) p3 = Some lg" using store_packet_safe[OF r] by blast
      obtain st1 n where u: "update_cache st c (threat_property idx) = (st1, n)" by fastforce
      show ?thesis using det[of "htonl n"] True Some u lg
        by (auto simp: dpi_threat_trigger_dir_def Let_def p1_def[symmetric] p3_def[symmetric] log1_def[symmetric] mark_session_def)
    qed
    then show ?thesis using v a p1_def by auto
  qed
  then show ?thesis using trigger_counts(1)[OF inv] unfolding dpi_threat_trigger_def by blast
qed

subsection \<open>What parsers keep\<close>

definition kept :: "dpi_packet \<Rightarrow> dpi_packet \<Rightarrow> bool" where
  "kept p q \<longleftrightarrow> length (p_pkt q) = length (p_pkt p) \<and> p_cap_len q = p_cap_len p \<and> p_len q = p_len p \<and> p_l2 q = p_l2 p \<and>
     p_l3 q = p_l3 p \<and> p_l4 q = p_l4 p \<and> p_eth_type q = p_eth_type p"

lemma kept_refl [simp]: "kept p p" by (simp add: kept_def)

lemma kept_trans: "kept p q \<Longrightarrow> kept q r \<Longrightarrow> kept p r" by (simp add: kept_def)

lemma kept_verdict: "same_but_verdict p q \<Longrightarrow> kept p q"
  by (auto simp: same_but_verdict_def kept_def)

text \<open>The payload lies behind the transport header and inside the packet.\<close>
definition payload_ok :: "dpi_packet \<Rightarrow> bool" where
  "payload_ok q \<longleftrightarrow> (\<exists>off. unat (p_l4 q) \<le> off \<and> off \<le> unat (p_len q) \<and> b_data (p_raw q) = take (unat (p_len q) - off) (drop off (p_pkt q)))"

definition l4_ready :: "dpi_packet \<Rightarrow> bool" where
  "l4_ready p \<longleftrightarrow> p_l3 p = 14 \<and> p_l2 p = 0 \<and> 34 \<le> unat (p_l4 p) \<and> unat (p_l4 p) \<le> unat (p_len p) \<and> unat (p_len p) \<le> unat (p_cap_len p) \<and>
     unat (p_cap_len p) + 2 \<le> length (p_pkt p) \<and> 54 \<le> length (p_pkt p)"

lemma l4_log_ready: "l4_ready p \<Longrightarrow> log_ready p"
  by (simp add: l4_ready_def log_ready_def)

lemma l4_kept: "kept p q \<Longrightarrow> l4_ready p \<Longrightarrow> l4_ready q"
  by (simp add: l4_ready_def kept_def)

text \<open>The outcome of a parser that is safe.\<close>
definition safe_parse :: "dpi_packet \<Rightarrow> parse_result \<Rightarrow> bool" where
  "safe_parse p r \<longleftrightarrow> (\<exists>b st' q. r = Some (b, st', q) \<and> log_inv (fr_log st') \<and> kept p q \<and> (b \<longrightarrow> payload_ok q))"

lemma pkt_threat_safe:
  assumes "log_inv (fr_log st)" "log_ready p"
  shows "\<exists>st' q. pkt_threat idx env st p = Some (st', q) \<and> log_inv (fr_log st') \<and> same_but_verdict p q \<and>
    (dpi_threat_status idx \<longrightarrow> p_action q = p_action (dpi_set_action p (snd (threat_config idx))))"
  using trigger_safe[OF assms, of "ok_log (pe_mem env)" "pe_tap env" idx] by (auto simp: pkt_threat_def)

lemma bad_pkt_safe:
  assumes "log_inv (fr_log st)" "log_ready p"
  shows "\<exists>st' q. LOG_BAD_PKT env st p = Some (False, st', q) \<and> log_inv (fr_log st') \<and> same_but_verdict p q"
  using pkt_threat_safe[OF assms, of DPI_THRT_BAD_PACKET env] by (auto simp: LOG_BAD_PKT_def)

lemma bad_pkt_parse:
  assumes "log_inv (fr_log st)" "log_ready p"
  shows "safe_parse p (LOG_BAD_PKT env st p)"
  using bad_pkt_safe[OF assms, of env] kept_verdict by (auto simp: safe_parse_def)

lemma raw_data_Some: "off \<le> unat (p_len p) \<Longrightarrow> unat (p_len p) \<le> length (p_pkt p) \<Longrightarrow>
    raw_data p off = Some (take (unat (p_len p) - off) (drop off (p_pkt p)))"
  by (simp add: raw_data_def mem_read_def)

subsection \<open>Checksums\<close>

lemma l4_cksum_safe:
  assumes "off + unat len + 1 \<le> length m"
  shows "\<exists>v. get_l4_cksum m s off len = Some v"
proof -
  have "off + 2 * (unat len div 2) + 2 \<le> length m \<or> len AND 1 = 0"
  proof (cases "even (unat len)")
    case True
    have "unat (len AND 1) = unat len mod 2" by (simp add: and_one_eq unat_mod)
    then show ?thesis using True by (simp add: word_unat_eq_iff even_iff_mod_2_eq_zero)
  next
    case False
    then have "2 * (unat len div 2) + 1 = unat len" by simp
    then show ?thesis using assms by simp
  qed
  moreover obtain v where "sum16 m off (unat len div 2) s = Some v" using sum16_Some[of off "unat len div 2" m s] assms by fastforce
  ultimately show ?thesis using ld16_Some[of "off + 2 * (unat len div 2)" m] by (fastforce simp: get_l4_cksum_def)
qed

lemma l4v6_cksum_safe:
  assumes "off + unat len + 1 \<le> length m" "l3 + 40 \<le> length m"
  shows "\<exists>v. get_l4v6_cksum m l3 proto off len = Some v"
proof -
  obtain v where "sum16 m (l3 + 8) 16 0 = Some v" using sum16_Some[of "l3 + 8" 16 m 0] assms(2) by auto
  then show ?thesis using l4_cksum_safe[OF assms(1)] by (simp add: get_l4v6_cksum_def)
qed

lemma l4v4_cksum_safe:
  assumes "off + unat len + 1 \<le> length m" "\<And>l3. o3 = Some l3 \<Longrightarrow> l3 + 20 \<le> length m"
  shows "\<exists>v. get_l4v4_cksum m o3 off len = Some v"
proof (cases o3)
  case (Some l3)
  obtain v where "sum16 m (l3 + 12) 4 0 = Some v" using sum16_Some[of "l3 + 12" 4 m 0] assms(2)[OF Some] by auto
  then show ?thesis using l4_cksum_safe[OF assms(1)] assms(2)[OF Some] Some by (simp add: get_l4v4_cksum_def rd8_Some)
qed (use l4_cksum_safe[OF assms(1)] in \<open>simp add: get_l4v4_cksum_def\<close>)

lemma u16_bytes_ld16:
  "u16_bytes (ucast a OR push_bit 8 (ucast b)) = [a, b]"
proof -
  have "ucast (ucast a OR push_bit 8 (ucast b) :: u16) = a" by (rule bit_word_eqI) (auto simp: bit_simps)
  moreover have "ucast (drop_bit 8 (ucast a OR push_bit 8 (ucast b) :: u16)) = b" by (rule bit_word_eqI) (auto simp: bit_simps dest: bit_imp_le_length)
  ultimately show ?thesis by (simp add: u16_bytes_def)
qed

lemma put16_restore:
  assumes "ld16 m off = Some c" "off + 2 \<le> length m"
  shows "put16 (put16 m off w) off c = m"
proof -
  have "u16_bytes c = [m ! off, m ! (off + 1)]" using assms u16_bytes_ld16 by (auto simp: ld16_def rd8_Some)
  moreover have "take off (put16 m off w) = take off m" "drop (off + 2) (put16 m off w) = drop (off + 2) m"
    using assms(2) by (simp_all add: put16_def u16_bytes_def)
  moreover have "m = take off m @ [m ! off, m ! (off + 1)] @ drop (off + 2) m"
    using assms(2) by (simp add: Cons_nth_drop_Suc)
  ultimately show ?thesis unfolding put16_def[of "put16 m off w"] by simp
qed

lemma cksum_check_safe:
  assumes "off + 2 \<le> length (p_pkt p)" "\<And>m. length m = length (p_pkt p) \<Longrightarrow> (\<forall>i < off. rd8 m i = rd8 (p_pkt p) i) \<Longrightarrow> \<exists>v. f m = Some v"
  shows "\<exists>v b. cksum_check off f p = Some (v, b, p)"
proof -
  obtain c where c: "ld16 (p_pkt p) off = Some c" using ld16_Some[OF assms(1)] by blast
  obtain v where "f (put16 (p_pkt p) off 0) = Some v" using assms by (fastforce simp: rd8_put16)
  then have "cksum_check off f p = Some (v, (if c = 0xffff then 0 else c) \<noteq> v, p\<lparr>p_pkt := put16 (put16 (p_pkt p) off 0) off c\<rparr>)"
    using assms(1) c by (simp add: cksum_check_def st16_Some)
  then show ?thesis using put16_restore[OF c assms(1)] by simp
qed

lemma cksum_fix_safe:
  assumes "off + 2 \<le> length (p_pkt p)" "\<And>m. length m = length (p_pkt p) \<Longrightarrow> (\<forall>i < off. rd8 m i = rd8 (p_pkt p) i) \<Longrightarrow> \<exists>v. f m = Some v"
  shows "\<exists>m. cksum_fix en off f p = Some (p\<lparr>p_pkt := m\<rparr>) \<and> length m = length (p_pkt p) \<and> (\<forall>i < off. rd8 m i = rd8 (p_pkt p) i)"
proof (cases en)
  case True
  obtain v b where m: "cksum_check off f p = Some (v, b, p)" using cksum_check_safe[of off p f] assms by blast
  have "cksum_fix en off f p = Some (p\<lparr>p_pkt := (if b then put16 (p_pkt p) off v else p_pkt p)\<rparr>)"
    using True m assms(1) by (simp add: cksum_fix_def st16_Some)
  then show ?thesis using assms(1) by (intro exI[of _ "if b then put16 (p_pkt p) off v else p_pkt p"]) (simp add: rd8_put16)
next
  case False
  then show ?thesis by (intro exI[of _ "p_pkt p"]) (cases p, simp add: cksum_fix_def)
qed

subsection \<open>Transport headers\<close>

lemma u16_len:
  assumes "unat b \<le> unat (a :: u16)"
  shows "unat (a - b) = unat a - unat b"
  using assms by (intro unat_sub) (simp add: word_le_nat_alt)

lemma kept_mem: "length m = length (p_pkt p) \<Longrightarrow> kept p (p\<lparr>p_pkt := m\<rparr>)"
  by (simp add: kept_def)

lemma safe_good:
  assumes "r = Some (True, st', q)" "log_inv (fr_log st')" "kept p q" "unat (p_l4 q) \<le> off" "off \<le> unat (p_len q)"
    "b_data (p_raw q) = take (unat (p_len q) - off) (drop off (p_pkt q))"
  shows "safe_parse p r"
  using assms unfolding safe_parse_def payload_ok_def by blast

lemma safe_bad: "r = Some (False, st', q) \<Longrightarrow> log_inv (fr_log st') \<Longrightarrow> kept p q \<Longrightarrow> safe_parse p r"
  unfolding safe_parse_def by blast

lemma l4_cksum_any:
  assumes p: "l4_ready p" and m: "length m = length (p_pkt p)"
  shows "\<exists>v. l4_cksum p proto (p_len p - p_l4 p) m = Some v"
proof -
  have b: "unat (p_l4 p) \<le> unat (p_len p)" "unat (p_len p) + 2 \<le> length m" "unat (p_l3 p) = 14" "54 \<le> length m"
    using p m by (auto simp: l4_ready_def)
  have a: "unat (p_l4 p) + unat (p_len p - p_l4 p) + 1 \<le> length m" using u16_len[OF b(1)] b by simp
  show ?thesis
    using l4v4_cksum_safe[OF a, of "Some (unat (p_l3 p))"] l4v6_cksum_safe[OF a, of "unat (p_l3 p)" proto] b(3,4) by (simp add: l4_cksum_def)
qed

lemma udp_safe:
  assumes inv: "log_inv (fr_log st)" and p: "l4_ready p"
  shows "safe_parse p (dpi_parse_udp env st p)"
proof (cases "p_len p - p_l4 p < 8")
  case True
  then show ?thesis using bad_pkt_parse[OF inv l4_log_ready[OF p], of env] by (simp add: dpi_parse_udp_def Let_def)
next
  case False
  let ?l4 = "unat (p_l4 p)" and ?n = "p_len p - p_l4 p"
  have b: "34 \<le> ?l4" "?l4 \<le> unat (p_len p)" "unat (p_len p) + 2 \<le> length (p_pkt p)" "p_l3 p = 14" "54 \<le> length (p_pkt p)"
    using p by (auto simp: l4_ready_def)
  have n: "unat ?n = unat (p_len p) - ?l4" "?l4 + 8 \<le> unat (p_len p)"
    using False u16_len[OF b(2)] b(2) by (simp_all add: word_less_nat_alt)
  obtain m where m: "cksum_fix (pe_cksum env) (?l4 + 6) (l4_cksum p 17 ?n) p = Some (p\<lparr>p_pkt := m\<rparr>)" "length m = length (p_pkt p)"
    using cksum_fix_safe[of "?l4 + 6" p "l4_cksum p 17 ?n" "pe_cksum env"] l4_cksum_any[OF p] n b by fastforce
  obtain s d where sd: "ld16 m ?l4 = Some s" "ld16 m (?l4 + 2) = Some d"
    using ld16_Some[of ?l4 m] ld16_Some[of "?l4 + 2" m] m(2) n b by auto
  have r: "raw_data (p\<lparr>p_pkt := m\<rparr>) (?l4 + 8) = Some (take (unat (p_len p) - (?l4 + 8)) (drop (?l4 + 8) m))"
    using raw_data_Some[of "?l4 + 8" "p\<lparr>p_pkt := m\<rparr>"] m(2) n b by simp
  have "dpi_parse_udp env st p = Some (True, st, p\<lparr>p_pkt := m, p_sport := ntohs s, p_dport := ntohs d,
      p_raw := (p_raw p)\<lparr>b_data := take (unat (p_len p) - (?l4 + 8)) (drop (?l4 + 8) m)\<rparr>\<rparr>)"
    using False m sd r by (simp add: dpi_parse_udp_def Let_def)
  then show ?thesis by (rule safe_good[where off = "?l4 + 8"]) (use inv m(2) n(2) in \<open>simp_all add: kept_def\<close>)
qed

lemma icmp_safe:
  assumes inv: "log_inv (fr_log st)" and p: "l4_ready p"
  shows "safe_parse p (dpi_parse_icmp env st p)"
proof (cases "p_len p - p_l4 p < 8")
  case True
  then show ?thesis using bad_pkt_parse[OF inv l4_log_ready[OF p], of env] by (simp add: dpi_parse_icmp_def Let_def)
next
  case False
  let ?l4 = "unat (p_l4 p)" and ?n = "p_len p - p_l4 p"
  have b: "34 \<le> ?l4" "?l4 \<le> unat (p_len p)" "unat (p_len p) + 2 \<le> length (p_pkt p)" using p by (auto simp: l4_ready_def)
  have n: "unat ?n = unat (p_len p) - ?l4" "?l4 + 8 \<le> unat (p_len p)"
    using False u16_len[OF b(2)] b(2) by (simp_all add: word_less_nat_alt)
  obtain m where m: "cksum_fix (pe_cksum env) (?l4 + 2) (\<lambda>m. get_l4v4_cksum m None ?l4 ?n) p = Some (p\<lparr>p_pkt := m\<rparr>)" "length m = length (p_pkt p)"
    using cksum_fix_safe[of "?l4 + 2" p "\<lambda>m. get_l4v4_cksum m None ?l4 ?n" "pe_cksum env"] l4v4_cksum_safe[of ?l4 ?n _ None] n b by auto
  obtain w where w: "ld16 m (?l4 + 4) = Some w" using ld16_Some[of "?l4 + 4" m] m(2) n b by auto
  have r8: "rd8 m ?l4 = Some (m ! ?l4)" "rd8 m (?l4 + 1) = Some (m ! (?l4 + 1))" using m(2) n b by (simp_all add: rd8_Some)
  define p2 where "p2 = (case icmp_request (m ! ?l4) of Some _ \<Rightarrow> p\<lparr>p_pkt := m\<rparr> | None \<Rightarrow> dpi_set_client_pkt (p\<lparr>p_pkt := m\<rparr>))"
  have k: "kept p p2" "p_pkt p2 = m" using m(2) by (auto simp: p2_def kept_def dpi_set_client_pkt_def split: option.splits)
  have r: "raw_data p2 (?l4 + 8) = Some (take (unat (p_len p) - (?l4 + 8)) (drop (?l4 + 8) m))"
    using raw_data_Some[of "?l4 + 8" p2] m(2) n b k by (simp add: kept_def)
  obtain sp dp where "dpi_parse_icmp env st p = Some (True, st, p2\<lparr>p_sport := sp, p_dport := dp,
      p_raw := (p_raw p2)\<lparr>b_data := take (unat (p_len p) - (?l4 + 8)) (drop (?l4 + 8) m)\<rparr>\<rparr>)"
    using False m(1) w r8 r by (cases "icmp_request (m ! ?l4)") (simp_all add: dpi_parse_icmp_def Let_def p2_def)
  then show ?thesis by (rule safe_good[where off = "?l4 + 8"]) (use inv k n(2) in \<open>simp_all add: kept_def\<close>)
qed

lemma icmpv6_safe:
  assumes inv: "log_inv (fr_log st)" and p: "l4_ready p"
  shows "safe_parse p (dpi_parse_icmpv6 env st p)"
proof (cases "p_len p - p_l4 p < 8")
  case True
  then show ?thesis using bad_pkt_parse[OF inv l4_log_ready[OF p], of env] by (simp add: dpi_parse_icmpv6_def Let_def)
next
  case False
  let ?l4 = "unat (p_l4 p)" and ?n = "p_len p - p_l4 p"
  have b: "34 \<le> ?l4" "?l4 \<le> unat (p_len p)" "unat (p_len p) + 2 \<le> length (p_pkt p)" "54 \<le> length (p_pkt p)" "p_l3 p = 14"
    using p by (auto simp: l4_ready_def)
  have n: "unat ?n = unat (p_len p) - ?l4" "?l4 + 8 \<le> unat (p_len p)"
    using False u16_len[OF b(2)] b(2) by (simp_all add: word_less_nat_alt)
  define ck where "ck = (if pe_cksum env
          then map_option snd (cksum_check (?l4 + 2) (\<lambda>m. get_l4v6_cksum m (unat (p_l3 p)) 58 ?l4 ?n) p)
          else Some (False, p))"
  have "\<exists>bad m. ck = Some (bad, p\<lparr>p_pkt := m\<rparr>) \<and> length m = length (p_pkt p)"
  proof (cases "pe_cksum env")
    case True
    then obtain bad where "ck = Some (bad, p)"
      using cksum_check_safe[of "?l4 + 2" p "\<lambda>m. get_l4v6_cksum m (unat (p_l3 p)) 58 ?l4 ?n"] l4v6_cksum_safe[of ?l4 ?n] n b
      by (auto simp: ck_def)
    then show ?thesis by (intro exI[of _ bad] exI[of _ "p_pkt p"]) simp
  next
    case False
    then show ?thesis by (intro exI[of _ False] exI[of _ "p_pkt p"]) (cases p, simp add: ck_def)
  qed
  then obtain bad m where m: "ck = Some (bad, p\<lparr>p_pkt := m\<rparr>)" "length m = length (p_pkt p)" by blast
  note D = dpi_parse_icmpv6_def Let_def ck_def[symmetric]
  show ?thesis
  proof (cases bad)
    case True
    then have "dpi_parse_icmpv6 env st p = Some (False, st, p\<lparr>p_pkt := m\<rparr>)" using False m(1) by (simp add: D)
    then show ?thesis using inv kept_mem[OF m(2)] by (rule safe_bad)
  next
    case good: False
    obtain w where w: "ld16 m (?l4 + 4) = Some w" using ld16_Some[of "?l4 + 4" m] m(2) n b by auto
    have r8: "rd8 m ?l4 = Some (m ! ?l4)" "rd8 m (?l4 + 1) = Some (m ! (?l4 + 1))" using m(2) n b by (simp_all add: rd8_Some)
    define p2 where "p2 = (if m ! ?l4 = ICMP6_ECHO_REPLY then p\<lparr>p_pkt := m\<rparr> else dpi_set_client_pkt (p\<lparr>p_pkt := m\<rparr>))"
    have k: "kept p p2" "p_pkt p2 = m" using m(2) by (auto simp: p2_def kept_def dpi_set_client_pkt_def)
    have r: "raw_data p2 (?l4 + 8) = Some (take (unat (p_len p) - (?l4 + 8)) (drop (?l4 + 8) m))"
      using raw_data_Some[of "?l4 + 8" p2] m(2) n b k by (simp add: kept_def)
    obtain sp dp where "dpi_parse_icmpv6 env st p = Some (True, st, p2\<lparr>p_sport := sp, p_dport := dp,
        p_raw := (p_raw p2)\<lparr>b_data := take (unat (p_len p) - (?l4 + 8)) (drop (?l4 + 8) m)\<rparr>\<rparr>)"
      using False good m(1) w r8 r by (cases "m ! ?l4 = ICMP6_ECHO_REPLY") (simp_all add: D p2_def)
    then show ?thesis by (rule safe_good[where off = "?l4 + 8"]) (use inv k n(2) in \<open>simp_all add: kept_def\<close>)
  qed
qed

definition safe_step :: "dpi_packet \<Rightarrow> parse_result \<Rightarrow> bool" where
  "safe_step p r \<longleftrightarrow> (\<exists>b st' q. r = Some (b, st', q) \<and> log_inv (fr_log st') \<and> kept p q)"

lemma bad_pkt_step: "log_inv (fr_log st) \<Longrightarrow> log_ready p \<Longrightarrow> safe_step p (LOG_BAD_PKT env st p)"
  using bad_pkt_safe[of st p env] kept_verdict by (auto simp: safe_step_def)

lemma safe_step_kept: "kept p q \<Longrightarrow> safe_step q r \<Longrightarrow> safe_step p r"
  using kept_trans by (auto simp: safe_step_def)

lemma tcp_option_safe:
  assumes "ptr + (if unat ty < TCP_OPT_MAX then tcp_opt_len ! unat ty else 0) \<le> length (p_pkt p)"
  shows "\<exists>q. tcp_option p ty ptr = Some q \<and> kept p q"
proof -
  have len: "tcp_opt_len ! 2 = 4" "tcp_opt_len ! 3 = 3" "tcp_opt_len ! 8 = 10" by (simp_all add: tcp_opt_len_def)
  have 1: "\<exists>w. ld16 (p_pkt p) (ptr + 2) = Some w" if "ty = TCP_OPT_MSS"
    using assms that len by (intro ld16_Some) (simp add: tcp_opt_consts)
  have 2: "\<exists>w. rd8 (p_pkt p) (ptr + 2) = Some w" if "ty = TCP_OPT_WSCALE"
    using assms that len by (simp add: tcp_opt_consts rd8_Some)
  have 3: "\<exists>v. ld32 (p_pkt p) (ptr + 2) = Some v" "\<exists>v. ld32 (p_pkt p) (ptr + 6) = Some v" if "ty = TCP_OPT_TIMESTAMP"
    using assms that len by (auto intro!: ld32_Some simp: tcp_opt_consts)
  show ?thesis using 1 2 3 by (auto simp: tcp_option_def kept_def)
qed

lemma sack_empty_safe:
  assumes "ptr + 4 \<le> length (p_pkt p)"
  shows "\<exists>b. sack_empty p ty len ptr = Some b"
  using assms by (auto simp: sack_empty_def rd8_Some)

lemma tcp_options_safe:
  assumes "log_inv (fr_log st)" "l4_ready p" "fin \<le> unat (p_len p)"
  shows "safe_step p (tcp_options env st p ptr fin)"
  using assms
proof (induction env st p ptr fin rule: tcp_options.induct)
  case (1 env st p ptr fin)
  have len: "unat (p_len p) + 2 \<le> length (p_pkt p)" using 1(4) by (auto simp: l4_ready_def)
  note bad = bad_pkt_step[OF 1(3) l4_log_ready[OF 1(4)], of env]
  have stop: "safe_step p (Some (True, st, p))" using 1(3) by (auto simp: safe_step_def)
  show ?case
  proof (cases "ptr < fin")
    case lt: True
    define ty where "ty = p_pkt p ! ptr"
    define opt_len where "opt_len = (if unat ty < TCP_OPT_MAX then tcp_opt_len ! unat ty else 0)"
    have ty: "rd8 (p_pkt p) ptr = Some ty" using lt 1(5) len by (simp add: ty_def rd8_Some)
    note D = tcp_options.simps[of env st p ptr fin] Let_def
    show ?thesis
    proof (cases "ty = TCP_OPT_EOL \<or> ty = TCP_OPT_NOP \<or> ptr + 1 \<ge> fin")
      case True
      have "safe_step p (tcp_options env st p (ptr + 1) fin)" if "ty \<noteq> TCP_OPT_EOL" "ty = TCP_OPT_NOP"
        using 1(1)[OF lt ty refl that] 1(3-5) by simp
      then show ?thesis using True lt ty bad stop by (auto simp: D)
    next
      case False
      then have nf: "ty \<noteq> TCP_OPT_EOL" "ty \<noteq> TCP_OPT_NOP" "\<not> fin \<le> ptr + 1" by auto
      define n where "n = p_pkt p ! (ptr + 1)"
      have n: "rd8 (p_pkt p) (ptr + 1) = Some n" using nf 1(5) len by (simp add: n_def rd8_Some)
      show ?thesis
      proof (cases "ptr + opt_len > fin \<or> opt_len > 1 \<and> unat n \<noteq> opt_len \<or> n < 2")
        case True
        then show ?thesis using lt ty n nf bad by (simp add: D opt_len_def[symmetric])
      next
        case ok: False
        obtain e where e: "sack_empty p ty n ptr = Some e" using sack_empty_safe[of ptr p ty n] nf(3) 1(5) len by auto
        show ?thesis
        proof (cases e)
          case True
          then show ?thesis using lt ty n nf ok e bad by (simp add: D opt_len_def[symmetric])
        next
          case ne: False
          obtain q where q: "tcp_option p ty ptr = Some q" "kept p q"
            using tcp_option_safe[of ptr ty p] ok len 1(5) by (auto simp: opt_len_def)
          have "safe_step q (tcp_options env st q (ptr + unat n) fin)"
            using 1(2)[OF lt ty opt_len_def nf n ok e ne q(1)] 1(3) l4_kept[OF q(2) 1(4)] 1(5) q(2) by (simp add: kept_def)
          then show ?thesis using safe_step_kept[OF q(2)] lt ty n nf ok e ne q(1) bad by (simp add: D opt_len_def[symmetric])
        qed
      qed
    qed
  next
    case False
    then show ?thesis using stop by (simp add: tcp_options.simps)
  qed
qed

lemma tcp_after_safe:
  assumes "log_inv (fr_log st)" "l4_ready p"
  shows "safe_step p (tcp_after_options env st p flags)"
  using bad_pkt_step[OF assms(1) l4_log_ready[OF assms(2)], of env] pkt_threat_safe[OF assms(1) l4_log_ready[OF assms(2)], of DPI_THRT_TCP_SMALL_MSS env]
    assms(1) kept_verdict by (auto simp: tcp_after_options_def safe_step_def)

lemma tcp_safe:
  assumes inv: "log_inv (fr_log st)" and p: "l4_ready p"
  shows "safe_parse p (dpi_parse_tcp env st p)"
proof -
  let ?l4 = "unat (p_l4 p)" and ?n = "p_len p - p_l4 p"
  note bad = bad_pkt_parse[OF inv l4_log_ready[OF p], of env]
  have b: "34 \<le> ?l4" "?l4 \<le> unat (p_len p)" "unat (p_len p) + 2 \<le> length (p_pkt p)" using p by (auto simp: l4_ready_def)
  show ?thesis
  proof (cases "?n < 20")
    case True
    then show ?thesis using bad by (simp add: dpi_parse_tcp_def Let_def)
  next
    case False
    have n: "unat ?n = unat (p_len p) - ?l4" "?l4 + 20 \<le> unat (p_len p)"
      using False u16_len[OF b(2)] b(2) by (simp_all add: word_less_nat_alt)
    obtain hl where hl: "get_tcph_len (p_pkt p) ?l4 = Some hl" using n b by (auto simp: get_tcph_len_def rd8_Some)
    define flags where "flags = p_pkt p ! (?l4 + 13)"
    have fl: "rd8 (p_pkt p) (?l4 + 13) = Some flags" using n b by (simp add: flags_def rd8_Some)
    show ?thesis
    proof (cases "hl < 20 \<or> ?n < hl \<or> BITMASK_TEST dpi_packet_setup (unat (flags AND TCP_FLAG_MASK))")
      case True
      then show ?thesis using False bad hl fl by (auto simp: dpi_parse_tcp_def Let_def)
    next
      case ok: False
      have h: "20 \<le> unat hl" "?l4 + unat hl \<le> unat (p_len p)" using ok n by (auto simp: word_less_nat_alt not_less)
      obtain m where m: "cksum_fix (pe_cksum env) (?l4 + 16) (l4_cksum p 6 ?n) p = Some (p\<lparr>p_pkt := m\<rparr>)" "length m = length (p_pkt p)"
          "\<forall>i < ?l4 + 16. rd8 m i = rd8 (p_pkt p) i"
        using cksum_fix_safe[of "?l4 + 16" p "l4_cksum p 6 ?n" "pe_cksum env"] l4_cksum_any[OF p] n b by fastforce
      let ?p1 = "p\<lparr>p_pkt := m\<rparr>"
      define r where "r = (if hl > 20 then do {
                (good, st2, p2) \<leftarrow> dpi_parse_tcp_options env st ?p1;
                if good then tcp_after_options env st2 p2 flags else Some (False, st2, p2) }
              else Some (True, st, ?p1))"
      have hl1: "get_tcph_len m ?l4 = Some hl" using hl m(3) by (simp add: get_tcph_len_def)
      have l1: "l4_ready ?p1" using l4_kept[OF kept_mem[OF m(2)] p] .
      have "safe_step ?p1 (tcp_options env st ?p1 (?l4 + 20) (?l4 + unat hl))"
        using h by (intro tcp_options_safe[OF inv l1]) simp
      then obtain g st1 q where o: "dpi_parse_tcp_options env st ?p1 = Some (g, st1, q)" "log_inv (fr_log st1)" "kept ?p1 q"
        using hl1 by (auto simp: safe_step_def dpi_parse_tcp_options_def)
      have "safe_step ?p1 r"
        using o inv tcp_after_safe[OF o(2) l4_kept[OF o(3) l1], of env flags] safe_step_kept[OF o(3)] by (auto simp: r_def safe_step_def)
      then obtain good st2 p2 where r: "r = Some (good, st2, p2)" "log_inv (fr_log st2)" "kept ?p1 p2" by (auto simp: safe_step_def)
      have k: "kept p p2" using kept_trans[OF kept_mem[OF m(2)] r(3)] .
      have run: "dpi_parse_tcp env st p = (if \<not> good then Some (False, st2, p2) else do {
             sport \<leftarrow> ld16 (p_pkt p2) ?l4;
             dport \<leftarrow> ld16 (p_pkt p2) (?l4 + 2);
             seq \<leftarrow> ld32 (p_pkt p2) (?l4 + 4);
             raw \<leftarrow> raw_data p2 (?l4 + unat hl);
             Some (True, st2, p2\<lparr>p_sport := ntohs sport, p_dport := ntohs dport, p_raw := \<lparr>b_data = raw, b_seq = ntohl seq\<rparr>\<rparr>) })"
        using False ok hl fl m(1) r(1) by (simp add: dpi_parse_tcp_def Let_def r_def)
      show ?thesis
      proof (cases good)
        case True
        have l: "length (p_pkt p2) = length (p_pkt p)" "p_len p2 = p_len p" using k by (simp_all add: kept_def)
        obtain s d q where "ld16 (p_pkt p2) ?l4 = Some s" "ld16 (p_pkt p2) (?l4 + 2) = Some d" "ld32 (p_pkt p2) (?l4 + 4) = Some q"
          using ld16_Some[of ?l4 "p_pkt p2"] ld16_Some[of "?l4 + 2" "p_pkt p2"] ld32_Some[of "?l4 + 4" "p_pkt p2"] l n b by auto
        then have "dpi_parse_tcp env st p = Some (True, st2, p2\<lparr>p_sport := ntohs s, p_dport := ntohs d,
            p_raw := \<lparr>b_data = take (unat (p_len p2) - (?l4 + unat hl)) (drop (?l4 + unat hl) (p_pkt p2)), b_seq = ntohl q\<rparr>\<rparr>)"
          using run True raw_data_Some[of "?l4 + unat hl" p2] l h b by simp
        then show ?thesis by (rule safe_good[where off = "?l4 + unat hl"]) (use r(2) k h(2) in \<open>simp_all add: kept_def\<close>)
      next
        case False
        then have "dpi_parse_tcp env st p = Some (False, st2, p2)" using run by simp
        then show ?thesis using r(2) k by (rule safe_bad)
      qed
    qed
  qed
qed

subsection \<open>Network headers\<close>

text \<open>The packet \<open>dpi_parse_packet\<close> hands to the network layer.\<close>
definition frame_ready :: "dpi_packet \<Rightarrow> bool" where
  "frame_ready p \<longleftrightarrow> p_l3 p = 14 \<and> p_l2 p = 0 \<and> p_l4 p = 0 \<and> 54 \<le> length (p_pkt p) \<and> unat (p_cap_len p) + 2 \<le> length (p_pkt p) \<and>
     14 \<le> unat (p_cap_len p)"

lemma frame_log_ready: "frame_ready p \<Longrightarrow> log_ready p"
  by (simp add: frame_ready_def log_ready_def)

definition safe_frame :: "dpi_packet \<Rightarrow> parse_result \<Rightarrow> bool" where
  "safe_frame p r \<longleftrightarrow> (\<exists>b st' q. r = Some (b, st', q) \<and> log_inv (fr_log st') \<and> p_cap_len q = p_cap_len p \<and>
     (b \<longrightarrow> l4_ready q \<and> payload_ok q))"

lemma frame_of_parse: "l4_ready q \<Longrightarrow> p_cap_len q = p_cap_len p \<Longrightarrow> safe_parse q r \<Longrightarrow> safe_frame p r"
proof -
  assume q: "l4_ready q" "p_cap_len q = p_cap_len p" and "safe_parse q r"
  then obtain b st' x where x: "r = Some (b, st', x)" "log_inv (fr_log st')" "kept q x" "b \<longrightarrow> payload_ok x" unfolding safe_parse_def by blast
  have "p_cap_len x = p_cap_len p" using x(3) q(2) by (simp add: kept_def)
  then show "safe_frame p r" using x l4_kept[OF x(3) q(1)] unfolding safe_frame_def by blast
qed

lemma frame_of_False: "r = Some (False, st', q) \<Longrightarrow> log_inv (fr_log st') \<Longrightarrow> p_cap_len q = p_cap_len p \<Longrightarrow> safe_frame p r"
  unfolding safe_frame_def by blast

lemma frame_of_bad: "log_inv (fr_log st) \<Longrightarrow> log_ready p \<Longrightarrow> p_cap_len p = p_cap_len p0 \<Longrightarrow> safe_frame p0 (LOG_BAD_PKT env st p)"
  using bad_pkt_safe[of st p env] by (auto simp: safe_frame_def same_but_verdict_def)

lemma other_safe:
  assumes "log_inv (fr_log st)" "l4_ready p"
  shows "safe_parse p (parse_other st p)"
proof -
  have b: "unat (p_l4 p) \<le> unat (p_len p)" "unat (p_len p) \<le> length (p_pkt p)" using assms(2) by (auto simp: l4_ready_def)
  have "parse_other st p = Some (True, st, p\<lparr>p_raw := \<lparr>b_data = take (unat (p_len p) - unat (p_l4 p)) (drop (unat (p_l4 p)) (p_pkt p)), b_seq = 0\<rparr>\<rparr>)"
    using raw_data_Some[OF b] by (simp add: parse_other_def)
  then show ?thesis by (rule safe_good[where off = "unat (p_l4 p)"]) (use assms b in \<open>simp_all add: kept_def\<close>)
qed

lemma iph_len_bound: "get_iph_len m off = Some n \<Longrightarrow> unat n \<le> 60"
proof -
  have "unat (push_bit 2 (ucast (b AND 0x0f)) :: u16) \<le> 60" for b :: byte
  proof -
    have "unat (b AND 0x0f) \<le> 15" using word_and_le1[of b "0x0f"] by (simp add: word_le_nat_alt)
    then show ?thesis by (simp add: push_bit_eq_mult unat_word_ariths unsigned_ucast_eq take_bit_nat_eq_self)
  qed
  then show "get_iph_len m off = Some n \<Longrightarrow> unat n \<le> 60" by (auto simp: get_iph_len_def ihl_of_def)
qed

lemma ipv4_hdr_safe:
  assumes inv: "log_inv (fr_log st)" and p: "frame_ready p"
  shows "\<exists>b st' q. dpi_parse_ipv4_hdr env st p = Some (b, st', q) \<and> log_inv (fr_log st') \<and> p_cap_len q = p_cap_len p \<and>
    (b \<longrightarrow> l4_ready q \<and> p_pkt q = p_pkt p \<and> st' = st)"
proof -
  let ?c = "p_cap_len p - 14"
  have b: "p_l3 p = 14" "p_l2 p = 0" "54 \<le> length (p_pkt p)" "unat (p_cap_len p) + 2 \<le> length (p_pkt p)" "14 \<le> unat (p_cap_len p)"
    using p by (auto simp: frame_ready_def)
  have c: "unat ?c = unat (p_cap_len p) - 14" using u16_len[of 14 "p_cap_len p"] b(5) by simp
  obtain tl hl where l: "ld16 (p_pkt p) 16 = Some tl" "get_iph_len (p_pkt p) 14 = Some hl"
    using ld16_Some[of 16 "p_pkt p"] b by (auto simp: get_iph_len_def rd8_Some)
  have r: "rd8 (p_pkt p) 14 = Some (p_pkt p ! 14)" using b by (simp add: rd8_Some)
  let ?bad = "?c < 20 \<or> drop_bit 4 (p_pkt p ! 14) \<noteq> 4 \<or> hl < 20 \<or> ntohs tl < hl \<or> ntohs tl > ?c"
  show ?thesis
  proof (cases ?bad)
    case True
    then have "dpi_parse_ipv4_hdr env st p = LOG_BAD_PKT env st p" using l r by (auto simp: dpi_parse_ipv4_hdr_def Let_def)
    then show ?thesis using bad_pkt_safe[OF inv frame_log_ready[OF p], of env] by (auto simp: same_but_verdict_def)
  next
    case False
    let ?q = "p\<lparr>p_len := ntohs tl + 14, p_l4 := p_l3 p + hl\<rparr>"
    have h: "20 \<le> unat hl" "unat hl \<le> unat (ntohs tl)" "unat (ntohs tl) \<le> unat (p_cap_len p) - 14"
      using False c by (simp_all add: word_less_nat_alt not_less)
    have len: "unat (p_len ?q) = unat (ntohs tl) + 14" "unat (p_l4 ?q) = 14 + unat hl"
      using h unat16_lt[of "p_cap_len p"] b by (simp_all add: unat_word_ariths)
    have q: "l4_ready ?q" using len h b by (simp add: l4_ready_def)
    have ck: "\<exists>v bad. cksum_check 24 (\<lambda>m. get_ip_cksum m 14) ?q = Some (v, bad, ?q)"
    proof (rule cksum_check_safe)
      fix m assume m: "length m = length (p_pkt ?q)" "\<forall>i<24. rd8 m i = rd8 (p_pkt ?q) i"
      then have "get_iph_len m 14 = Some hl" using l by (simp add: get_iph_len_def)
      moreover have "14 + 2 * (unat hl div 2) \<le> length m" using m(1) h b by simp
      then obtain v where "sum16 m 14 (unat hl div 2) 0 = Some v" using sum16_Some by blast
      ultimately show "\<exists>v. get_ip_cksum m 14 = Some v" by (simp add: get_ip_cksum_def)
    qed (use b in simp)
    have "\<exists>g. dpi_parse_ipv4_hdr env st p = Some (g, st, ?q)"
      using False l r ck by (auto simp: dpi_parse_ipv4_hdr_def Let_def)
    then show ?thesis using inv q by auto
  qed
qed

lemma l4_proto: "l4_ready q \<Longrightarrow> l4_ready (q\<lparr>p_ip_proto := x\<rparr>)"
  by (simp add: l4_ready_def)

lemma safe_frame_if: "safe_frame p a \<Longrightarrow> safe_frame p b \<Longrightarrow> safe_frame p (if c then a else b)"
  by simp

lemma ipv4_safe:
  assumes inv: "log_inv (fr_log st)" and p: "frame_ready p"
    and nf: "\<And>w. ld16 (p_pkt p) 20 = Some w \<Longrightarrow> ntohs w AND 0x3fff = 0"
  shows "safe_frame p (dpi_parse_ipv4 env st p)"
proof -
  obtain g st' q where h: "dpi_parse_ipv4_hdr env st p = Some (g, st', q)" "log_inv (fr_log st')" "p_cap_len q = p_cap_len p"
      "g \<Longrightarrow> l4_ready q \<and> p_pkt q = p_pkt p \<and> st' = st"
    using ipv4_hdr_safe[OF inv p, of env] by blast
  show ?thesis
  proof (cases g)
    case False
    then have "dpi_parse_ipv4 env st p = Some (False, st', q)" using h by (simp add: dpi_parse_ipv4_def)
    then show ?thesis using h(2,3) by (rule frame_of_False)
  next
    case True
    have b: "54 \<le> length (p_pkt p)" using p by (simp add: frame_ready_def)
    have q: "l4_ready q" "p_pkt q = p_pkt p" "st' = st" "unat (p_l3 q) = 14" using h(4) True by (auto simp: l4_ready_def)
    obtain fo where fo: "ld16 (p_pkt p) 20 = Some fo" using ld16_Some[of 20 "p_pkt p"] b by auto
    have "(ucast (ntohs fo) AND 0x3fff :: u32) = ucast (ntohs fo AND 0x3fff)" by (simp add: unsigned_and_eq)
    then have nofrag: "\<not> FLAGS_TEST (ucast (ntohs fo)) (IP_OFFMASK OR IP_MF)"
      using nf[OF fo] by (simp add: FLAGS_TEST_def IP_OFFMASK_def IP_MF_def)
    let ?q = "q\<lparr>p_ip_proto := p_pkt p ! 23\<rparr>"
    have run: "dpi_parse_ipv4 env st p = (if p_pkt p ! 23 = 6 then dpi_parse_tcp env st ?q else if p_pkt p ! 23 = 17 then dpi_parse_udp env st ?q
        else if p_pkt p ! 23 = 1 then dpi_parse_icmp env st ?q else parse_other st ?q)"
      using h(1) True q fo nofrag b by (simp add: dpi_parse_ipv4_def rd8_Some)
    have q1: "l4_ready ?q" "p_cap_len ?q = p_cap_len p" using l4_proto[OF q(1)] h(3) by simp_all
    show ?thesis unfolding run
      by (intro safe_frame_if frame_of_parse[OF q1] tcp_safe[OF inv q1(1)] udp_safe[OF inv q1(1)] icmp_safe[OF inv q1(1)] other_safe[OF inv q1(1)])
  qed
qed

lemma u16_add14: "unat (a :: u16) + 14 < 65536 \<Longrightarrow> unat (a + 14) = unat a + 14"
  by (simp add: unat_word_ariths)

lemma ext_length_safe:
  assumes "ptr < fin" "fin \<le> length m"
  shows "\<exists>el. ext_length m ty ptr fin h = Some el"
  using assms by (simp add: ext_length_def rd8_Some)

lemma ext_loop_safe:
  assumes "fin \<le> length (p_pkt p)" "unat (p_l3 p) \<le> ptr"
  shows "\<exists>off x. ext_loop p ty ptr fin h = Some (off, p\<lparr>p_ip6_fragh := x\<rparr>) \<and>
    (\<forall>n proto. off = Some (n, proto) \<longrightarrow> ptr \<le> unat (p_l3 p) + n \<and> unat (p_l3 p) + n < fin)"
  using assms
proof (induction p ty ptr fin h rule: ext_loop.induct)
  case (1 p ty ptr fin h)
  have same: "p\<lparr>p_ip6_fragh := p_ip6_fragh p\<rparr> = p" by (cases p) simp
  show ?case
  proof (cases "ptr < fin")
    case lt: True
    define x where "x = (if ty = IPPROTO_FRAGMENT \<and> p_ip6_fragh p = None then Some ptr else p_ip6_fragh p)"
    have p1: "(if ty = IPPROTO_FRAGMENT \<and> p_ip6_fragh p = None then p\<lparr>p_ip6_fragh := Some ptr\<rparr> else p) = p\<lparr>p_ip6_fragh := x\<rparr>"
      using same by (simp add: x_def)
    obtain el where el: "ext_length (p_pkt p) ty ptr fin h = Some el" using ext_length_safe[OF lt 1(2)] by blast
    have ty: "rd8 (p_pkt p) ptr = Some (p_pkt p ! ptr)" using lt 1(2) by (simp add: rd8_Some)
    note D = ext_loop.simps[of p ty ptr fin h] Let_def p1
    show ?thesis
    proof (cases el)
      case None
      then show ?thesis using lt el 1(3) by (auto simp: D)
    next
      case (Some n)
      show ?thesis
      proof (cases "n \<le> 2")
        case True
        then show ?thesis using lt el Some by (auto simp: D)
      next
        case False
        let ?p = "p\<lparr>p_ip6_fragh := x\<rparr>"
        have "\<exists>off y. ext_loop ?p (p_pkt p ! ptr) (ptr + n) fin (h \<or> ty = IPPROTO_HOPOPTS) = Some (off, ?p\<lparr>p_ip6_fragh := y\<rparr>) \<and>
            (\<forall>k proto. off = Some (k, proto) \<longrightarrow> ptr + n \<le> unat (p_l3 ?p) + k \<and> unat (p_l3 ?p) + k < fin)"
          using 1(1)[OF lt _ el Some False ty] p1 1(2,3) by simp
        then obtain off y where "ext_loop ?p (p_pkt p ! ptr) (ptr + n) fin (h \<or> ty = IPPROTO_HOPOPTS) = Some (off, p\<lparr>p_ip6_fragh := y\<rparr>)"
            "\<forall>k proto. off = Some (k, proto) \<longrightarrow> ptr + n \<le> unat (p_l3 p) + k \<and> unat (p_l3 p) + k < fin" by auto
        then show ?thesis using lt el Some False ty by (intro exI[of _ off] exI[of _ y]) (auto simp: D)
      qed
    qed
  next
    case False
    then show ?thesis using same by (intro exI[of _ None] exI[of _ "p_ip6_fragh p"]) (simp add: ext_loop.simps)
  qed
qed

lemma ipv6_hdr_safe:
  assumes inv: "log_inv (fr_log st)" and p: "frame_ready p"
  shows "\<exists>h st' q. dpi_parse_ipv6_hdr env st p = Some (h, st', q) \<and> log_inv (fr_log st') \<and> p_cap_len q = p_cap_len p \<and>
    (h \<noteq> None \<longrightarrow> l4_ready q \<and> st' = st \<and>
       (\<exists>pl x y. ld16 (p_pkt p) 18 = Some pl \<and> dpi_parse_ipv6_ext (p\<lparr>p_len := ntohs pl + 40 + 14\<rparr>) = Some (x, y) \<and> p_ip6_fragh q = p_ip6_fragh y))"
proof -
  let ?c = "p_cap_len p - 14"
  have b: "p_l3 p = 14" "p_l2 p = 0" "54 \<le> length (p_pkt p)" "unat (p_cap_len p) + 2 \<le> length (p_pkt p)" "14 \<le> unat (p_cap_len p)"
    using p by (auto simp: frame_ready_def)
  have c: "unat ?c = unat (p_cap_len p) - 14" using u16_len[of 14 "p_cap_len p"] b(5) by simp
  obtain pl where pl: "ld16 (p_pkt p) 18 = Some pl" using ld16_Some[of 18 "p_pkt p"] b by auto
  let ?n = "ntohs pl + 40" let ?p = "p\<lparr>p_len := ?n + 14\<rparr>"
  note bad = bad_pkt_safe[OF inv, of _ env]
  show ?thesis
  proof (cases "?c < 40 \<or> ?n > ?c")
    case True
    then have "dpi_parse_ipv6_hdr env st p = map_option (\<lambda>(_, r). (None, r)) (LOG_BAD_PKT env st p)" using pl by (auto simp: dpi_parse_ipv6_hdr_def Let_def)
    then show ?thesis using bad[OF frame_log_ready[OF p]] by (auto simp: same_but_verdict_def)
  next
    case False
    have n: "unat ?n \<le> unat (p_cap_len p) - 14" "40 \<le> unat (p_cap_len p) - 14"
      using False c by (simp_all add: word_less_nat_alt not_less)
    have len: "unat (?n + 14) = unat ?n + 14" using n unat16_lt[of "p_cap_len p"] b by (intro u16_add14) simp
    have ty: "rd8 (p_pkt p) 20 = Some (p_pkt p ! 20)" using b by (simp add: rd8_Some)
    have le: "unat (?n + 14) \<le> length (p_pkt ?p)" "unat (p_l3 ?p) \<le> 54" using b n len by simp_all
    obtain off x where e: "ext_loop ?p (p_pkt p ! 20) 54 (unat (?n + 14)) False = Some (off, ?p\<lparr>p_ip6_fragh := x\<rparr>)"
        "\<forall>k proto. off = Some (k, proto) \<longrightarrow> 54 \<le> 14 + k \<and> 14 + k < unat (?n + 14)"
      using ext_loop_safe[OF le, of "p_pkt p ! 20" False] b(1) by auto
    let ?q = "?p\<lparr>p_ip6_fragh := x\<rparr>"
    have ext: "dpi_parse_ipv6_ext ?p = Some (off, ?q)" using e(1) ty b by (simp add: dpi_parse_ipv6_ext_def)
    show ?thesis
    proof (cases off)
      case None
      have "log_ready ?q" using frame_log_ready[OF p] by (simp add: log_ready_def)
      moreover have "dpi_parse_ipv6_hdr env st p = map_option (\<lambda>(_, r). (None, r)) (LOG_BAD_PKT env st ?q)"
        using False pl ext None by (simp add: dpi_parse_ipv6_hdr_def Let_def)
      ultimately show ?thesis using bad[of ?q] by (auto simp: same_but_verdict_def)
    next
      case (Some kp)
      obtain k proto where kp: "kp = (k, proto)" by fastforce
      have k: "54 \<le> 14 + k" "14 + k < unat (?n + 14)" using e(2) Some kp by auto
      let ?r = "?q\<lparr>p_l4 := 14 + of_nat k\<rparr>"
      have "unat (14 + of_nat k :: u16) = 14 + k" using k unat16_lt[of "?n + 14"] by (simp add: unat_word_ariths unat_of_nat)
      then have "l4_ready ?r" using b n len k by (simp add: l4_ready_def)
      moreover have "dpi_parse_ipv6_hdr env st p = Some (Some proto, st, ?r)" using False pl ext Some kp b by (simp add: dpi_parse_ipv6_hdr_def Let_def)
      ultimately show ?thesis using inv pl ext by auto
    qed
  qed
qed

lemma ipv6_safe:
  assumes inv: "log_inv (fr_log st)" and p: "frame_ready p"
    and nf: "\<And>pl x y. ld16 (p_pkt p) 18 = Some pl \<Longrightarrow> dpi_parse_ipv6_ext (p\<lparr>p_len := ntohs pl + 40 + 14\<rparr>) = Some (x, y) \<Longrightarrow> p_ip6_fragh y = None"
  shows "safe_frame p (dpi_parse_ipv6 env st p)"
proof -
  obtain h st' q where h: "dpi_parse_ipv6_hdr env st p = Some (h, st', q)" "log_inv (fr_log st')" "p_cap_len q = p_cap_len p"
      "h \<noteq> None \<longrightarrow> l4_ready q \<and> st' = st \<and>
       (\<exists>pl x y. ld16 (p_pkt p) 18 = Some pl \<and> dpi_parse_ipv6_ext (p\<lparr>p_len := ntohs pl + 40 + 14\<rparr>) = Some (x, y) \<and> p_ip6_fragh q = p_ip6_fragh y)"
    using ipv6_hdr_safe[OF inv p, of env] by blast
  show ?thesis
  proof (cases h)
    case None
    then have "dpi_parse_ipv6 env st p = Some (False, st', q)" using h by (simp add: dpi_parse_ipv6_def)
    then show ?thesis using h(2,3) by (rule frame_of_False)
  next
    case (Some proto)
    then have q: "l4_ready q" "st' = st" "p_ip6_fragh q = None" using h(4) nf by auto
    let ?q = "q\<lparr>p_ip_proto := proto\<rparr>"
    have run: "dpi_parse_ipv6 env st p = (if proto = 6 then dpi_parse_tcp env st ?q else if proto = 17 then dpi_parse_udp env st ?q
        else if proto = 1 \<or> proto = 58 then dpi_parse_icmpv6 env st ?q else parse_other st ?q)"
      using h(1) Some q by (simp add: dpi_parse_ipv6_def)
    have q1: "l4_ready ?q" "p_cap_len ?q = p_cap_len p" using l4_proto[OF q(1)] h(3) by simp_all
    show ?thesis unfolding run
      by (intro safe_frame_if frame_of_parse[OF q1] tcp_safe[OF inv q1(1)] udp_safe[OF inv q1(1)] icmpv6_safe[OF inv q1(1)] other_safe[OF inv q1(1)])
  qed
qed

subsection \<open>Frames\<close>

text \<open>The frame carries no fragment: no IPv4 fragment, and no IPv6 fragment header.\<close>
definition unfragmented :: "dpi_packet \<Rightarrow> bool" where
  "unfragmented p = (case ld16 (p_pkt p) 12 of None \<Rightarrow> True
     | Some et \<Rightarrow>
         let p1 = p\<lparr>p_l2 := 0, p_l3 := 14, p_len := p_cap_len p, p_eth_type := ntohs et\<rparr> in
         if ntohs et = ETH_P_IP then (case ld16 (p_pkt p) 20 of None \<Rightarrow> True | Some w \<Rightarrow> ntohs w AND 0x3fff = 0)
         else if ntohs et = ETH_P_IPV6 then
           (case ld16 (p_pkt p) 18 of None \<Rightarrow> True
            | Some pl \<Rightarrow> (case dpi_parse_ipv6_ext (p1\<lparr>p_len := ntohs pl + 40 + 14\<rparr>) of None \<Rightarrow> True | Some (x, y) \<Rightarrow> p_ip6_fragh y = None))
         else True)"

text \<open>A packet as it is handed in: captured bytes with some slack behind them, nothing parsed yet.\<close>
definition fresh_packet :: "dpi_packet \<Rightarrow> bool" where
  "fresh_packet p \<longleftrightarrow> p_l2 p = 0 \<and> p_l3 p = 0 \<and> p_l4 p = 0 \<and> p_action p = DPI_ACTION_NONE \<and>
     54 \<le> length (p_pkt p) \<and> unat (p_cap_len p) + 2 \<le> length (p_pkt p)"

lemma parse_packet_safe:
  assumes inv: "log_inv (fr_log st)" and p: "fresh_packet p" and nf: "unfragmented p"
  shows "\<exists>b st' q. dpi_parse_packet env st p = Some (b, st', q) \<and> log_inv (fr_log st') \<and>
    (b \<longrightarrow> p_eth_type q = ETH_P_IP \<or> p_eth_type q = ETH_P_IPV6 \<longrightarrow> l4_ready q \<and> payload_ok q)"
proof (cases "p_cap_len p < 14")
  case True
  have "log_ready p" using p by (simp add: fresh_packet_def log_ready_def)
  then show ?thesis using True bad_pkt_safe[OF inv, of p env] by (auto simp: dpi_parse_packet_def)
next
  case False
  have b: "14 \<le> unat (p_cap_len p)" "54 \<le> length (p_pkt p)" using False p by (auto simp: fresh_packet_def word_less_nat_alt)
  obtain et where et: "ld16 (p_pkt p) 12 = Some et" using ld16_Some[of 12 "p_pkt p"] b by auto
  let ?p = "p\<lparr>p_l2 := 0, p_l3 := 14, p_len := p_cap_len p, p_eth_type := ntohs et\<rparr>"
  have r: "frame_ready ?p" using p b by (simp add: fresh_packet_def frame_ready_def)
  have run: "dpi_parse_packet env st p = (if ntohs et = ETH_P_IP then dpi_parse_ipv4 env st ?p
      else if ntohs et = ETH_P_IPV6 then dpi_parse_ipv6 env st ?p else Some (True, st, ?p))"
    using False et by (simp add: dpi_parse_packet_def Let_def)
  have ip: "ntohs et = ETH_P_IP \<Longrightarrow> safe_frame ?p (dpi_parse_ipv4 env st ?p)"
    using nf et by (intro ipv4_safe[OF inv r]) (simp add: unfragmented_def Let_def)
  have ip6: "ntohs et \<noteq> ETH_P_IP \<Longrightarrow> ntohs et = ETH_P_IPV6 \<Longrightarrow> safe_frame ?p (dpi_parse_ipv6 env st ?p)"
    using nf et by (intro ipv6_safe[OF inv r]) (simp add: unfragmented_def Let_def)
  consider (v4) "ntohs et = ETH_P_IP" | (v6) "ntohs et \<noteq> ETH_P_IP" "ntohs et = ETH_P_IPV6" | (other) "ntohs et \<noteq> ETH_P_IP" "ntohs et \<noteq> ETH_P_IPV6"
    by blast
  then show ?thesis
  proof cases
    case v4
    then have "dpi_parse_packet env st p = dpi_parse_ipv4 env st ?p" using run by simp
    then show ?thesis using ip[OF v4] unfolding safe_frame_def by metis
  next
    case v6
    then have "dpi_parse_packet env st p = dpi_parse_ipv6 env st ?p" using run by simp
    then show ?thesis using ip6[OF v6] unfolding safe_frame_def by metis
  next
    case other
    then have "dpi_parse_packet env st p = Some (True, st, ?p)" using run by simp
    then show ?thesis using inv other by auto
  qed
qed

lemma set_action_drop: "p_action (dpi_set_action p DPI_ACTION_DROP) = DPI_ACTION_DROP"
  by (simp add: dpi_set_action_def action_consts word_le_nat_alt)

text \<open>C21. No frame makes the parsers read outside of its memory. Given the captured bytes with two bytes of slack, and at
  least 54 bytes in all for the header the threat log looks at, parsing an unfragmented frame always returns: with
  no verdict for a good frame, with \<open>DROP\<close> for a bad one.\<close>
theorem parse_ethernet_safe:
  assumes "log_inv (fr_log st)" and "fresh_packet p" and "unfragmented p"
  shows "\<exists>act st' q. dpi_parse_ethernet env st p = Some (act, st', q) \<and> log_inv (fr_log st') \<and>
    (act = DPI_ACTION_NONE \<or> act = DPI_ACTION_DROP \<and> p_action q = DPI_ACTION_DROP)"
proof -
  obtain b st' q where "dpi_parse_packet env st p = Some (b, st', q)" "log_inv (fr_log st')" using parse_packet_safe[OF assms, of env] by blast
  then show ?thesis by (cases b) (auto simp: dpi_parse_ethernet_def set_action_drop Let_def)
qed


text \<open>A UDP packet in a frame, with room behind it.\<close>
definition udp_packet :: dpi_packet where
  "udp_packet = pkt_zero\<lparr>p_pkt := replicate 12 0 @ [8, 0] @ [0x45,0,0,32, 0x12,0x34,0,0, 64,17,84,151, 10,0,0,1, 10,0,0,2] @
     [0,53,0x12,0x34,0,12,0,0] @ [1,2,3,4] @ replicate 8 0, p_cap_len := 46\<rparr>"

definition env_plain :: pkt_env where
  "env_plain = \<lparr>pe_mem = frag_mem_ok, pe_tap = False, pe_cksum = True\<rparr>"

lemma udp_packet_ok: "log_inv (fr_log frag_start)" "fresh_packet udp_packet" "unfragmented udp_packet"
proof -
  show "log_inv (fr_log frag_start)" by (simp add: frag_start_def log_start_def log_inv_def cache_ids_def rcu_map_init_def)
  show "fresh_packet udp_packet" "unfragmented udp_packet" by code_simp+
qed

theorem parse_ethernet_safe_witness:
  "\<exists>act st' q. dpi_parse_ethernet env_plain frag_start udp_packet = Some (act, st', q)"
  using parse_ethernet_safe[OF udp_packet_ok, of env_plain] by blast


subsection \<open>Bad flags\<close>

lemma BITMASK_TEST_bit: "BITMASK_TEST m c \<longleftrightarrow> bit (m ! (c div 8)) (c mod 8)"
  by (simp only: BITMASK_TEST_def bit_iff_and_push_bit_not_eq_0)

lemma BITMASK_SET_test:
  assumes "b < 8 * length m" "c < 8 * length m"
  shows "BITMASK_TEST (BITMASK_SET m b) c \<longleftrightarrow> BITMASK_TEST m c \<or> c = b"
proof -
  have p: "bit (push_bit j 1 :: byte) k \<longleftrightarrow> j = k" if "j < 8" "k < 8" for j k using that by (auto simp: bit_simps)
  have m: "b mod 8 < 8" "c mod 8 < 8" by simp_all
  have l: "b div 8 < length m" using assms(1) by (simp add: less_mult_imp_div_less mult.commute)
  show ?thesis
  proof (cases "b div 8 = c div 8")
    case True
    have "c = b \<longleftrightarrow> b mod 8 = c mod 8" using True by (metis div_mod_decomp)
    then show ?thesis using True l unfolding BITMASK_TEST_bit BITMASK_SET_def
      by (simp only: nth_list_update_eq bit_or_iff p[OF m])
  next
    case False
    then show ?thesis by (auto simp: BITMASK_TEST_bit BITMASK_SET_def)
  qed
qed

lemma BITMASK_fold:
  "\<forall>f\<in>set fs. unat f < 8 * length m \<Longrightarrow> c < 8 * length m \<Longrightarrow>
     BITMASK_TEST (foldl (\<lambda>m (f :: byte). BITMASK_SET m (unat f)) m fs) c \<longleftrightarrow> BITMASK_TEST m c \<or> c \<in> unat ` set fs"
proof (induction fs arbitrary: m)
  case (Cons f fs)
  have "length (BITMASK_SET m (unat f)) = length m" by (simp add: BITMASK_SET_def)
  then show ?case using Cons.IH[of "BITMASK_SET m (unat f)"] Cons.prems BITMASK_SET_test[of "unat f" m c] by auto
qed simp

text \<open>C23. The bit set of bad TCP flags answers exactly membership in the list of bad combinations, for every byte of flags.\<close>
theorem tcp_bad_flags_eq:
  "BITMASK_TEST dpi_packet_setup (unat (f AND TCP_FLAG_MASK)) \<longleftrightarrow> f AND TCP_FLAG_MASK \<in> set tcp_bad_flag_list"
proof -
  have u: "unat x < 256" for x :: byte using unsigned_less[of x] by simp
  have "BITMASK_TEST dpi_packet_setup (unat x) \<longleftrightarrow> BITMASK_TEST (replicate 32 0) (unat x) \<or> unat x \<in> unat ` set tcp_bad_flag_list" for x :: byte
    unfolding dpi_packet_setup_def by (rule BITMASK_fold) (use u in auto)
  moreover have "\<not> BITMASK_TEST (replicate 32 0) (unat x)" for x :: byte using u[of x] by (simp add: BITMASK_TEST_def less_mult_imp_div_less)
  moreover have "unat x \<in> unat ` S \<longleftrightarrow> x \<in> S" for x :: byte and S
    by (rule inj_image_mem_iff) (rule injI, simp add: word_unat_eq_iff)
  ultimately show ?thesis by simp
qed

subsection \<open>Fragments of an incomplete datagram\<close>

text \<open>C24. A defect that comes from the composition of the parser and the reassembly: when the first and the last fragment of
  a datagram are there and another one is missing, \<open>dpi_ip_defrag\<close> reports its failure as 1, the parser only
  stops at a negative result, and the fragment that just arrived is parsed as if it were a whole packet: its
  payload is taken for a transport header.\<close>
theorem fragment_parsed_whole:
  assumes "dpi_parse_ipv4_hdr env st p = Some (True, st, p1)" and "frag_inv st" and "frag_key4 p1 = Some key"
    and "frag_find st key = Some t" and "trac_inv D S t" and "pieces D (insert p1 S)" and "p1 \<notin> S"
    and "\<exists>x\<in>insert p1 S. frag_off_of x = 0" and "\<exists>y\<in>insert p1 S. frag_end_of y = length D"
    and "i < length D" and "\<not> covers (insert p1 S) i" and "length D < 2 ^ 30" and "0 < frag_off_of p1"
    and "ok_trac (pe_mem env)" and "ok_clip (pe_mem env)" and "rd8 (p_pkt p1) (unat (p_l3 p1) + 9) = Some 17"
  shows "\<exists>st'. dpi_parse_ipv4 env st p = dpi_parse_udp env st' (p1\<lparr>p_ip_proto := 17\<rparr>)"
proof -
  have "S = {} \<and> frag_find st key = None \<or> (\<exists>t. frag_find st key = Some t \<and> trac_inv D S t)" using assms(4,5) by blast
  from defrag_step[OF assms(2,3,14,15) this assms(6,7,12), of "pe_tap env"]
  obtain st1 t1 where st1: "trac_inv D (insert p1 S) t1"
    "dpi_ip_defrag (pe_mem env) (pe_tap env) st p1 = (if f_first t1 \<and> f_last t1 then ipfrag_construct t1 st1 p1 else Some (- 1, st1, p1))"
    by metis
  have fl: "f_first t1" "f_last t1" using st1(1) assms(8,9) by (simp_all add: trac_inv_def)
  have d: "dpi_ip_defrag (pe_mem env) (pe_tap env) st p1 = Some (1, st1, p1)"
    using st1(2) fl trac_gap[OF st1(1) assms(6,10,11) fl assms(12)] by (simp add: ipfrag_construct_def)
  have fp: "fragment_of D p1" using assms(6) by (simp add: pieces_def)
  obtain fo where fo: "ld16 (p_pkt p1) (unat (p_l3 p1) + 6) = Some fo" "ntohs fo = frag_word p1" using frag_fields[OF fp] by metis
  have "frag_word p1 AND 0x1fff \<noteq> 0" using assms(13) by (auto simp: frag_off_of_def)
  then have "ucast (frag_word p1 AND 0x1fff) \<noteq> (0 :: u32)" by (simp only: ucast_16_zero not_False_eq_True)
  then have "ucast (frag_word p1) AND (0x1fff :: u32) \<noteq> 0" by (simp add: unsigned_and_eq)
  then have "FLAGS_TEST (ucast (frag_word p1)) (IP_OFFMASK OR IP_MF)"
    unfolding FLAGS_TEST_def IP_OFFMASK_def IP_MF_def by (simp only: bit.conj_disj_distrib or_eq_0_iff simp_thms not_False_eq_True)
  then have "dpi_parse_ipv4 env st p = dpi_parse_udp env st1 (p1\<lparr>p_ip_proto := 17\<rparr>)"
    using assms(1,16) fo d by (simp add: dpi_parse_ipv4_def)
  then show ?thesis by blast
qed

definition gap_data :: bytes where "gap_data = map of_nat [0..<44]"
definition gap_first :: dpi_packet where "gap_first = frag_packet 0x20 0 (take 8 gap_data)"
definition gap_last :: dpi_packet where "gap_last = frag_packet 0 3 (drop 24 gap_data)"
definition env_frag :: pkt_env where "env_frag = \<lparr>pe_mem = frag_mem_ok, pe_tap = False, pe_cksum = False\<rparr>"

lemma ipv4_hdr_state: "dpi_parse_ipv4_hdr env st p = Some (True, st', q) \<Longrightarrow> st' = st"
  by (auto simp: dpi_parse_ipv4_hdr_def LOG_BAD_PKT_def Let_def split: bind_splits if_splits)

theorem fragment_parsed_whole_witness:
  "\<exists>st st'. dpi_parse_ipv4 env_frag st (gap_last\<lparr>p_l4 := 0, p_len := 54\<rparr>) = dpi_parse_udp env_frag st' (gap_last\<lparr>p_ip_proto := 17\<rparr>)"
proof -
  let ?key = "the (frag_key4 gap_last)"
  have keys: "frag_key4 gap_first = Some ?key" "frag_key4 gap_last = Some ?key" by code_simp+
  have fr: "fragment_of gap_data gap_first" "fragment_of gap_data gap_last" by code_simp+
  have offs: "frag_off_of gap_first = 0" "frag_end_of gap_first = 8" "frag_off_of gap_last = 24" "frag_end_of gap_last = 44" by code_simp+
  have len: "length gap_data = 44" by (simp add: gap_data_def)
  have ne: "gap_last \<notin> {gap_first}" using offs by auto
  have P: "pieces gap_data {gap_last, gap_first}" "pieces gap_data {gap_first}"
    using fr offs by (auto simp: pieces_def frag_apart_def)
  have inv: "frag_inv frag_start" by (simp add: frag_inv_def frag_start_def frag_ids_def rcu_map_init_def rm_sorted_def)
  have none: "{} = {} \<and> frag_find frag_start ?key = None \<or> (\<exists>t. frag_find frag_start ?key = Some t \<and> trac_inv gap_data {} t)"
    by (simp add: frag_start_def rcu_map_init_def rcu_map_lookup_def)
  have ok: "ok_trac frag_mem_ok" "ok_clip frag_mem_ok" by (simp_all add: frag_mem_ok_def)
  have l30: "length gap_data < 2 ^ 30" using len by simp
  obtain st t where st: "frag_inv st" "frag_find st ?key = Some t" "trac_inv gap_data {gap_first} t"
    by (rule defrag_step[OF inv keys(1) ok none P(2) _ l30, of False]) simp
  have h: "dpi_parse_ipv4_hdr env_frag s (gap_last\<lparr>p_l4 := 0, p_len := 54\<rparr>) = Some (True, s, gap_last)" for s
  proof -
    have "map_option (\<lambda>(b, s', q). (b, q)) (dpi_parse_ipv4_hdr env_frag s (gap_last\<lparr>p_l4 := 0, p_len := 54\<rparr>)) = Some (True, gap_last)"
      by code_simp
    then show ?thesis using ipv4_hdr_state by fastforce
  qed
  have ok': "ok_trac (pe_mem env_frag)" "ok_clip (pe_mem env_frag)" using ok by (simp_all add: env_frag_def)
  have gap: "(10 :: nat) < length gap_data" "\<not> covers {gap_last, gap_first} 10" using len offs by (auto simp: covers_def)
  have r: "rd8 (p_pkt gap_last) (unat (p_l3 gap_last) + 9) = Some 17" by code_simp
  have ends: "\<exists>x\<in>{gap_last, gap_first}. frag_off_of x = 0" "\<exists>x\<in>{gap_last, gap_first}. frag_end_of x = length gap_data"
    "0 < frag_off_of gap_last" using offs len by auto
  show ?thesis
    using fragment_parsed_whole[OF h st(1) keys(2) st(2,3) P(1) ne ends(1,2) gap l30 ends(3) ok' r] by blast
qed

end
