(* ===== verification/DP_Parser.thy ===== *)
theory DP_Parser
  imports DP_Packet
begin

text \<open>
  The protocol parsers' framework (\<open>dpi/dpi_parser.c\<close>) and the applications of a workload's ports
  (\<open>dpi/dpi_entry.c\<close>). A parser is known by its type, the index of its place in the list of its transport protocol;
  what a parser keeps for a session is one of the records below. The session, the packet and the fields the parsers
  share through the packet are one state; \<^term>\<open>None\<close> is a null pointer used, or a read outside of a buffer.
\<close>

subsection \<open>State\<close>

record io_app =
  ap_port :: u16
  ap_proto :: u16
  ap_server :: u16
  ap_application :: u16
  ap_version :: bytes
  ap_listen :: bool
  ap_ip_proto :: byte
  ap_src :: byte

text \<open>The part of a workload (\<open>io_ep_t\<close>) the parsers see.\<close>
record io_ep =
  ep_app_map :: "io_app rcu_map"
  ep_app_updated :: u32
  ep_app_ports :: u16
  ep_tap :: bool
  ep_cassandra_svr :: bool

record ssl_wing =
  sw_seq :: u32
  sw_match :: bool
  sw_encrypted :: bool

record ssl_data =
  ssl_client :: ssl_wing
  ssl_server :: ssl_wing
  ssl_version :: u16

datatype ssh_stage = SSH_STAGE_BANNER | SSH_STAGE_KEY

record ssh_data =
  ssh_client_seq :: u32
  ssh_client_stage :: ssh_stage
  ssh_server_seq :: u32
  ssh_server_stage :: ssh_stage
  ssh_ver :: byte

record redis_data =
  redis_client_seq :: u32
  redis_server_seq :: u32
  redis_has_client_hdr :: bool

record mongodb_data =
  mg_client_seq :: u32
  mg_server_seq :: u32
  mg_req_id :: u32
  mg_pkt_size :: u32
  mg_pkt_parsed :: u32
  mg_client_req :: bool

record cassandra_data =
  ca_client_seq :: u32
  ca_client_cnt :: byte
  ca_server_seq :: u32
  ca_server_cnt :: byte

record postgresql_data =
  pg_client_seq :: u32
  pg_server_seq :: u32
  pg_cancel_request :: bool
  pg_ssl_request :: bool
  pg_startup_message :: bool

record dns_data =
  dns_client_seq :: u32
  dns_server_seq :: u32

text \<open>The data of the parsers that are not modelled is known by a name.\<close>
datatype parser_data =
  D_ssl ssl_data | D_ssh ssh_data | D_redis redis_data | D_mongodb mongodb_data | D_cassandra cassandra_data
  | D_postgresql postgresql_data | D_dns dns_data | D_other nat

text \<open>\<open>x_cur\<close> is \<open>p->cur_parser\<close>, \<open>x_asm\<close> tells whether \<open>p->pkt_buffer\<close> is \<open>p->asm_pkt\<close> or \<open>p->raw\<close>,
  \<open>x_freed\<close> are the data handed to \<open>delete_data\<close>.\<close>
record pstate =
  x_p :: dpi_packet
  x_s :: dpi_session
  x_data :: "parser_data option list"
  x_cur :: "nat option"
  x_left :: byte
  x_asm_seq :: u32
  x_parser_asm_seq :: u32
  x_asm_pkt :: buf
  x_asm :: bool
  x_ep :: io_ep
  x_log :: log_state
  x_freed :: "parser_data list"

text \<open>The outcomes of the allocations: of a parser's data, of an application, of a threat log entry.\<close>
record par_mem =
  pm_data :: bool
  pm_app :: bool
  pm_log :: bool

definition dpi_is_client_pkt :: "dpi_packet \<Rightarrow> bool" where
  "dpi_is_client_pkt p \<longleftrightarrow> FLAGS_TEST (p_flags p) DPI_PKT_FLAG_CLIENT"

definition pkt_buffer :: "pstate \<Rightarrow> buf" where
  "pkt_buffer x = (if x_asm x then x_asm_pkt x else p_raw (x_p x))"

abbreviation dpi_pkt_ptr :: "pstate \<Rightarrow> bytes" where
  "dpi_pkt_ptr x \<equiv> b_data (pkt_buffer x)"

definition dpi_pkt_seq :: "pstate \<Rightarrow> u32" where
  "dpi_pkt_seq x = b_seq (pkt_buffer x)"

definition dpi_pkt_len :: "pstate \<Rightarrow> u32" where
  "dpi_pkt_len x = of_nat (length (b_data (pkt_buffer x)))"

definition dpi_is_seq_in_pkt :: "pstate \<Rightarrow> u32 \<Rightarrow> bool" where
  "dpi_is_seq_in_pkt x seq \<longleftrightarrow> u32_distance (dpi_pkt_seq x) seq < dpi_pkt_len x"

text \<open>\<open>off\<close> is the pointer's distance from \<open>dpi_pkt_ptr\<close>.\<close>
definition dpi_ptr_2_seq :: "pstate \<Rightarrow> nat \<Rightarrow> u32" where
  "dpi_ptr_2_seq x off = dpi_pkt_seq x + of_nat off"

definition this_wing :: "pstate \<Rightarrow> dpi_wing" where
  "this_wing x = (if dpi_is_client_pkt (x_p x) then s_client (x_s x) else s_server (x_s x))"

definition upd_wing :: "(dpi_wing \<Rightarrow> dpi_wing) \<Rightarrow> pstate \<Rightarrow> pstate" where
  "upd_wing f x = x\<lparr>x_s := (if dpi_is_client_pkt (x_p x) then (x_s x)\<lparr>s_client := f (s_client (x_s x))\<rparr>
     else (x_s x)\<lparr>s_server := f (s_server (x_s x))\<rparr>)\<rparr>"

abbreviation sess_flag :: "pstate \<Rightarrow> u16 \<Rightarrow> bool" where
  "sess_flag x f \<equiv> FLAGS_TEST (s_flags (x_s x)) f"

definition set_flag :: "u16 \<Rightarrow> pstate \<Rightarrow> pstate" where
  "set_flag f x = x\<lparr>x_s := (x_s x)\<lparr>s_flags := s_flags (x_s x) OR f\<rparr>\<rparr>"

definition unset_flag :: "u16 \<Rightarrow> pstate \<Rightarrow> pstate" where
  "unset_flag f x = x\<lparr>x_s := (x_s x)\<lparr>s_flags := s_flags (x_s x) AND NOT f\<rparr>\<rparr>"

definition DPI_SESS_FLAG_ONLY_PARSER :: u16 where
  "DPI_SESS_FLAG_ONLY_PARSER = DPI_SESS_FLAG_FINAL_PARSER OR DPI_SESS_FLAG_LAST_PARSER"

subsection \<open>The parsers\<close>

definition DPI_PARSER_MAX :: nat where "DPI_PARSER_MAX = 20"

definition DPI_PARSER_SSL :: nat where "DPI_PARSER_SSL = 1"
definition DPI_PARSER_SSH :: nat where "DPI_PARSER_SSH = 2"
definition DPI_PARSER_DNS :: nat where "DPI_PARSER_DNS = 3"
definition DPI_PARSER_DHCP :: nat where "DPI_PARSER_DHCP = 4"
definition DPI_PARSER_NTP :: nat where "DPI_PARSER_NTP = 5"
definition DPI_PARSER_TFTP :: nat where "DPI_PARSER_TFTP = 6"
definition DPI_PARSER_ECHO :: nat where "DPI_PARSER_ECHO = 7"
definition DPI_PARSER_REDIS :: nat where "DPI_PARSER_REDIS = 9"
definition DPI_PARSER_CASSANDRA :: nat where "DPI_PARSER_CASSANDRA = 11"
definition DPI_PARSER_MONGODB :: nat where "DPI_PARSER_MONGODB = 12"
definition DPI_PARSER_POSTGRESQL :: nat where "DPI_PARSER_POSTGRESQL = 13"

definition DPI_APP_PROTO_MARK :: u16 where "DPI_APP_PROTO_MARK = 2001"

definition dpi_parser_2_app :: "u16 list" where
  "dpi_parser_2_app = [1001, 1002, 1003, 1004, 1005, 1006, 1007, 1008, 2001, 2002, 2003, 2004, 2005, 2006, 2007, 2008,
     2020, 2026, 2027, 2028]"

definition dpi_is_base_app :: "u16 \<Rightarrow> bool" where
  "dpi_is_base_app app \<longleftrightarrow> app < DPI_APP_PROTO_MARK"

text \<open>Which callbacks a parser has; every parser has \<open>new_session\<close> and \<open>parser\<close>.\<close>
record parser_desc =
  d_ip_proto :: byte
  d_type :: nat
  d_delete_data :: bool
  d_midstream :: bool

definition PROTO_TCP :: byte where "PROTO_TCP = 6"
definition PROTO_UDP :: byte where "PROTO_UDP = 17"

datatype parser_list = G_tcp_parser | G_udp_parser | G_any_parser

definition get_parser_list :: "byte \<Rightarrow> parser_list" where
  "get_parser_list ip_proto = (if ip_proto = PROTO_TCP then G_tcp_parser
     else if ip_proto = PROTO_UDP then G_udp_parser else G_any_parser)"

text \<open>The arguments of \<open>register_parser\<close>, in the order of \<open>dpi_parser_setup\<close>.\<close>
definition all_parsers :: "parser_desc list" where
  "all_parsers =
     (let tcp = (\<lambda>t del mid. \<lparr>d_ip_proto = PROTO_TCP, d_type = t, d_delete_data = del, d_midstream = mid\<rparr>);
          udp = (\<lambda>t del. \<lparr>d_ip_proto = PROTO_UDP, d_type = t, d_delete_data = del, d_midstream = False\<rparr>)
      in [udp DPI_PARSER_DHCP False, tcp DPI_PARSER_DNS True False, udp DPI_PARSER_DNS False, tcp 0 True False,
          tcp DPI_PARSER_SSH True False, tcp DPI_PARSER_SSL True False, tcp 8 True False,
          tcp DPI_PARSER_REDIS True False, tcp 10 True True, udp 10 True, tcp DPI_PARSER_CASSANDRA True False,
          tcp DPI_PARSER_MONGODB True False, tcp DPI_PARSER_POSTGRESQL True False, tcp 14 True True, tcp 15 True False,
          udp DPI_PARSER_TFTP False, udp DPI_PARSER_NTP False, tcp DPI_PARSER_ECHO False False, udp DPI_PARSER_ECHO False,
          tcp 16 True True, tcp 17 True False, tcp 18 True False, tcp 19 True False])"

fun register_parser :: "parser_desc \<Rightarrow> (parser_list \<Rightarrow> parser_desc option list) \<Rightarrow> parser_list \<Rightarrow> parser_desc option list" where
  "register_parser d tbl = (let l = get_parser_list (d_ip_proto d) in tbl(l := (tbl l)[d_type d := Some d]))"

definition dpi_parser_setup :: "parser_list \<Rightarrow> parser_desc option list" where
  "dpi_parser_setup = fold register_parser all_parsers (\<lambda>_. replicate DPI_PARSER_MAX None)"

definition parser_at :: "byte \<Rightarrow> nat \<Rightarrow> parser_desc option" where
  "parser_at ip_proto t = dpi_parser_setup (get_parser_list ip_proto) ! t"

subsection \<open>Applications of a workload\<close>

definition APP_SRC_DP :: byte where "APP_SRC_DP = 2"

definition ep_app_hash :: "u16 \<times> byte \<Rightarrow> u32" where
  "ep_app_hash k = (case k of (port, ip_proto) \<Rightarrow> ucast port XOR ucast ip_proto)"

definition ep_app_match :: "io_app \<Rightarrow> u16 \<times> byte \<Rightarrow> bool" where
  "ep_app_match app k \<longleftrightarrow> (ap_port app, ap_ip_proto app) = k"

definition dpi_ep_app_map_lookup :: "io_ep \<Rightarrow> u16 \<Rightarrow> byte \<Rightarrow> io_app option" where
  "dpi_ep_app_map_lookup ep port ip_proto = rcu_map_lookup (ep_app_map ep) ep_app_hash ep_app_match (port, ip_proto)"

definition new_app :: "u16 \<Rightarrow> byte \<Rightarrow> io_app" where
  "new_app port ip_proto = \<lparr>ap_port = port, ap_proto = 0, ap_server = 0, ap_application = 0, ap_version = replicate 32 0,
     ap_listen = False, ap_ip_proto = ip_proto, ap_src = APP_SRC_DP\<rparr>"

definition ep_app_map_locate :: "bool \<Rightarrow> io_ep \<Rightarrow> u16 \<Rightarrow> byte \<Rightarrow> io_app option \<times> io_ep" where
  "ep_app_map_locate ok ep port ip_proto = (case dpi_ep_app_map_lookup ep port ip_proto of
      Some app \<Rightarrow> (Some app, ep)
    | None \<Rightarrow>
       if \<not> ok then (None, ep)
       else let app = new_app port ip_proto in
         (Some app, ep\<lparr>ep_app_ports := ep_app_ports ep + 1,
            ep_app_map := rcu_map_add (ep_app_map ep) ep_app_hash app (port, ip_proto)\<rparr>))"

text \<open>Writing through the pointer: an application is known by its port and protocol.\<close>
definition app_upd :: "io_app \<Rightarrow> (io_app \<Rightarrow> io_app) \<Rightarrow> io_ep \<Rightarrow> io_ep" where
  "app_upd app f ep = ep\<lparr>ep_app_map := rcu_map_upd (ep_app_map ep) (\<lambda>a. ep_app_match a (ap_port app, ap_ip_proto app)) f\<rparr>"

definition with_app :: "par_mem \<Rightarrow> pstate \<Rightarrow> (io_app \<Rightarrow> io_ep \<Rightarrow> io_ep option) \<Rightarrow> pstate option" where
  "with_app env x f =
     (if \<not> sess_flag x DPI_SESS_FLAG_INGRESS then Some x
      else case ep_app_map_locate (pm_app env) (x_ep x) (w_port (s_server (x_s x))) (s_ip_proto (x_s x)) of
          (None, ep) \<Rightarrow> Some (x\<lparr>x_ep := ep\<rparr>)
        | (Some app, ep) \<Rightarrow> map_option (\<lambda>ep'. x\<lparr>x_ep := ep'\<rparr>) (f app ep))"

definition dpi_ep_set_proto :: "par_mem \<Rightarrow> pstate \<Rightarrow> u16 \<Rightarrow> pstate option" where
  "dpi_ep_set_proto env x proto = with_app env x (\<lambda>app ep.
     Some (if proto \<noteq> 0 \<and> ap_proto app \<noteq> proto
           then (app_upd app (\<lambda>a. a\<lparr>ap_proto := proto\<rparr>) ep)\<lparr>ep_app_updated := 1\<rparr> else ep))"

definition dpi_ep_get_app :: "par_mem \<Rightarrow> pstate \<Rightarrow> u16 \<times> pstate" where
  "dpi_ep_get_app env x =
     (if \<not> sess_flag x DPI_SESS_FLAG_INGRESS then (0, x)
      else case ep_app_map_locate (pm_app env) (x_ep x) (w_port (s_server (x_s x))) (s_ip_proto (x_s x)) of
          (None, ep) \<Rightarrow> (0, x\<lparr>x_ep := ep\<rparr>)
        | (Some app, ep) \<Rightarrow> (ap_application app, x\<lparr>x_ep := ep\<rparr>))"

definition dpi_ep_set_app :: "par_mem \<Rightarrow> pstate \<Rightarrow> u16 \<Rightarrow> u16 \<Rightarrow> pstate option" where
  "dpi_ep_set_app env x server application = with_app env x (\<lambda>app ep.
     let ep1 = (if server \<noteq> 0 \<and> ap_server app \<noteq> server
                then (app_upd app (\<lambda>a. a\<lparr>ap_server := server\<rparr>) ep)\<lparr>ep_app_updated := 1\<rparr> else ep)
     in Some (if application \<noteq> 0 \<and> ap_application app \<noteq> application
              then (app_upd app (\<lambda>a. a\<lparr>ap_application := application\<rparr>) ep1)\<lparr>ep_app_updated := 1\<rparr> else ep1))"

definition SERVER_VER_SIZE :: int where "SERVER_VER_SIZE = 32"

text \<open>\<open>ver\<close> is the memory from the pointer on; a negative size becomes a large one.\<close>
definition dpi_ep_set_server_ver :: "par_mem \<Rightarrow> pstate \<Rightarrow> bytes \<Rightarrow> int \<Rightarrow> pstate option" where
  "dpi_ep_set_server_ver env x ver len = with_app env x (\<lambda>app ep. do {
     (v, _) \<leftarrow> strlcpy (ap_version app) ver (nat (min (len + 1) SERVER_VER_SIZE mod 2 ^ 64));
     Some (app_upd app (\<lambda>a. a\<lparr>ap_version := v\<rparr>) ep) })"

subsection \<open>Called by the parsers\<close>

definition BITMASK_UNSET :: "bytes \<Rightarrow> nat \<Rightarrow> bytes" where
  "BITMASK_UNSET var b = var[b div 8 := var ! (b div 8) AND NOT (push_bit (b mod 8) 1)]"

definition hired :: "pstate \<Rightarrow> nat \<Rightarrow> bool" where
  "hired x t = BITMASK_TEST (s_parser_bits (x_s x)) t"

definition dpi_get_parser_data :: "pstate \<Rightarrow> parser_data option option" where
  "dpi_get_parser_data x = map_option (\<lambda>t. x_data x ! t) (x_cur x)"

definition dpi_put_parser_data :: "pstate \<Rightarrow> parser_data \<Rightarrow> pstate option" where
  "dpi_put_parser_data x d = map_option (\<lambda>t. x\<lparr>x_data := (x_data x)[t := Some d]\<rparr>) (x_cur x)"

definition dpi_delete_parser_data :: "parser_desc \<Rightarrow> pstate \<Rightarrow> pstate" where
  "dpi_delete_parser_data cp x = (let t = d_type cp in
     x\<lparr>x_freed := (case x_data x ! t of Some d \<Rightarrow> if d_delete_data cp then x_freed x @ [d] else x_freed x | None \<Rightarrow> x_freed x),
       x_data := (x_data x)[t := None]\<rparr>)"

definition dpi_purge_parser_data :: "pstate \<Rightarrow> pstate" where
  "dpi_purge_parser_data x = fold (\<lambda>t x. case parser_at (s_ip_proto (x_s x)) t of
      None \<Rightarrow> x | Some cp \<Rightarrow> dpi_delete_parser_data cp x) [0 ..< DPI_PARSER_MAX] x"

definition dpi_hire_parser :: "pstate \<Rightarrow> pstate option" where
  "dpi_hire_parser x = map_option (\<lambda>t. x\<lparr>x_s := (x_s x)\<lparr>s_parser_bits := BITMASK_SET (s_parser_bits (x_s x)) t\<rparr>\<rparr>) (x_cur x)"

definition dpi_fire_parser :: "pstate \<Rightarrow> pstate option" where
  "dpi_fire_parser x = map_option (\<lambda>t. x\<lparr>x_s := (x_s x)\<lparr>s_parser_bits := BITMASK_UNSET (s_parser_bits (x_s x)) t\<rparr>\<rparr>) (x_cur x)"

definition dpi_ignore_parser :: "pstate \<Rightarrow> pstate option" where
  "dpi_ignore_parser x = map_option (\<lambda>t. x\<lparr>x_s := (x_s x)\<lparr>s_parser_bits := BITMASK_UNSET (s_parser_bits (x_s x)) t\<rparr>\<rparr>) (x_cur x)"

definition dpi_set_asm_seq :: "pstate \<Rightarrow> u32 \<Rightarrow> pstate" where
  "dpi_set_asm_seq x seq = x\<lparr>x_parser_asm_seq := seq\<rparr>"

definition dpi_is_parser_final :: "pstate \<Rightarrow> bool" where
  "dpi_is_parser_final x \<longleftrightarrow> sess_flag x DPI_SESS_FLAG_FINAL_PARSER"

text \<open>The loop of \<open>dpi_finalize_parser\<close> over the other parsers.\<close>
fun fire_others :: "nat \<Rightarrow> nat list \<Rightarrow> pstate \<Rightarrow> pstate option" where
  "fire_others me [] x = Some x"
| "fire_others me (t # ts) x =
     (if t \<noteq> me \<and> hired x t
      then do {
        cp \<leftarrow> parser_at (s_ip_proto (x_s x)) t;
        x1 \<leftarrow> dpi_fire_parser (x\<lparr>x_cur := Some t\<rparr>);
        fire_others me ts (dpi_delete_parser_data cp x1) }
      else fire_others me ts x)"

definition record_app :: "par_mem \<Rightarrow> nat \<Rightarrow> pstate \<Rightarrow> pstate option" where
  "record_app env me x = (let app = dpi_parser_2_app ! me in
     if dpi_is_base_app app then
       (if s_base_app (x_s x) = 0 then dpi_ep_set_proto env (x\<lparr>x_s := (x_s x)\<lparr>s_base_app := app\<rparr>\<rparr>) app else Some x)
     else dpi_ep_set_app env (x\<lparr>x_s := (x_s x)\<lparr>s_app := app\<rparr>\<rparr>) 0 app)"

definition dpi_finalize_parser :: "par_mem \<Rightarrow> pstate \<Rightarrow> pstate option" where
  "dpi_finalize_parser env x =
     (if dpi_is_parser_final x then Some x
      else do {
        me \<leftarrow> x_cur x;
        let x1 = set_flag DPI_SESS_FLAG_FINAL_PARSER x;
        x2 \<leftarrow> record_app env me (x1\<lparr>x_s := (x_s x1)\<lparr>s_only_parser := me\<rparr>\<rparr>);
        x3 \<leftarrow> fire_others me [0 ..< DPI_PARSER_MAX] (set_flag DPI_SESS_FLAG_POLICY_APP_READY x2);
        Some (x3\<lparr>x_left := 0, x_cur := Some me, x_asm_seq := w_next_seq (this_wing x3)\<rparr>) })"

text \<open>\<open>dpi_threat_trigger\<close> on the packet of a session.\<close>
definition par_threat :: "par_mem \<Rightarrow> dpi_threat \<Rightarrow> pstate \<Rightarrow> pstate option" where
  "par_threat env idx x = do {
     (lg, p1, ms) \<leftarrow> dpi_threat_trigger (pm_log env) (ep_tap (x_ep x)) idx (x_log x) (x_p x) (Some (x_s x));
     s1 \<leftarrow> ms;
     Some (x\<lparr>x_log := lg, x_p := p1, x_s := s1\<rparr>) }"

subsection \<open>Running the parsers\<close>

text \<open>The callbacks of the parser of a type, for a transport protocol.\<close>
record parser_cb =
  cb_new_session :: "pstate \<Rightarrow> pstate option"
  cb_parser :: "pstate \<Rightarrow> pstate option"
  cb_new_mid_sess :: "pstate \<Rightarrow> pstate option"
  cb_midstream :: "pstate \<Rightarrow> pstate option"

type_synonym parser_cbs = "byte \<Rightarrow> nat \<Rightarrow> parser_cb"

fun foldM :: "('a \<Rightarrow> 's \<Rightarrow> 's option) \<Rightarrow> 'a list \<Rightarrow> 's \<Rightarrow> 's option" where
  "foldM f [] s = Some s"
| "foldM f (a # as) s = do { s1 \<leftarrow> f a s; foldM f as s1 }"

definition set_cur :: "byte \<Rightarrow> nat \<Rightarrow> pstate \<Rightarrow> pstate" where
  "set_cur proto t x = x\<lparr>x_cur := (if parser_at proto t = None then None else Some t)\<rparr>"

definition dpi_recruit_parser :: "parser_cbs \<Rightarrow> pstate \<Rightarrow> pstate option" where
  "dpi_recruit_parser cbs x0 = (let proto = p_ip_proto (x_p x0) in
     foldM (\<lambda>t x. let x1 = set_cur proto t x in
       if parser_at proto t \<noteq> None then cb_new_session (cbs proto t) x1 else Some x1) [0 ..< DPI_PARSER_MAX] x0)"

definition has_midstream :: "byte \<Rightarrow> nat \<Rightarrow> bool" where
  "has_midstream proto t = (case parser_at proto t of None \<Rightarrow> False | Some d \<Rightarrow> d_midstream d)"

definition dpi_midstream_recruit_parser :: "parser_cbs \<Rightarrow> pstate \<Rightarrow> pstate option" where
  "dpi_midstream_recruit_parser cbs x0 = (let proto = p_ip_proto (x_p x0) in
     foldM (\<lambda>t x. let x1 = set_cur proto t x in
       if has_midstream proto t then cb_new_mid_sess (cbs proto t) x1 else Some x1) [0 ..< DPI_PARSER_MAX] x0)"

text \<open>The earliest position any parser still wants assembled.\<close>
definition cache_asm_seq :: "pstate \<Rightarrow> pstate" where
  "cache_asm_seq x = (if u32_lt (x_parser_asm_seq x) (x_asm_seq x) then x\<lparr>x_asm_seq := x_parser_asm_seq x\<rparr> else x)"

definition run_parser :: "parser_cbs \<Rightarrow> byte \<Rightarrow> nat \<Rightarrow> pstate \<Rightarrow> pstate option" where
  "run_parser cbs proto t x = cb_parser (cbs proto t) (x\<lparr>x_parser_asm_seq := w_asm_seq (this_wing x)\<rparr>)"

definition only_parser_step :: "parser_cbs \<Rightarrow> pstate \<Rightarrow> pstate option" where
  "only_parser_step cbs x = (let proto = p_ip_proto (x_p x); t = s_only_parser (x_s x); x1 = set_cur proto t x in
     case parser_at proto t of
       None \<Rightarrow> Some x1
     | Some cp \<Rightarrow> do {
         x2 \<leftarrow> run_parser cbs proto t x1;
         let x3 = (if \<not> hired x2 (s_only_parser (x_s x2))
                   then set_flag DPI_SESS_FLAG_POLICY_APP_READY (unset_flag DPI_SESS_FLAG_ONLY_PARSER
                          (set_flag DPI_SESS_FLAG_SKIP_PARSER (dpi_delete_parser_data cp x2)))
                   else x2);
         Some (cache_asm_seq x3) })"

text \<open>One round of the walk through all parsers; \<open>last\<close> is the last one that stays.\<close>
definition walk_step :: "parser_cbs \<Rightarrow> nat \<Rightarrow> pstate \<times> nat \<Rightarrow> (pstate \<times> nat) option" where
  "walk_step cbs t xl = (let (x, lst) = xl; proto = p_ip_proto (x_p x); x1 = set_cur proto t x in
     case parser_at proto t of
       None \<Rightarrow> Some (x1, lst)
     | Some cp \<Rightarrow>
         if \<not> hired x1 t then Some (x1, lst)
         else do {
           x2 \<leftarrow> run_parser cbs proto t x1;
           if hired x2 t then Some (cache_asm_seq (x2\<lparr>x_left := x_left x2 + 1\<rparr>), t)
           else Some (dpi_delete_parser_data cp x2, lst) })"

definition after_walk :: "nat \<Rightarrow> pstate \<Rightarrow> pstate" where
  "after_walk lst x =
     (if x_left x = 0 then set_flag DPI_SESS_FLAG_POLICY_APP_READY (set_flag DPI_SESS_FLAG_SKIP_PARSER x)
      else if x_left x = 1 then
        let x1 = set_flag DPI_SESS_FLAG_LAST_PARSER x in x1\<lparr>x_s := (x_s x1)\<lparr>s_only_parser := lst\<rparr>\<rparr>
      else x)"

definition dpi_proto_parser :: "parser_cbs \<Rightarrow> pstate \<Rightarrow> pstate option" where
  "dpi_proto_parser cbs x = (let assembled = FLAGS_TEST (p_flags (x_p x)) DPI_PKT_FLAG_ASSEMBLED in do {
     let x1 = (if assembled then x\<lparr>x_asm := True\<rparr> else x);
     let x2 = x1\<lparr>x_asm_seq := w_next_seq (this_wing x1)\<rparr>;
     x3 \<leftarrow> (if sess_flag x2 DPI_SESS_FLAG_ONLY_PARSER then only_parser_step cbs x2
            else map_option (\<lambda>(x, lst). after_walk lst x)
                   (foldM (walk_step cbs) [0 ..< DPI_PARSER_MAX] (x2\<lparr>x_left := 0\<rparr>, 0)));
     let x4 = upd_wing (\<lambda>w. w\<lparr>w_asm_seq := x_asm_seq x3\<rparr>) x3;
     Some (if FLAGS_TEST (p_flags (x_p x4)) DPI_PKT_FLAG_ASSEMBLED then x4\<lparr>x_asm := False\<rparr> else x4) })"

definition mid_step :: "parser_cbs \<Rightarrow> nat \<Rightarrow> pstate \<times> nat \<Rightarrow> (pstate \<times> nat) option" where
  "mid_step cbs t xl = (let (x, lst) = xl; proto = p_ip_proto (x_p x); x1 = set_cur proto t x in
     if \<not> has_midstream proto t then Some (x1, lst)
     else do {
       x2 \<leftarrow> cb_midstream (cbs proto t) x1;
       if hired x2 t then Some (x2\<lparr>x_left := x_left x2 + 1\<rparr>, t) else Some (x2, lst) })"

text \<open>A parser without \<open>midstream\<close> that is the only one has its null pointer called.\<close>
definition dpi_midstream_proto_praser :: "parser_cbs \<Rightarrow> pstate \<Rightarrow> pstate option" where
  "dpi_midstream_proto_praser cbs x =
     (if sess_flag x DPI_SESS_FLAG_ONLY_PARSER then
        let proto = p_ip_proto (x_p x); t = s_only_parser (x_s x); x1 = set_cur proto t x in do {
          x2 \<leftarrow> (case parser_at proto t of None \<Rightarrow> Some x1
                  | Some cp \<Rightarrow> if d_midstream cp then cb_midstream (cbs proto t) x1 else None);
          Some (if \<not> hired x2 (s_only_parser (x_s x2))
                then unset_flag DPI_SESS_FLAG_ONLY_PARSER (set_flag DPI_SESS_FLAG_SKIP_PARSER x2) else x2) }
      else do {
        (x2, lst) \<leftarrow> foldM (mid_step cbs) [0 ..< DPI_PARSER_MAX] (x\<lparr>x_left := 0\<rparr>, 0);
        Some (if x_left x2 = 0 then set_flag DPI_SESS_FLAG_SKIP_PARSER x2
              else if x_left x2 = 1 then
                let x3 = set_flag DPI_SESS_FLAG_LAST_PARSER x2 in x3\<lparr>x_s := (x_s x3)\<lparr>s_only_parser := lst\<rparr>\<rparr>
              else x2) })"

definition dpi_pkt_proto_parser :: "parser_cbs \<Rightarrow> pstate \<Rightarrow> pstate option" where
  "dpi_pkt_proto_parser cbs x =
     (if sess_flag x DPI_SESS_FLAG_SKIP_PARSER then Some x
      else do {
        x1 \<leftarrow> (if FLAGS_TEST (p_flags (x_p x)) DPI_PKT_FLAG_NEW_SESSION
               then if sess_flag x DPI_SESS_FLAG_MID_STREAM then dpi_midstream_recruit_parser cbs x else dpi_recruit_parser cbs x
               else Some x);
        if \<not> FLAGS_TEST (p_flags (x_p x1)) DPI_PKT_FLAG_SKIP_PARSER \<and> b_data (p_raw (x_p x1)) \<noteq> []
        then if sess_flag x1 DPI_SESS_FLAG_MID_STREAM then dpi_midstream_proto_praser cbs x1 else dpi_proto_parser cbs x1
        else Some x1 })"

end
