(* ===== verification/DP_ParserProps.thy ===== *)
theory DP_ParserProps
  imports DP_Parser DP_PacketProps
begin

text \<open>
  What the framework of the protocol parsers keeps, whatever the parsers do inside of their contract: the set of the
  hired parsers only shrinks, the data of a parser goes when the parser goes, and the session's flags say how many
  are left.
\<close>

subsection \<open>Hired parsers\<close>

lemma BITMASK_UNSET_test:
  assumes "b < 8 * length m" "c < 8 * length m"
  shows "BITMASK_TEST (BITMASK_UNSET m b) c \<longleftrightarrow> BITMASK_TEST m c \<and> c \<noteq> b"
proof -
  have p: "bit (push_bit j 1 :: byte) k \<longleftrightarrow> j = k" if "j < 8" "k < 8" for j k using that by (auto simp: bit_simps)
  have m: "b mod 8 < 8" "c mod 8 < 8" by simp_all
  have l: "b div 8 < length m" using assms(1) by (simp add: less_mult_imp_div_less mult.commute)
  show ?thesis
  proof (cases "b div 8 = c div 8")
    case True
    have e: "c = b \<longleftrightarrow> b mod 8 = c mod 8" using True by (metis div_mod_decomp)
    have "bit (x AND NOT (push_bit (b mod 8) 1)) (c mod 8) \<longleftrightarrow> bit x (c mod 8) \<and> \<not> b mod 8 = c mod 8" for x :: byte
      by (simp only: bit_and_iff bit_not_iff possible_bit_word p[OF m]) (use m(2) in auto)
    then show ?thesis using True l e unfolding BITMASK_TEST_bit BITMASK_UNSET_def by simp
  next
    case False
    then show ?thesis by (auto simp: BITMASK_TEST_bit BITMASK_UNSET_def)
  qed
qed

lemma parser_at_type:
  assumes "parser_at proto t = Some d" and "t < DPI_PARSER_MAX"
  shows "d_type d = t"
proof -
  have "\<forall>l\<in>{G_tcp_parser, G_udp_parser, G_any_parser}. \<forall>t\<in>set [0 ..< DPI_PARSER_MAX].
     case dpi_parser_setup l ! t of None \<Rightarrow> True | Some d \<Rightarrow> d_type d = t"
    by code_simp
  moreover have "get_parser_list proto \<in> {G_tcp_parser, G_udp_parser, G_any_parser}"
    by (simp add: get_parser_list_def)
  moreover have "t \<in> set [0 ..< DPI_PARSER_MAX]" using assms(2) by simp
  ultimately have "case dpi_parser_setup (get_parser_list proto) ! t of None \<Rightarrow> True | Some d \<Rightarrow> d_type d = t" by blast
  then show ?thesis using assms(1) by (simp add: parser_at_def)
qed

definition team :: "pstate \<Rightarrow> nat set" where
  "team x = {t. t < DPI_PARSER_MAX \<and> hired x t}"

text \<open>Arrays of the right size, and only registered parsers hired.\<close>
definition pst_ok :: "pstate \<Rightarrow> bool" where
  "pst_ok x \<longleftrightarrow> length (s_parser_bits (x_s x)) = 3 \<and> length (x_data x) = DPI_PARSER_MAX \<and>
     s_ip_proto (x_s x) = p_ip_proto (x_p x) \<and> s_only_parser (x_s x) < DPI_PARSER_MAX \<and>
     (\<forall>t\<in>team x. parser_at (p_ip_proto (x_p x)) t \<noteq> None)"

lemma bits24: "t < DPI_PARSER_MAX \<Longrightarrow> length (s_parser_bits (x_s x)) = 3 \<Longrightarrow> t < 8 * length (s_parser_bits (x_s x))"
  by (simp add: DPI_PARSER_MAX_def)

lemma fire_spec:
  assumes "x_cur x = Some t" "t < DPI_PARSER_MAX" "length (s_parser_bits (x_s x)) = 3"
  shows "dpi_fire_parser x = Some (x\<lparr>x_s := (x_s x)\<lparr>s_parser_bits := BITMASK_UNSET (s_parser_bits (x_s x)) t\<rparr>\<rparr>)"
    and "team (x\<lparr>x_s := (x_s x)\<lparr>s_parser_bits := BITMASK_UNSET (s_parser_bits (x_s x)) t\<rparr>\<rparr>) = team x - {t}"
    and "length (BITMASK_UNSET (s_parser_bits (x_s x)) t) = 3"
  using assms BITMASK_UNSET_test[OF bits24 bits24] by (auto simp: dpi_fire_parser_def team_def hired_def BITMASK_UNSET_def)

lemma hire_spec:
  assumes "x_cur x = Some t" "t < DPI_PARSER_MAX" "length (s_parser_bits (x_s x)) = 3"
  shows "dpi_hire_parser x = Some (x\<lparr>x_s := (x_s x)\<lparr>s_parser_bits := BITMASK_SET (s_parser_bits (x_s x)) t\<rparr>\<rparr>)"
    and "team (x\<lparr>x_s := (x_s x)\<lparr>s_parser_bits := BITMASK_SET (s_parser_bits (x_s x)) t\<rparr>\<rparr>) = insert t (team x)"
    and "length (BITMASK_SET (s_parser_bits (x_s x)) t) = 3"
  using assms BITMASK_SET_test[OF bits24 bits24] by (auto simp: dpi_hire_parser_def team_def hired_def BITMASK_SET_def)

text \<open>Two states that differ in the bits of the parsers, in their data and in the current parser.\<close>
definition core :: "pstate \<Rightarrow> pstate" where
  "core x = x\<lparr>x_s := (x_s x)\<lparr>s_parser_bits := []\<rparr>, x_data := [], x_cur := None, x_freed := []\<rparr>"

abbreviation same_rest :: "pstate \<Rightarrow> pstate \<Rightarrow> bool" where
  "same_rest x y \<equiv> core x = core y"

lemma same_restD:
  assumes "same_rest x y"
  shows "x_p x = x_p y" "x_left x = x_left y" "x_asm_seq x = x_asm_seq y" "x_parser_asm_seq x = x_parser_asm_seq y"
    "x_asm_pkt x = x_asm_pkt y" "x_asm x = x_asm y" "x_ep x = x_ep y" "x_log x = x_log y"
    "(x_s x)\<lparr>s_parser_bits := []\<rparr> = (x_s y)\<lparr>s_parser_bits := []\<rparr>"
    "s_flags (x_s x) = s_flags (x_s y)" "s_only_parser (x_s x) = s_only_parser (x_s y)" "s_ip_proto (x_s x) = s_ip_proto (x_s y)"
    "s_client (x_s x) = s_client (x_s y)" "s_server (x_s x) = s_server (x_s y)" "this_wing x = this_wing y"
proof -
  have 1: "x_p x = x_p y" using arg_cong[OF assms, of x_p] by (simp add: core_def)
  have 2: "s_client (x_s x) = s_client (x_s y)" using arg_cong[OF assms, of "\<lambda>x. s_client (x_s x)"] by (simp add: core_def)
  have 3: "s_server (x_s x) = s_server (x_s y)" using arg_cong[OF assms, of "\<lambda>x. s_server (x_s x)"] by (simp add: core_def)
  show "x_p x = x_p y" "s_client (x_s x) = s_client (x_s y)" "s_server (x_s x) = s_server (x_s y)" by (rule 1 2 3)+
  show "this_wing x = this_wing y" by (simp add: this_wing_def 1 2 3)
  show "x_left x = x_left y" using arg_cong[OF assms, of x_left] by (simp add: core_def)
  show "x_asm_seq x = x_asm_seq y" using arg_cong[OF assms, of x_asm_seq] by (simp add: core_def)
  show "x_parser_asm_seq x = x_parser_asm_seq y" using arg_cong[OF assms, of x_parser_asm_seq] by (simp add: core_def)
  show "x_asm_pkt x = x_asm_pkt y" using arg_cong[OF assms, of x_asm_pkt] by (simp add: core_def)
  show "x_asm x = x_asm y" using arg_cong[OF assms, of x_asm] by (simp add: core_def)
  show "x_ep x = x_ep y" using arg_cong[OF assms, of x_ep] by (simp add: core_def)
  show "x_log x = x_log y" using arg_cong[OF assms, of x_log] by (simp add: core_def)
  show s: "(x_s x)\<lparr>s_parser_bits := []\<rparr> = (x_s y)\<lparr>s_parser_bits := []\<rparr>"
    using arg_cong[OF assms, of x_s] by (simp add: core_def)
  show "s_flags (x_s x) = s_flags (x_s y)" using arg_cong[OF s, of s_flags] by simp
  show "s_only_parser (x_s x) = s_only_parser (x_s y)" using arg_cong[OF s, of s_only_parser] by simp
  show "s_ip_proto (x_s x) = s_ip_proto (x_s y)" using arg_cong[OF s, of s_ip_proto] by simp
qed

lemma fire_others_spec:
  "pst_ok x \<Longrightarrow> set ts \<subseteq> {..<DPI_PARSER_MAX} \<Longrightarrow>
   \<exists>y. fire_others me ts x = Some y \<and> same_rest x y \<and> length (s_parser_bits (x_s y)) = 3 \<and> length (x_data y) = DPI_PARSER_MAX \<and>
     team y = team x - (set ts - {me}) \<and>
     (\<forall>t<DPI_PARSER_MAX. x_data y ! t = (if t \<in> set ts - {me} \<and> t \<in> team x then None else x_data x ! t))"
proof (induction ts arbitrary: x)
  case Nil
  then show ?case by (auto simp: pst_ok_def)
next
  case (Cons t ts)
  have t: "t < DPI_PARSER_MAX" using Cons.prems(2) by simp
  have len: "length (s_parser_bits (x_s x)) = 3" using Cons.prems(1) by (simp add: pst_ok_def)
  show ?case
  proof (cases "t \<noteq> me \<and> hired x t")
    case True
    then have tt: "t \<in> team x" using t by (simp add: team_def)
    then obtain cp where cp: "parser_at (s_ip_proto (x_s x)) t = Some cp" using Cons.prems(1) by (auto simp: pst_ok_def)
    define x1 where "x1 = x\<lparr>x_cur := Some t, x_s := (x_s x)\<lparr>s_parser_bits := BITMASK_UNSET (s_parser_bits (x_s x)) t\<rparr>\<rparr>"
    define x2 where "x2 = dpi_delete_parser_data cp x1"
    note f = fire_spec[of "x\<lparr>x_cur := Some t\<rparr>" t, simplified, OF t len, folded x1_def]
    have ty: "d_type cp = t" using parser_at_type[OF cp t] .
    have team2: "team x2 = team x - {t}"
      using f(2) by (simp add: team_def hired_def dpi_delete_parser_data_def Let_def x2_def)
    have ok2: "pst_ok x2"
      using Cons.prems(1) f(3) team2 by (auto simp: pst_ok_def dpi_delete_parser_data_def Let_def x2_def x1_def)
    have r2: "same_rest x x2" by (simp add: core_def dpi_delete_parser_data_def Let_def x2_def x1_def)
    have d2: "x_data x2 = (x_data x)[t := None]" by (simp add: dpi_delete_parser_data_def Let_def ty x2_def x1_def)
    obtain y where y: "fire_others me ts x2 = Some y" "same_rest x2 y" "length (s_parser_bits (x_s y)) = 3"
      "length (x_data y) = DPI_PARSER_MAX" "team y = team x2 - (set ts - {me})"
      "\<forall>u<DPI_PARSER_MAX. x_data y ! u = (if u \<in> set ts - {me} \<and> u \<in> team x2 then None else x_data x2 ! u)"
      using Cons.IH[OF ok2] Cons.prems(2) by auto
    have "fire_others me (t # ts) x = Some y" using True cp f(1) y(1) by (simp add: x2_def)
    moreover have "x_data y ! u = (if u \<in> set (t # ts) - {me} \<and> u \<in> team x then None else x_data x ! u)"
      if "u < DPI_PARSER_MAX" for u
      using y(6)[rule_format, OF that] that True tt Cons.prems(1)
      by (cases "u = t") (auto simp: team2 d2 pst_ok_def)
    ultimately show ?thesis using y(3-5) trans[OF r2 y(2)] True by (auto simp: team2)
  next
    case False
    obtain y where y: "fire_others me ts x = Some y" "same_rest x y" "length (s_parser_bits (x_s y)) = 3"
      "length (x_data y) = DPI_PARSER_MAX" "team y = team x - (set ts - {me})"
      "\<forall>u<DPI_PARSER_MAX. x_data y ! u = (if u \<in> set ts - {me} \<and> u \<in> team x then None else x_data x ! u)"
      using Cons.IH[OF Cons.prems(1)] Cons.prems(2) by auto
    have "fire_others me (t # ts) x = Some y" using False y(1) by auto
    moreover have "t = me \<or> t \<notin> team x" using False t by (auto simp: team_def)
    ultimately show ?thesis using y(2-6) by (intro exI[of _ y]) auto
  qed
qed

subsection \<open>The contract of a parser\<close>

lemma flag_or: "FLAGS_TEST (f OR g) h \<longleftrightarrow> FLAGS_TEST f h \<or> FLAGS_TEST g h"
  by (simp add: FLAGS_TEST_def bit.conj_disj_distrib2 or_eq_0_iff)

lemma with_app_spec:
  assumes "\<And>app ep. f app ep \<noteq> None"
  shows "\<exists>ep. with_app env x f = Some (x\<lparr>x_ep := ep\<rparr>)"
proof (cases "sess_flag x DPI_SESS_FLAG_INGRESS")
  case True
  obtain r ep where l: "ep_app_map_locate (pm_app env) (x_ep x) (w_port (s_server (x_s x))) (s_ip_proto (x_s x)) = (r, ep)"
    by fastforce
  show ?thesis
  proof (cases r)
    case (Some a)
    then obtain ep' where "f a ep = Some ep'" using assms[of a ep] by blast
    then show ?thesis using True l Some by (intro exI[of _ ep']) (simp add: with_app_def)
  qed (use True l in \<open>auto simp: with_app_def\<close>)
next
  case False
  then show ?thesis by (intro exI[of _ "x_ep x"]) (simp add: with_app_def)
qed

lemma record_app_spec:
  "\<exists>ep ba ap. record_app env me x = Some (x\<lparr>x_s := (x_s x)\<lparr>s_base_app := ba, s_app := ap\<rparr>, x_ep := ep\<rparr>)"
proof (cases "dpi_is_base_app (dpi_parser_2_app ! me)")
  case True
  show ?thesis
  proof (cases "s_base_app (x_s x) = 0")
    case z: True
    define y where "y = x\<lparr>x_s := (x_s x)\<lparr>s_base_app := dpi_parser_2_app ! me\<rparr>\<rparr>"
    obtain ep where "dpi_ep_set_proto env y (dpi_parser_2_app ! me) = Some (y\<lparr>x_ep := ep\<rparr>)"
      unfolding dpi_ep_set_proto_def using with_app_spec[of _ env y] by fastforce
    then show ?thesis using True z unfolding record_app_def Let_def y_def[symmetric]
      by (intro exI[of _ ep] exI[of _ "dpi_parser_2_app ! me"] exI[of _ "s_app (x_s x)"]) (simp add: y_def)
  next
    case nz: False
    then show ?thesis using True unfolding record_app_def Let_def
      by (intro exI[of _ "x_ep x"] exI[of _ "s_base_app (x_s x)"] exI[of _ "s_app (x_s x)"]) simp
  qed
next
  case False
  define y where "y = x\<lparr>x_s := (x_s x)\<lparr>s_app := dpi_parser_2_app ! me\<rparr>\<rparr>"
  obtain ep where "dpi_ep_set_app env y 0 (dpi_parser_2_app ! me) = Some (y\<lparr>x_ep := ep\<rparr>)"
    unfolding dpi_ep_set_app_def Let_def using with_app_spec[of _ env y] by fastforce
  then show ?thesis using False unfolding record_app_def Let_def y_def[symmetric]
    by (intro exI[of _ ep] exI[of _ "s_base_app (x_s x)"] exI[of _ "dpi_parser_2_app ! me"]) (simp add: y_def)
qed

definition final_flags :: u16 where
  "final_flags = DPI_SESS_FLAG_FINAL_PARSER OR DPI_SESS_FLAG_POLICY_APP_READY"

lemma finalize_spec:
  assumes ok: "pst_ok x" and cur: "x_cur x = Some me" and me: "me < DPI_PARSER_MAX" and nf: "\<not> dpi_is_parser_final x"
  shows "\<exists>y. dpi_finalize_parser env x = Some y \<and> x_cur y = Some me \<and> x_p y = x_p x \<and> x_log y = x_log x \<and> x_left y = 0 \<and>
    x_asm_seq y = w_next_seq (this_wing x) \<and> x_parser_asm_seq y = x_parser_asm_seq x \<and> x_asm y = x_asm x \<and> x_asm_pkt y = x_asm_pkt x \<and>
    s_client (x_s y) = s_client (x_s x) \<and> s_server (x_s y) = s_server (x_s x) \<and>
    s_flags (x_s y) = s_flags (x_s x) OR final_flags \<and> s_only_parser (x_s y) = me \<and> s_ip_proto (x_s y) = s_ip_proto (x_s x) \<and>
    length (s_parser_bits (x_s y)) = 3 \<and> length (x_data y) = DPI_PARSER_MAX \<and> team y = team x \<inter> {me} \<and>
    (\<forall>t<DPI_PARSER_MAX. x_data y ! t = (if t \<noteq> me \<and> t \<in> team x then None else x_data x ! t))"
proof -
  define x1 where "x1 = (set_flag DPI_SESS_FLAG_FINAL_PARSER x)\<lparr>x_s := (x_s (set_flag DPI_SESS_FLAG_FINAL_PARSER x))\<lparr>s_only_parser := me\<rparr>\<rparr>"
  obtain ep ba ap where r: "record_app env me x1 = Some (x1\<lparr>x_s := (x_s x1)\<lparr>s_base_app := ba, s_app := ap\<rparr>, x_ep := ep\<rparr>)"
    using record_app_spec by blast
  define x2 where "x2 = set_flag DPI_SESS_FLAG_POLICY_APP_READY (x1\<lparr>x_s := (x_s x1)\<lparr>s_base_app := ba, s_app := ap\<rparr>, x_ep := ep\<rparr>)"
  have t2: "team x2 = team x" by (simp add: team_def hired_def x2_def x1_def set_flag_def)
  have ok2: "pst_ok x2" using ok me t2 by (simp add: pst_ok_def x2_def x1_def set_flag_def)
  obtain y where y: "fire_others me [0 ..< DPI_PARSER_MAX] x2 = Some y" "same_rest x2 y" "length (s_parser_bits (x_s y)) = 3"
      "length (x_data y) = DPI_PARSER_MAX" "team y = team x2 - ({0 ..< DPI_PARSER_MAX} - {me})"
      "\<forall>u<DPI_PARSER_MAX. x_data y ! u = (if u \<in> {0 ..< DPI_PARSER_MAX} - {me} \<and> u \<in> team x2 then None else x_data x2 ! u)"
  proof -
    have "set [0 ..< DPI_PARSER_MAX] \<subseteq> {..<DPI_PARSER_MAX}" by auto
    from fire_others_spec[OF ok2 this, of me, unfolded set_upt] show ?thesis using that by blast
  qed
  note e = same_restD[OF y(2)]
  have w: "this_wing x2 = this_wing x" by (simp add: this_wing_def x2_def x1_def set_flag_def)
  define z where "z = y\<lparr>x_left := 0, x_cur := Some me, x_asm_seq := w_next_seq (this_wing y)\<rparr>"
  have "dpi_finalize_parser env x = Some z"
    using nf cur r y(1) by (simp add: dpi_finalize_parser_def x1_def[symmetric] x2_def[symmetric] z_def)
  moreover have "x_p z = x_p x" "x_log z = x_log x" "x_parser_asm_seq z = x_parser_asm_seq x" "x_asm z = x_asm x"
      "x_asm_pkt z = x_asm_pkt x" "s_client (x_s z) = s_client (x_s x)" "s_server (x_s z) = s_server (x_s x)"
      "s_only_parser (x_s z) = me" "s_ip_proto (x_s z) = s_ip_proto (x_s x)"
    using e(1,8,4,6,5,13,14,11,12) by (simp_all add: z_def x2_def x1_def set_flag_def)
  moreover have "s_flags (x_s z) = s_flags (x_s x) OR final_flags"
    using e(10) by (simp add: z_def x2_def x1_def set_flag_def final_flags_def or.assoc)
  moreover have "x_cur z = Some me" "x_left z = 0" "x_asm_seq z = w_next_seq (this_wing x)"
      "length (s_parser_bits (x_s z)) = 3" "length (x_data z) = DPI_PARSER_MAX"
    using e(15) w y(3,4) by (simp_all add: z_def)
  moreover have "team z = team x \<inter> {me}"
  proof -
    have "team z = team y" by (simp add: team_def hired_def z_def)
    moreover have "team x \<subseteq> {0 ..< DPI_PARSER_MAX}" by (auto simp: team_def)
    ultimately show ?thesis using y(5) unfolding t2 by blast
  qed
  moreover have "x_data x2 = x_data x" by (simp add: x2_def x1_def set_flag_def)
  then have "\<forall>t<DPI_PARSER_MAX. x_data z ! t = (if t \<noteq> me \<and> t \<in> team x then None else x_data x ! t)"
    using y(6) t2 by (simp add: z_def)
  ultimately show ?thesis by blast
qed

text \<open>What a callback of the parser \<open>t\<close> may do: lose interest, or finalize, which dismisses the others. It neither
  hires nor touches the other parsers' data otherwise, and it leaves the counters of the walk alone.\<close>
definition stays :: "nat \<Rightarrow> pstate \<Rightarrow> pstate \<Rightarrow> bool" where
  "stays t x y \<longleftrightarrow> s_flags (x_s y) = s_flags (x_s x) \<and> s_only_parser (x_s y) = s_only_parser (x_s x) \<and>
     x_left y = x_left x \<and> x_asm_seq y = x_asm_seq x \<and> (team y = team x \<or> team y = team x - {t}) \<and>
     (\<forall>u<DPI_PARSER_MAX. u \<noteq> t \<longrightarrow> x_data y ! u = x_data x ! u)"

definition finalized :: "nat \<Rightarrow> pstate \<Rightarrow> pstate \<Rightarrow> bool" where
  "finalized t x y \<longleftrightarrow> \<not> dpi_is_parser_final x \<and> s_flags (x_s y) = s_flags (x_s x) OR final_flags \<and> s_only_parser (x_s y) = t \<and>
     x_left y = 0 \<and> x_asm_seq y = w_next_seq (this_wing x) \<and> team y \<subseteq> team x \<inter> {t} \<and>
     (\<forall>u<DPI_PARSER_MAX. u \<noteq> t \<longrightarrow> x_data y ! u = (if u \<in> team x then None else x_data x ! u))"

definition obeys :: "nat \<Rightarrow> pstate \<Rightarrow> pstate \<Rightarrow> bool" where
  "obeys t x y \<longleftrightarrow> x_cur y = Some t \<and> p_ip_proto (x_p y) = p_ip_proto (x_p x) \<and> dpi_is_client_pkt (x_p y) = dpi_is_client_pkt (x_p x) \<and>
     FLAGS_TEST (p_flags (x_p y)) DPI_PKT_FLAG_ASSEMBLED = FLAGS_TEST (p_flags (x_p x)) DPI_PKT_FLAG_ASSEMBLED \<and> x_asm y = x_asm x \<and>
     s_ip_proto (x_s y) = s_ip_proto (x_s x) \<and> s_client (x_s y) = s_client (x_s x) \<and> s_server (x_s y) = s_server (x_s x) \<and>
     length (s_parser_bits (x_s y)) = 3 \<and> length (x_data y) = DPI_PARSER_MAX \<and> (stays t x y \<or> finalized t x y)"

lemma final_flags_final: "dpi_is_parser_final x \<Longrightarrow> s_flags (x_s y) = s_flags (x_s x) \<Longrightarrow> dpi_is_parser_final y"
  by (simp add: dpi_is_parser_final_def)

lemma finalized_final: "finalized t x y \<Longrightarrow> dpi_is_parser_final y"
proof -
  assume "finalized t x y"
  then have "s_flags (x_s y) = s_flags (x_s x) OR final_flags" by (simp add: finalized_def)
  moreover have "FLAGS_TEST final_flags DPI_SESS_FLAG_FINAL_PARSER" by (simp add: final_flags_def FLAGS_TEST_def flag_consts)
  ultimately show ?thesis by (simp add: dpi_is_parser_final_def flag_or)
qed

lemma obeys_team: "obeys t x y \<Longrightarrow> team y \<subseteq> team x"
  unfolding obeys_def stays_def finalized_def by blast

lemma obeys_ok: "obeys t x y \<Longrightarrow> pst_ok x \<Longrightarrow> t < DPI_PARSER_MAX \<Longrightarrow> pst_ok y"
  using obeys_team[of t x y] unfolding pst_ok_def obeys_def stays_def finalized_def by (elim conjE disjE) auto

lemma obeys_wing: "obeys t x y \<Longrightarrow> this_wing y = this_wing x"
  by (simp add: obeys_def this_wing_def)

lemma obeys_refl: "pst_ok x \<Longrightarrow> x_cur x = Some t \<Longrightarrow> obeys t x x"
  by (simp add: obeys_def stays_def pst_ok_def)

lemma stays_final: "stays t x y \<Longrightarrow> dpi_is_parser_final y = dpi_is_parser_final x"
  by (simp add: stays_def dpi_is_parser_final_def)

lemma obeys_trans [trans]:
  assumes 1: "obeys t x y" and 2: "obeys t y z"
  shows "obeys t x z"
proof -
  have "stays t x z \<or> finalized t x z"
  proof (cases "stays t x y")
    case k1: True
    show ?thesis
    proof (cases "stays t y z")
      case True
      then show ?thesis using k1 by (auto simp: stays_def)
    next
      case False
      then have f: "finalized t y z" using 2 by (simp add: obeys_def)
      have "team z \<subseteq> team x \<inter> {t}" using f k1 by (auto simp: finalized_def stays_def)
      moreover have "\<forall>u<DPI_PARSER_MAX. u \<noteq> t \<longrightarrow> x_data z ! u = (if u \<in> team x then None else x_data x ! u)"
        using f k1 by (auto simp: finalized_def stays_def)
      ultimately show ?thesis
        using f k1 stays_final[OF k1] obeys_wing[OF 1] by (simp add: finalized_def stays_def)
    qed
  next
    case False
    then have f: "finalized t x y" using 1 by (simp add: obeys_def)
    then have "dpi_is_parser_final y" by (rule finalized_final)
    then have "\<not> finalized t y z" by (simp add: finalized_def)
    then have k: "stays t y z" using 2 by (simp add: obeys_def)
    have "team z \<subseteq> team x \<inter> {t}" using f k unfolding finalized_def stays_def by blast
    moreover have "\<forall>u<DPI_PARSER_MAX. u \<noteq> t \<longrightarrow> x_data z ! u = (if u \<in> team x then None else x_data x ! u)"
      using f k by (simp add: finalized_def stays_def)
    ultimately show ?thesis using f k by (simp add: finalized_def stays_def)
  qed
  then show ?thesis using 1 2 by (simp add: obeys_def)
qed

lemma obeys_fire:
  assumes "pst_ok x" "x_cur x = Some t" "t < DPI_PARSER_MAX"
  shows "\<exists>y. dpi_fire_parser x = Some y \<and> obeys t x y \<and> team y = team x - {t} \<and> x_data y = x_data x"
proof -
  have l: "length (s_parser_bits (x_s x)) = 3" "length (x_data x) = DPI_PARSER_MAX" using assms(1) by (simp_all add: pst_ok_def)
  define y where "y = x\<lparr>x_s := (x_s x)\<lparr>s_parser_bits := BITMASK_UNSET (s_parser_bits (x_s x)) t\<rparr>\<rparr>"
  note f = fire_spec[OF assms(2,3) l(1), folded y_def]
  have "obeys t x y" using f(2) l assms(2) by (simp add: obeys_def stays_def y_def BITMASK_UNSET_def)
  then show ?thesis using f(1,2) by (simp add: y_def)
qed

lemma ignore_fire: "dpi_ignore_parser x = dpi_fire_parser x"
  by (simp add: dpi_ignore_parser_def dpi_fire_parser_def)

lemma obeys_finalize:
  assumes "pst_ok x" "x_cur x = Some t" "t < DPI_PARSER_MAX"
  shows "\<exists>y. dpi_finalize_parser env x = Some y \<and> obeys t x y \<and> x_p y = x_p x \<and> x_log y = x_log x \<and> x_asm_pkt y = x_asm_pkt x \<and>
    x_parser_asm_seq y = x_parser_asm_seq x \<and> x_data y ! t = x_data x ! t \<and> dpi_is_parser_final y"
proof (cases "dpi_is_parser_final x")
  case True
  then show ?thesis using obeys_refl[OF assms(1,2)] by (simp add: dpi_finalize_parser_def)
next
  case False
  obtain y where y: "dpi_finalize_parser env x = Some y \<and> x_cur y = Some t \<and> x_p y = x_p x \<and> x_log y = x_log x \<and> x_left y = 0 \<and>
    x_asm_seq y = w_next_seq (this_wing x) \<and> x_parser_asm_seq y = x_parser_asm_seq x \<and> x_asm y = x_asm x \<and> x_asm_pkt y = x_asm_pkt x \<and>
    s_client (x_s y) = s_client (x_s x) \<and> s_server (x_s y) = s_server (x_s x) \<and>
    s_flags (x_s y) = s_flags (x_s x) OR final_flags \<and> s_only_parser (x_s y) = t \<and> s_ip_proto (x_s y) = s_ip_proto (x_s x) \<and>
    length (s_parser_bits (x_s y)) = 3 \<and> length (x_data y) = DPI_PARSER_MAX \<and> team y = team x \<inter> {t} \<and>
    (\<forall>u<DPI_PARSER_MAX. x_data y ! u = (if u \<noteq> t \<and> u \<in> team x then None else x_data x ! u))"
    using finalize_spec[OF assms False] by blast
  then have "finalized t x y" using False by (auto simp: finalized_def)
  then show ?thesis using y finalized_final assms(3) by (auto simp: obeys_def)
qed

lemma obeys_put:
  assumes "pst_ok x" "x_cur x = Some t" "t < DPI_PARSER_MAX"
  shows "dpi_put_parser_data x d = Some (x\<lparr>x_data := (x_data x)[t := Some d]\<rparr>)"
    "obeys t x (x\<lparr>x_data := (x_data x)[t := Some d]\<rparr>)"
  using assms by (simp_all add: dpi_put_parser_data_def obeys_def stays_def pst_ok_def team_def hired_def)

lemma obeys_asm_seq: "pst_ok x \<Longrightarrow> x_cur x = Some t \<Longrightarrow> obeys t x (dpi_set_asm_seq x seq)"
  by (simp add: dpi_set_asm_seq_def obeys_def stays_def pst_ok_def team_def hired_def)

lemma obeys_ep: "pst_ok x \<Longrightarrow> x_cur x = Some t \<Longrightarrow> obeys t x (x\<lparr>x_ep := ep\<rparr>)"
  by (simp add: obeys_def stays_def pst_ok_def team_def hired_def)

lemma trigger_marks:
  assumes "dpi_threat_trigger ok tap idx st p (Some s) = Some (st', p', ms)"
  shows "(p', ms) = (dpi_set_action p (snd (threat_config idx)), Some s) \<or> (p', ms) = (p, Some s) \<or>
    (p', ms) = mark_session idx (mark_packet idx (dpi_set_action p (snd (threat_config idx)))) (Some s)"
  using assms unfolding dpi_threat_trigger_def dpi_threat_trigger_dir_def Let_def
  by (auto split: if_splits option.splits prod.splits bind_splits simp del: dpi_set_action_def)

text \<open>What a trigger keeps of the packet and of its session.\<close>
definition same_payload :: "dpi_packet \<Rightarrow> dpi_packet \<Rightarrow> bool" where
  "same_payload p q \<longleftrightarrow> p_raw q = p_raw p \<and> p_ip_proto q = p_ip_proto p \<and> p_sport q = p_sport p \<and> p_dport q = p_dport p \<and>
     (p_flags q = p_flags p \<or> p_flags q = p_flags p OR DPI_PKT_FLAG_LOG_MID)"

definition same_session :: "dpi_session \<Rightarrow> dpi_session \<Rightarrow> bool" where
  "same_session s u \<longleftrightarrow> (\<exists>i v r. u = s\<lparr>s_threat_id := i, s_severity := v, s_term_reason := r\<rparr>)"

lemma same_session_refl: "same_session s s"
  unfolding same_session_def by (intro exI[of _ "s_threat_id s"] exI[of _ "s_severity s"] exI[of _ "s_term_reason s"]) simp

lemma mark_session_keeps:
  "\<exists>s'. snd (mark_session idx p (Some s)) = Some s' \<and> same_session s s'"
proof -
  define s1 where "s1 = (if snd (threat_config idx) = DPI_ACTION_RESET \<or> snd (threat_config idx) = DPI_ACTION_DROP
    then dpi_session_term_reason s DPI_SESS_TERM_THREAT else s)"
  have "\<exists>r. s1 = s\<lparr>s_term_reason := r\<rparr>"
    unfolding s1_def dpi_session_term_reason_def by (cases "snd (threat_config idx) = DPI_ACTION_RESET \<or> snd (threat_config idx) = DPI_ACTION_DROP")
      (auto intro: exI[of _ "s_term_reason s"])
  then obtain r where r: "s1 = s\<lparr>s_term_reason := r\<rparr>" by blast
  have "snd (mark_session idx p (Some s)) = Some (if tp_severity (threat_property idx) > s_severity s1
     then s1\<lparr>s_threat_id := tp_id (threat_property idx), s_severity := tp_severity (threat_property idx)\<rparr> else s1)"
    by (simp add: mark_session_def Let_def s1_def)
  moreover have "same_session s (if tp_severity (threat_property idx) > s_severity s1
     then s1\<lparr>s_threat_id := tp_id (threat_property idx), s_severity := tp_severity (threat_property idx)\<rparr> else s1)"
  proof (cases "tp_severity (threat_property idx) > s_severity s1")
    case True
    then show ?thesis unfolding same_session_def r
      by (intro exI[of _ "tp_id (threat_property idx)"] exI[of _ "tp_severity (threat_property idx)"] exI[of _ r]) simp
  next
    case False
    then show ?thesis unfolding same_session_def r
      by (intro exI[of _ "s_threat_id s"] exI[of _ "s_severity s"] exI[of _ r]) (cases s, simp)
  qed
  ultimately show ?thesis by blast
qed

lemma trigger_session:
  assumes "dpi_threat_trigger ok tap idx st p (Some s) = Some (st', p', ms)"
  shows "same_payload p p' \<and> (\<exists>s'. ms = Some s' \<and> same_session s s')"
proof -
  have a: "same_payload p (dpi_set_action p c)" for c by (simp add: same_payload_def dpi_set_action_def)
  have m: "same_payload p (mark_packet idx (dpi_set_action p c))" for c
    by (simp add: same_payload_def dpi_set_action_def mark_packet_def Let_def)
  have "same_payload p (fst (mark_session idx q (Some s)))" if "same_payload p q" "p_flags q = p_flags p" for q
    using that by (simp add: same_payload_def mark_session_def Let_def)
  then have f: "same_payload p (fst (mark_session idx (mark_packet idx (dpi_set_action p c)) (Some s)))" for c
    using m[of c] by (simp add: mark_packet_def dpi_set_action_def Let_def)
  have p: "same_payload p p" by (simp add: same_payload_def)
  from trigger_marks[OF assms] show ?thesis
  proof (elim disjE)
    let ?m = "mark_session idx (mark_packet idx (dpi_set_action p (snd (threat_config idx)))) (Some s)"
    assume "(p', ms) = ?m"
    then have "p' = fst ?m" "ms = snd ?m" by (simp_all add: prod_eq_iff)
    then show ?thesis using f mark_session_keeps by simp
  qed (use a p same_session_refl in auto)
qed

lemma obeys_threat:
  assumes ok: "pst_ok x" and c: "x_cur x = Some t" and y: "par_threat env idx x = Some y"
  shows "obeys t x y \<and> same_payload (x_p x) (x_p y) \<and> same_session (x_s x) (x_s y) \<and> x_data y = x_data x \<and> x_asm_pkt y = x_asm_pkt x \<and>
    x_asm y = x_asm x \<and> x_parser_asm_seq y = x_parser_asm_seq x \<and> team y = team x"
proof -
  obtain lg p1 s1 where t: "dpi_threat_trigger (pm_log env) (ep_tap (x_ep x)) idx (x_log x) (x_p x) (Some (x_s x)) = Some (lg, p1, Some s1)"
    and y': "y = x\<lparr>x_log := lg, x_p := p1, x_s := s1\<rparr>"
    using y by (auto simp: par_threat_def split: bind_splits)
  from trigger_session[OF t] obtain i v r where p: "same_payload (x_p x) p1"
    and s: "s1 = (x_s x)\<lparr>s_threat_id := i, s_severity := v, s_term_reason := r\<rparr>" by (auto simp: same_session_def)
  have no: "\<not> FLAGS_TEST DPI_PKT_FLAG_LOG_MID DPI_PKT_FLAG_CLIENT" "\<not> FLAGS_TEST DPI_PKT_FLAG_LOG_MID DPI_PKT_FLAG_ASSEMBLED"
    by (simp_all add: FLAGS_TEST_def flag_consts)
  have fl: "dpi_is_client_pkt p1 = dpi_is_client_pkt (x_p x)"
     "FLAGS_TEST (p_flags p1) DPI_PKT_FLAG_ASSEMBLED = FLAGS_TEST (p_flags (x_p x)) DPI_PKT_FLAG_ASSEMBLED"
    using p no by (auto simp: same_payload_def dpi_is_client_pkt_def flag_or)
  have tm: "team y = team x" by (simp add: team_def hired_def y' s)
  have "obeys t x y"
    using ok c fl p tm by (simp add: obeys_def stays_def y' s pst_ok_def same_payload_def)
  then show ?thesis using p s tm by (auto simp: y' same_session_def)
qed

locale parser_ok =
  fixes t :: nat and cb :: "pstate \<Rightarrow> pstate option"
  assumes in_table: "t < DPI_PARSER_MAX"
    and obeyed: "pst_ok x \<Longrightarrow> x_cur x = Some t \<Longrightarrow> t \<in> team x \<Longrightarrow> cb x = Some y \<Longrightarrow> obeys t x y"

subsection \<open>Arbitration\<close>

text \<open>The invariant of a session: a parser that was dismissed has no data, and when the session has settled for one
  parser no other is hired.\<close>
definition data_ok :: "pstate \<Rightarrow> bool" where
  "data_ok x \<longleftrightarrow> (\<forall>u<DPI_PARSER_MAX. u \<notin> team x \<longrightarrow> x_data x ! u = None)"

definition sess_inv :: "pstate \<Rightarrow> bool" where
  "sess_inv x \<longleftrightarrow> pst_ok x \<and> data_ok x \<and>
     (sess_flag x DPI_SESS_FLAG_ONLY_PARSER \<longrightarrow>
        team x = {s_only_parser (x_s x)} \<or> team x = {} \<and> sess_flag x DPI_SESS_FLAG_SKIP_PARSER)"

definition walk_inv :: "pstate \<Rightarrow> nat \<Rightarrow> pstate \<Rightarrow> nat \<Rightarrow> bool" where
  "walk_inv x0 n x lst \<longleftrightarrow> pst_ok x \<and> data_ok x \<and> team x \<subseteq> team x0 \<and> p_ip_proto (x_p x) = p_ip_proto (x_p x0) \<and>
     dpi_is_client_pkt (x_p x) = dpi_is_client_pkt (x_p x0) \<and>
     FLAGS_TEST (p_flags (x_p x)) DPI_PKT_FLAG_ASSEMBLED = FLAGS_TEST (p_flags (x_p x0)) DPI_PKT_FLAG_ASSEMBLED \<and>
     x_left x = of_nat (card (team x \<inter> {..<n})) \<and> (team x \<inter> {..<n} \<noteq> {} \<longrightarrow> lst \<in> team x \<inter> {..<n}) \<and>
     (s_flags (x_s x) = s_flags (x_s x0) \<or>
      s_flags (x_s x) = s_flags (x_s x0) OR final_flags \<and> s_only_parser (x_s x) < n \<and> team x \<subseteq> {s_only_parser (x_s x)})"

lemma team_update [simp]:
  "team (x\<lparr>x_left := l\<rparr>) = team x" "team (x\<lparr>x_cur := c\<rparr>) = team x" "team (x\<lparr>x_asm_seq := a\<rparr>) = team x"
  "team (x\<lparr>x_parser_asm_seq := b\<rparr>) = team x" "team (x\<lparr>x_data := d\<rparr>) = team x" "team (x\<lparr>x_freed := fr\<rparr>) = team x"
  "team (x\<lparr>x_asm := m\<rparr>) = team x" "team (set_flag f x) = team x" "team (unset_flag f x) = team x"
  "team (cache_asm_seq x) = team x" "team (set_cur proto t x) = team x" "team (dpi_delete_parser_data cp x) = team x"
  "team (upd_wing g x) = team x"
  by (simp_all add: team_def hired_def set_flag_def unset_flag_def cache_asm_seq_def set_cur_def dpi_delete_parser_data_def Let_def upd_wing_def)

lemma hired_team: "t < DPI_PARSER_MAX \<Longrightarrow> hired x t \<longleftrightarrow> t \<in> team x"
  by (simp add: team_def)

lemma card_step:
  "card (A \<inter> {..<Suc n}) = (if n \<in> A then Suc (card (A \<inter> {..<n})) else card (A \<inter> {..<n}))"
proof -
  have "A \<inter> {..<Suc n} = (if n \<in> A then insert n (A \<inter> {..<n}) else A \<inter> {..<n})" by (auto simp: less_Suc_eq)
  then show ?thesis by simp
qed

lemma walk_idle:
  assumes "walk_inv x0 n x lst" "n \<notin> team x" "team y = team x" "x_data y = x_data x" "x_p y = x_p x" "x_s y = x_s x" "x_left y = x_left x"
  shows "walk_inv x0 (Suc n) y lst"
proof -
  have c: "team x \<inter> {..<Suc n} = team x \<inter> {..<n}" using assms(2) by (auto simp: less_Suc_eq)
  show ?thesis using assms(1,3-7) unfolding walk_inv_def pst_ok_def data_ok_def by (simp add: c) auto
qed

lemma walk_ran:
  assumes W: "walk_inv x0 n x lst" and n: "n < DPI_PARSER_MAX" and nt: "n \<in> team x" and ob: "obeys n x1 y"
    and x1: "x1 = x\<lparr>x_cur := c, x_parser_asm_seq := a\<rparr>" and cp: "parser_at (p_ip_proto (x_p x)) n = Some cp"
  shows "n \<in> team y \<Longrightarrow> walk_inv x0 (Suc n) (cache_asm_seq (y\<lparr>x_left := x_left y + 1\<rparr>)) n"
    and "n \<notin> team y \<Longrightarrow> walk_inv x0 (Suc n) (dpi_delete_parser_data cp y) lst"
proof -
  have "pst_ok x" using W by (simp add: walk_inv_def)
  then have ok1: "pst_ok x1" by (simp add: pst_ok_def x1)
  have oky: "pst_ok y" using obeys_ok[OF ob ok1 n] .
  have t1: "team x1 = team x" by (simp add: x1)
  have ty: "d_type cp = n" using parser_at_type[OF cp n] .
  have len: "length (x_data y) = DPI_PARSER_MAX" using oky by (simp add: pst_ok_def)
  have sub: "team y \<subseteq> team x0" using obeys_team[OF ob] t1 W by (auto simp: walk_inv_def)
  have dat: "x_data y ! u = None" if "u < DPI_PARSER_MAX" "u \<noteq> n" "u \<notin> team y" for u
  proof -
    from ob have "stays n x1 y \<or> finalized n x1 y" by (simp add: obeys_def)
    then show ?thesis
    proof
      assume st: "stays n x1 y"
      then have "u \<notin> team x" using that t1 by (auto simp: stays_def)
      then show ?thesis using st that W by (simp add: stays_def walk_inv_def data_ok_def x1)
    next
      assume "finalized n x1 y"
      then show ?thesis using that W t1 by (simp add: finalized_def walk_inv_def data_ok_def x1)
    qed
  qed
  have pk: "p_ip_proto (x_p y) = p_ip_proto (x_p x0)" "dpi_is_client_pkt (x_p y) = dpi_is_client_pkt (x_p x0)"
     "FLAGS_TEST (p_flags (x_p y)) DPI_PKT_FLAG_ASSEMBLED = FLAGS_TEST (p_flags (x_p x0)) DPI_PKT_FLAG_ASSEMBLED"
    using ob W by (simp_all add: obeys_def walk_inv_def x1)
  have old: "s_flags (x_s x) = s_flags (x_s x0)"
    using W nt by (auto simp: walk_inv_def)
  have main: "x_left y = of_nat (card (team y \<inter> {..<n})) \<and> (team y \<inter> {..<n} \<noteq> {} \<longrightarrow> lst \<in> team y \<inter> {..<n}) \<and>
     (s_flags (x_s y) = s_flags (x_s x0) \<or>
      s_flags (x_s y) = s_flags (x_s x0) OR final_flags \<and> s_only_parser (x_s y) = n \<and> team y \<subseteq> {n})"
  proof -
    from ob have "stays n x1 y \<or> finalized n x1 y" by (simp add: obeys_def)
    then show ?thesis
    proof
      assume st: "stays n x1 y"
      then have "team y \<inter> {..<n} = team x \<inter> {..<n}" using t1 by (auto simp: stays_def)
      then show ?thesis using st W old by (simp add: stays_def walk_inv_def x1)
    next
      assume fi: "finalized n x1 y"
      then have "team y \<subseteq> {n}" by (simp add: finalized_def)
      moreover from this have "team y \<inter> {..<n} = {}" by auto
      ultimately show ?thesis using fi old by (simp add: finalized_def x1)
    qed
  qed
  show "walk_inv x0 (Suc n) (cache_asm_seq (y\<lparr>x_left := x_left y + 1\<rparr>)) n" if "n \<in> team y"
  proof -
    have d: "data_ok y" using dat that unfolding data_ok_def by (metis)
    have c: "card (team y \<inter> {..<Suc n}) = Suc (card (team y \<inter> {..<n}))" using that by (simp add: card_step)
    have "x_left y + 1 = of_nat (card (team y \<inter> {..<Suc n}))" using main c by simp
    then have "walk_inv x0 (Suc n) (y\<lparr>x_left := x_left y + 1\<rparr>) n"
      using oky d sub pk main that unfolding walk_inv_def pst_ok_def data_ok_def by auto
    then show ?thesis unfolding walk_inv_def pst_ok_def data_ok_def cache_asm_seq_def by simp auto
  qed
  show "walk_inv x0 (Suc n) (dpi_delete_parser_data cp y) lst" if "n \<notin> team y"
  proof -
    let ?z = "dpi_delete_parser_data cp y"
    have "team y \<inter> {..<Suc n} = team y \<inter> {..<n}" using that by (auto simp: less_Suc_eq)
    moreover have "x_data ?z ! u = None" if "u < DPI_PARSER_MAX" "u \<notin> team y" for u
      using dat[OF that(1) _ that(2)] that(1) len by (cases "u = n") (simp_all add: dpi_delete_parser_data_def Let_def ty)
    moreover have "x_p ?z = x_p y" "x_s ?z = x_s y" "x_left ?z = x_left y" "length (x_data ?z) = length (x_data y)"
      by (simp_all add: dpi_delete_parser_data_def Let_def)
    ultimately show ?thesis
      using oky sub pk main unfolding walk_inv_def pst_ok_def data_ok_def by auto
  qed
qed

lemma walk_step_inv:
  assumes W: "walk_inv x0 n x lst" and n: "n < DPI_PARSER_MAX"
    and cb: "n \<in> team x0 \<Longrightarrow> parser_ok n (cb_parser (cbs (p_ip_proto (x_p x0)) n))"
    and step: "walk_step cbs n (x, lst) = Some (y, l2)"
  shows "walk_inv x0 (Suc n) y l2"
proof -
  have pr: "p_ip_proto (x_p x) = p_ip_proto (x_p x0)" using W by (simp add: walk_inv_def)
  let ?proto = "p_ip_proto (x_p x0)"
  show ?thesis
  proof (cases "n \<in> team x")
    case False
    then have "y = set_cur ?proto n x \<and> l2 = lst"
      using step n by (auto simp: walk_step_def pr Let_def hired_team split: option.splits)
    then show ?thesis using walk_idle[OF W False, of y] by (simp add: set_cur_def)
  next
    case True
    then obtain cp where cp: "parser_at ?proto n = Some cp" using W pr by (auto simp: walk_inv_def pst_ok_def)
    define x1 where "x1 = x\<lparr>x_cur := Some n, x_parser_asm_seq := w_asm_seq (this_wing x)\<rparr>"
    have wing: "this_wing (x\<lparr>x_cur := Some n\<rparr>) = this_wing x" by (simp add: this_wing_def)
    have h: "hired (x\<lparr>x_cur := Some n\<rparr>) n" using True by (simp add: hired_team[OF n])
    obtain z where z: "cb_parser (cbs ?proto n) x1 = Some z"
      and r: "(y, l2) = (if hired z n then (cache_asm_seq (z\<lparr>x_left := x_left z + 1\<rparr>), n) else (dpi_delete_parser_data cp z, lst))"
      using step cp h by (auto simp: walk_step_def pr Let_def set_cur_def run_parser_def wing x1_def split: if_splits bind_splits)
    have "n \<in> team x0" using True W by (auto simp: walk_inv_def)
    moreover have "pst_ok x" using W by (simp add: walk_inv_def)
    then have "pst_ok x1" "n \<in> team x1" using True by (simp_all add: pst_ok_def x1_def)
    ultimately have ob: "obeys n x1 z" using parser_ok.obeyed[OF cb _ _ _ z] by (simp add: x1_def)
    show ?thesis
      using walk_ran[OF W n True ob x1_def] cp r by (auto simp: pr hired_team[OF n] split: if_splits)
  qed
qed

lemma walk_all:
  assumes cb: "\<And>t. t \<in> team x0 \<Longrightarrow> parser_ok t (cb_parser (cbs (p_ip_proto (x_p x0)) t))"
  shows "k + n = DPI_PARSER_MAX \<Longrightarrow> walk_inv x0 n x lst \<Longrightarrow>
    foldM (walk_step cbs) [n ..< DPI_PARSER_MAX] (x, lst) = Some (y, l2) \<Longrightarrow> walk_inv x0 DPI_PARSER_MAX y l2"
proof (induction k arbitrary: n x lst)
  case (Suc k)
  then have n: "n < DPI_PARSER_MAX" by simp
  then have u: "[n ..< DPI_PARSER_MAX] = n # [Suc n ..< DPI_PARSER_MAX]" by (rule upt_conv_Cons)
  obtain z l1 where s: "walk_step cbs n (x, lst) = Some (z, l1)"
    "foldM (walk_step cbs) [Suc n ..< DPI_PARSER_MAX] (z, l1) = Some (y, l2)"
    using Suc.prems(3) unfolding u by (auto split: bind_splits)
  show ?case
    by (rule Suc.IH[OF _ walk_step_inv[OF Suc.prems(2) n cb s(1)] s(2)]) (use Suc.prems(1) in simp_all)
qed simp

lemma flag_andnot: "FLAGS_TEST (f AND NOT g) h \<longleftrightarrow> f AND (NOT g AND h) \<noteq> 0"
  by (simp add: FLAGS_TEST_def and.assoc)

lemmas flag_eval = DPI_SESS_FLAG_ONLY_PARSER_def final_flags_def flag_consts

lemma flag_facts:
  "FLAGS_TEST final_flags DPI_SESS_FLAG_ONLY_PARSER" "\<not> FLAGS_TEST final_flags DPI_SESS_FLAG_SKIP_PARSER"
  "FLAGS_TEST DPI_SESS_FLAG_LAST_PARSER DPI_SESS_FLAG_ONLY_PARSER" "\<not> FLAGS_TEST DPI_SESS_FLAG_LAST_PARSER DPI_SESS_FLAG_SKIP_PARSER"
  "FLAGS_TEST DPI_SESS_FLAG_SKIP_PARSER DPI_SESS_FLAG_SKIP_PARSER" "\<not> FLAGS_TEST DPI_SESS_FLAG_SKIP_PARSER DPI_SESS_FLAG_ONLY_PARSER"
  "\<not> FLAGS_TEST DPI_SESS_FLAG_POLICY_APP_READY DPI_SESS_FLAG_SKIP_PARSER"
  "\<not> FLAGS_TEST DPI_SESS_FLAG_POLICY_APP_READY DPI_SESS_FLAG_ONLY_PARSER"
  "NOT DPI_SESS_FLAG_ONLY_PARSER AND DPI_SESS_FLAG_SKIP_PARSER = DPI_SESS_FLAG_SKIP_PARSER"
  "NOT DPI_SESS_FLAG_ONLY_PARSER AND DPI_SESS_FLAG_ONLY_PARSER = 0"
  by (simp_all add: FLAGS_TEST_def flag_eval)

lemma unset_only:
  "\<not> FLAGS_TEST (f AND NOT DPI_SESS_FLAG_ONLY_PARSER) DPI_SESS_FLAG_ONLY_PARSER"
  "FLAGS_TEST (f AND NOT DPI_SESS_FLAG_ONLY_PARSER) DPI_SESS_FLAG_SKIP_PARSER = FLAGS_TEST f DPI_SESS_FLAG_SKIP_PARSER"
  by (simp_all only: flag_andnot flag_facts) (simp_all add: FLAGS_TEST_def)

lemmas flag_simps = flag_or flag_facts unset_only

text \<open>What the session knows after a packet.\<close>
definition settled :: "pstate \<Rightarrow> pstate \<Rightarrow> bool" where
  "settled x y \<longleftrightarrow> sess_inv y \<and> team y \<subseteq> team x \<and> (team y = {} \<longleftrightarrow> sess_flag y DPI_SESS_FLAG_SKIP_PARSER) \<and>
     (\<forall>t. team y = {t} \<longrightarrow> sess_flag y DPI_SESS_FLAG_ONLY_PARSER \<and> s_only_parser (x_s y) = t)"

lemma settled_walk:
  assumes W: "walk_inv x0 DPI_PARSER_MAX x lst" and no: "\<not> sess_flag x0 DPI_SESS_FLAG_ONLY_PARSER" "\<not> sess_flag x0 DPI_SESS_FLAG_SKIP_PARSER"
  shows "settled x0 (after_walk lst x)"
proof -
  have tm: "team x \<inter> {..<DPI_PARSER_MAX} = team x" by (auto simp: team_def)
  have fin: "finite (team x)" "card (team x) \<le> 20"
    using card_mono[of "{..<DPI_PARSER_MAX}" "team x"] finite_subset[of "team x" "{..<DPI_PARSER_MAX}"]
    by (auto simp: team_def DPI_PARSER_MAX_def)
  have left: "x_left x = of_nat (card (team x))" using W unfolding walk_inv_def tm by simp
  then have u: "unat (x_left x) = card (team x)" using fin by (simp add: unat_of_nat)
  then have l0: "x_left x = 0 \<longleftrightarrow> team x = {}" and l1: "x_left x = 1 \<longleftrightarrow> card (team x) = 1"
    using fin by (auto simp: unat_eq_zero word_unat_eq_iff)
  have ok: "pst_ok x" "data_ok x" "team x \<subseteq> team x0" using W by (simp_all add: walk_inv_def)
  have fl: "s_flags (x_s x) = s_flags (x_s x0) \<or> s_flags (x_s x) = s_flags (x_s x0) OR final_flags \<and> team x \<subseteq> {s_only_parser (x_s x)}"
    using W by (auto simp: walk_inv_def)
  have skip0: "\<not> sess_flag x DPI_SESS_FLAG_SKIP_PARSER" using fl no(2) by (auto simp: flag_simps)
  consider (none) "team x = {}" | (one) "team x = {lst}" "lst < DPI_PARSER_MAX" | (more) "card (team x) > 1"
  proof (cases "card (team x) = 1")
    case True
    then obtain t where "team x = {t}" by (rule card_1_singletonE)
    moreover from this have "lst \<in> team x" using W unfolding walk_inv_def tm by simp
    ultimately show ?thesis using that(2) by (auto simp: team_def)
  next
    case False
    then show ?thesis using that(1,3) fin by (cases "card (team x) = 0") auto
  qed
  then show ?thesis
  proof cases
    case none
    then show ?thesis using ok l0 
      by (simp add: settled_def sess_inv_def after_walk_def pst_ok_def data_ok_def) (simp add: set_flag_def flag_simps)
  next
    case one
    then have "x_left x = 1" using l1 by simp
    then show ?thesis using ok one skip0
      by (simp add: settled_def sess_inv_def after_walk_def pst_ok_def data_ok_def Let_def) (simp add: set_flag_def flag_simps team_def hired_def)
  next
    case more
    then have "s_flags (x_s x) = s_flags (x_s x0)"
      using fl card_mono[of "{s_only_parser (x_s x)}" "team x"] by fastforce
    moreover have "x_left x \<noteq> 0" "x_left x \<noteq> 1" using more l0 l1 by auto
    moreover have "team x \<noteq> {}" "\<And>t. team x \<noteq> {t}" using more by auto
    ultimately show ?thesis using ok no by (simp add: settled_def sess_inv_def after_walk_def)
  qed
qed

lemma settled_only:
  assumes inv: "sess_inv x" and f: "sess_flag x DPI_SESS_FLAG_ONLY_PARSER" "\<not> sess_flag x DPI_SESS_FLAG_SKIP_PARSER"
    and cb: "\<And>t. t \<in> team x \<Longrightarrow> parser_ok t (cb_parser (cbs (p_ip_proto (x_p x)) t))"
    and step: "only_parser_step cbs x = Some y"
  shows "settled x y"
proof -
  define t where "t = s_only_parser (x_s x)"
  have tm: "team x = {t}" using inv f by (auto simp: sess_inv_def t_def)
  then have t: "t < DPI_PARSER_MAX" by (auto simp: team_def)
  have ok: "pst_ok x" "data_ok x" using inv by (simp_all add: sess_inv_def)
  obtain cp where cp: "parser_at (p_ip_proto (x_p x)) t = Some cp" using ok(1) tm by (auto simp: pst_ok_def)
  have ty: "d_type cp = t" using parser_at_type[OF cp t] .
  define x1 where "x1 = x\<lparr>x_cur := Some t, x_parser_asm_seq := w_asm_seq (this_wing x)\<rparr>"
  have wing: "this_wing (x\<lparr>x_cur := Some t\<rparr>) = this_wing x" by (simp add: this_wing_def)
  obtain z where z: "cb_parser (cbs (p_ip_proto (x_p x)) t) x1 = Some z"
    and y: "y = cache_asm_seq (if \<not> hired z (s_only_parser (x_s z))
                   then set_flag DPI_SESS_FLAG_POLICY_APP_READY (unset_flag DPI_SESS_FLAG_ONLY_PARSER
                          (set_flag DPI_SESS_FLAG_SKIP_PARSER (dpi_delete_parser_data cp z)))
                   else z)"
    using step cp by (auto simp: only_parser_step_def Let_def t_def[symmetric] set_cur_def run_parser_def wing x1_def split: bind_splits)
  have "pst_ok x1" "t \<in> team x1" using ok(1) tm by (simp_all add: pst_ok_def x1_def)
  then have ob: "obeys t x1 z" using parser_ok.obeyed[OF cb _ _ _ z] tm by (simp add: x1_def)
  have okz: "pst_ok z" using obeys_ok[OF ob \<open>pst_ok x1\<close> t] .
  have sub: "team z \<subseteq> {t}" using obeys_team[OF ob] tm by (simp add: x1_def)
  have d: "x_data z ! u = None" if "u < DPI_PARSER_MAX" "u \<noteq> t" for u
    using ob ok(2) that tm unfolding obeys_def stays_def finalized_def data_ok_def by (auto simp: x1_def)
  have on: "s_only_parser (x_s z) = t"
    using ob unfolding obeys_def stays_def finalized_def by (auto simp: x1_def t_def)
  have fl: "s_flags (x_s z) = s_flags (x_s x) \<or> s_flags (x_s z) = s_flags (x_s x) OR final_flags"
    using ob unfolding obeys_def stays_def finalized_def by (auto simp: x1_def)
  have c: "settled x (cache_asm_seq w) = settled x w" for w
    by (simp add: settled_def sess_inv_def pst_ok_def data_ok_def) (simp add: cache_asm_seq_def)
  show ?thesis
  proof (cases "t \<in> team z")
    case True
    then have tz: "team z = {t}" using sub by blast
    then have "data_ok z" using d by (simp add: data_ok_def)
    then have "settled x z" using okz tz on f fl tm by (auto simp: settled_def sess_inv_def flag_simps)
    then show ?thesis using y True by (simp add: c on hired_team[OF t])
  next
    case False
    then have tz: "team z = {}" using sub by blast
    define w where "w = set_flag DPI_SESS_FLAG_POLICY_APP_READY (unset_flag DPI_SESS_FLAG_ONLY_PARSER
                          (set_flag DPI_SESS_FLAG_SKIP_PARSER (dpi_delete_parser_data cp z)))"
    have fw: "s_flags (x_s w) = ((s_flags (x_s z) OR DPI_SESS_FLAG_SKIP_PARSER) AND NOT DPI_SESS_FLAG_ONLY_PARSER) OR DPI_SESS_FLAG_POLICY_APP_READY"
      by (simp add: w_def set_flag_def unset_flag_def dpi_delete_parser_data_def Let_def)
    have "x_data w = (x_data z)[t := None]" by (simp add: w_def set_flag_def unset_flag_def dpi_delete_parser_data_def Let_def ty)
    then have dw: "x_data w ! u = None" if "u < DPI_PARSER_MAX" for u
      using d that okz by (cases "u = t") (auto simp: pst_ok_def)
    have "team w = {}" using tz by (simp add: w_def)
    moreover have "pst_ok w" using okz \<open>team w = {}\<close> by (simp add: pst_ok_def w_def set_flag_def unset_flag_def dpi_delete_parser_data_def Let_def)
    ultimately have "settled x w" using dw by (simp add: settled_def sess_inv_def data_ok_def fw flag_simps)
    then show ?thesis using y False by (simp add: c on hired_team[OF t] w_def)
  qed
qed

lemma proto_parser_settled:
  assumes "sess_inv x" and "\<not> sess_flag x DPI_SESS_FLAG_SKIP_PARSER"
    and "\<And>t. t \<in> team x \<Longrightarrow> parser_ok t (cb_parser (cbs (p_ip_proto (x_p x)) t))"
    and "dpi_proto_parser cbs x = Some y"
  shows "settled x y"
proof -
  define x1 where "x1 = (if FLAGS_TEST (p_flags (x_p x)) DPI_PKT_FLAG_ASSEMBLED then x\<lparr>x_asm := True\<rparr> else x)"
  define x2 where "x2 = x1\<lparr>x_asm_seq := w_next_seq (this_wing x1)\<rparr>"
  have e: "team x2 = team x" "x_p x2 = x_p x" "x_s x2 = x_s x" "x_data x2 = x_data x" by (simp_all add: x2_def x1_def)
  have inv2: "sess_inv x2" using assms(1) by (simp add: sess_inv_def pst_ok_def data_ok_def e)
  obtain x3 where x3: "(if sess_flag x2 DPI_SESS_FLAG_ONLY_PARSER then only_parser_step cbs x2
            else map_option (\<lambda>(x, lst). after_walk lst x)
                   (foldM (walk_step cbs) [0 ..< DPI_PARSER_MAX] (x2\<lparr>x_left := 0\<rparr>, 0))) = Some x3"
    and y: "y = (let x4 = upd_wing (\<lambda>w. w\<lparr>w_asm_seq := x_asm_seq x3\<rparr>) x3
       in if FLAGS_TEST (p_flags (x_p x4)) DPI_PKT_FLAG_ASSEMBLED then x4\<lparr>x_asm := False\<rparr> else x4)"
    using assms(4) unfolding dpi_proto_parser_def Let_def x1_def[symmetric] x2_def[symmetric] by (auto split: bind_splits)
  have "settled x x3"
  proof (cases "sess_flag x2 DPI_SESS_FLAG_ONLY_PARSER")
    case True
    then have "settled x2 x3" using settled_only[OF inv2 True, of cbs] assms(2,3) x3 by (simp add: e)
    then show ?thesis by (simp add: settled_def e)
  next
    case False
    obtain z lst where z: "foldM (walk_step cbs) [0 ..< DPI_PARSER_MAX] (x2\<lparr>x_left := 0\<rparr>, 0) = Some (z, lst)"
      "x3 = after_walk lst z" using x3 False by auto
    let ?x0 = "x2\<lparr>x_left := 0\<rparr>"
    have "walk_inv ?x0 0 ?x0 0"
      using inv2 by (simp add: walk_inv_def sess_inv_def pst_ok_def data_ok_def)
    then have "walk_inv ?x0 DPI_PARSER_MAX z lst"
      using walk_all[of ?x0 cbs DPI_PARSER_MAX 0] z(1) assms(3) by (simp add: e)
    then have "settled ?x0 x3" using settled_walk[of ?x0 z lst] False assms(2) z(2) by (simp add: e)
    then show ?thesis by (simp add: settled_def e)
  qed
  moreover have "team y = team x3" "pst_ok y = pst_ok x3" "x_data y = x_data x3" "s_flags (x_s y) = s_flags (x_s x3)"
    "s_only_parser (x_s y) = s_only_parser (x_s x3)"
    unfolding y Let_def by (simp_all add: pst_ok_def) (simp_all add: upd_wing_def)
  ultimately show ?thesis by (simp add: settled_def sess_inv_def data_ok_def) blast
qed

end
