(* ===== verification/DP_Parsers.thy ===== *)
theory DP_Parsers
  imports DP_Parser
begin

text \<open>
  The small protocol parsers (\<open>dpi/parsers/\<close>): echo, DHCP, NTP, TFTP, SSH, Redis, MongoDB, Cassandra and PostgreSQL. A
  pointer into the payload is an offset, and the memory of the payload ends with the payload: a read behind it is
  \<^term>\<open>None\<close>. The character classes are those of the C locale.
\<close>

definition is_alpha :: "byte \<Rightarrow> bool" where "is_alpha c \<longleftrightarrow> 65 \<le> c \<and> c \<le> 90 \<or> 97 \<le> c \<and> c \<le> 122"
definition is_digit :: "byte \<Rightarrow> bool" where "is_digit c \<longleftrightarrow> 48 \<le> c \<and> c \<le> 57"
definition is_print :: "byte \<Rightarrow> bool" where "is_print c \<longleftrightarrow> 32 \<le> c \<and> c \<le> 126"
definition to_upper :: "byte \<Rightarrow> byte" where "to_upper c = (if 97 \<le> c \<and> c \<le> 122 then c - 32 else c)"

definition pkt_ports :: "pstate \<Rightarrow> u16 \<Rightarrow> bool" where
  "pkt_ports x port \<longleftrightarrow> p_sport (x_p x) = port \<or> p_dport (x_p x) = port"

definition finalize_ignore :: "par_mem \<Rightarrow> pstate \<Rightarrow> pstate option" where
  "finalize_ignore env x = do { x1 \<leftarrow> dpi_finalize_parser env x; dpi_ignore_parser x1 }"

text \<open>Where a wing's parser goes on: at the payload when nothing was parsed, at its position in the packet otherwise.\<close>
definition parser_seek :: "pstate \<Rightarrow> u32 \<Rightarrow> nat option" where
  "parser_seek x seq =
     (if seq = w_init_seq (this_wing x) then Some 0
      else if dpi_is_seq_in_pkt x seq then Some (unat (u32_distance (dpi_pkt_seq x) seq))
      else None)"

subsection \<open>Echo, DHCP, NTP\<close>

definition echo_parser :: "par_mem \<Rightarrow> pstate \<Rightarrow> pstate option" where
  "echo_parser env x = (if \<not> pkt_ports x 7 then dpi_fire_parser x else finalize_ignore env x)"

definition echo_new_session :: "pstate \<Rightarrow> pstate option" where
  "echo_new_session x = (if \<not> pkt_ports x 7 then Some x else dpi_hire_parser x)"

definition dhcp_magic :: bytes where "dhcp_magic = [0x63, 0x82, 0x53, 0x63]"

definition dhcp_parser :: "par_mem \<Rightarrow> pstate \<Rightarrow> pstate option" where
  "dhcp_parser env x = (let m = dpi_pkt_ptr x in
     if dpi_pkt_len x < 240 + 4 then dpi_fire_parser x
     else do {
       hlen \<leftarrow> rd8 m 2;
       if hlen > 16 then dpi_fire_parser x
       else do {
         magic \<leftarrow> mem_read m 236 4;
         if magic \<noteq> dhcp_magic then dpi_fire_parser x else dpi_finalize_parser env x } })"

definition dhcp_new_session :: "pstate \<Rightarrow> pstate option" where
  "dhcp_new_session x = dpi_hire_parser x"

text \<open>\<open>i\<close> counts to 4; \<open>fin\<close> is \<open>end\<close>.\<close>
fun check_ref_name :: "bytes \<Rightarrow> nat \<Rightarrow> nat \<Rightarrow> bool \<Rightarrow> bool option" where
  "check_ref_name m off 0 fin = Some True"
| "check_ref_name m off (Suc n) fin = do {
     c \<leftarrow> rd8 m off;
     if c = 0 then check_ref_name m (off + 1) n True
     else if \<not> fin \<and> is_alpha c then check_ref_name m (off + 1) n fin
     else Some False }"

definition ntp_times :: "par_mem \<Rightarrow> pstate \<Rightarrow> pstate option" where
  "ntp_times env x = (let m = dpi_pkt_ptr x in do {
     ref \<leftarrow> ld32 m 16; org \<leftarrow> ld32 m 24; rev \<leftarrow> ld32 m 32; trs \<leftarrow> ld32 m 40;
     if ntohl ref > ntohl trs \<or> ntohl org > ntohl rev then dpi_fire_parser x
     else finalize_ignore env x })"

definition ntp_udp_parser :: "par_mem \<Rightarrow> pstate \<Rightarrow> pstate option" where
  "ntp_udp_parser env x = (let m = dpi_pkt_ptr x in
     if \<not> pkt_ports x 123 \<or> dpi_pkt_len x < 48 then dpi_fire_parser x
     else do {
       flag \<leftarrow> rd8 m 0;
       stratum \<leftarrow> rd8 m 1;
       if drop_bit 3 (flag AND 0x38) > 4 then dpi_fire_parser x
       else if stratum = 1 then do {
         good \<leftarrow> check_ref_name m 12 4 False;
         if \<not> good then dpi_fire_parser x else ntp_times env x }
       else if stratum > 16 then dpi_fire_parser x
       else ntp_times env x })"

definition ntp_new_session :: "pstate \<Rightarrow> pstate option" where
  "ntp_new_session x = (if \<not> pkt_ports x 123 then Some x else dpi_hire_parser x)"

subsection \<open>TFTP\<close>

definition is_path_name :: "byte \<Rightarrow> bool" where
  "is_path_name c \<longleftrightarrow> is_digit c \<or> c = 45 \<or> c = 46 \<or> c = 47 \<or> c = 92 \<or> c = 95 \<or> is_alpha c"

text \<open>The loops read at most \<open>left\<close> bytes; \<open>None\<close> is a read behind the payload.\<close>
fun file_name_loop :: "nat \<Rightarrow> bytes \<Rightarrow> nat \<Rightarrow> nat option option" where
  "file_name_loop 0 m name_len = Some None"
| "file_name_loop (Suc lft) [] name_len = None"
| "file_name_loop (Suc lft) (c # m) name_len =
     (if c = 0 \<and> name_len > 0 then Some (Some (name_len + 1))
      else if \<not> is_path_name c then Some None
      else file_name_loop lft m (name_len + 1))"

definition check_file_name :: "bytes \<Rightarrow> u16 \<Rightarrow> nat option option" where
  "check_file_name m len = file_name_loop (if len > 128 then 128 else unat len) m 0"

fun option_loop :: "nat \<Rightarrow> bytes \<Rightarrow> nat \<Rightarrow> bool \<Rightarrow> bool option" where
  "option_loop 0 m opt_len name_got = Some False"
| "option_loop (Suc lft) [] opt_len name_got = None"
| "option_loop (Suc lft) (c # m) opt_len name_got =
     (if \<not> name_got then
        if c = 0 \<and> opt_len \<ge> 4 then option_loop lft m 1 True
        else if \<not> is_alpha c then Some False
        else option_loop lft m (opt_len + 1) False
      else
        if c = 0 \<and> opt_len \<ge> 1 then Some True
        else if \<not> is_digit c then Some False
        else option_loop lft m (opt_len + 1) True)"

definition check_option :: "bytes \<Rightarrow> u16 \<Rightarrow> bool option" where
  "check_option m len = option_loop (if len > 20 then 20 else unat len) m 0 False"

definition tftp_modes :: "bytes list" where
  "tftp_modes = [[77, 65, 73, 76], [79, 67, 84, 69, 84], [78, 69, 84, 65, 83, 67, 73, 73]]"

text \<open>\<open>name\<close> is the filled part of an array of 20 bytes.\<close>
fun mode_loop :: "nat \<Rightarrow> bytes \<Rightarrow> bytes \<Rightarrow> bool \<Rightarrow> bool option" where
  "mode_loop 0 m name match = Some False"
| "mode_loop (Suc lft) [] name match = None"
| "mode_loop (Suc lft) (c # m) name match =
     (if c = 0 \<and> match then Some True
      else if \<not> is_alpha c then Some False
      else if length name \<ge> 20 then None
      else let name1 = name @ [to_upper c] in
        if name1 \<in> set tftp_modes then mode_loop lft m [] True else mode_loop lft m name1 match)"

definition check_mode :: "bytes \<Rightarrow> u16 \<Rightarrow> bool option" where
  "check_mode m len = mode_loop (if len > 20 then 20 else unat len) m [] False"

definition tftp_decide :: "par_mem \<Rightarrow> pstate \<Rightarrow> bool \<Rightarrow> pstate option" where
  "tftp_decide env x good = (if good then finalize_ignore env x else dpi_fire_parser x)"

text \<open>The last operand of the test of the operation is the constant \<open>TFTP_INFO\<close>, which is true.\<close>
definition tftp_udp_parser :: "par_mem \<Rightarrow> pstate \<Rightarrow> pstate option" where
  "tftp_udp_parser env x = (let m = dpi_pkt_ptr x; len = dpi_pkt_len x in
     if \<not> pkt_ports x 69 then dpi_fire_parser x
     else if len < 4 then Some x
     else do {
       w \<leftarrow> ld16 m 0;
       let opcode = ntohs w;
       if opcode \<notin> {1, 2, 3, 4, 5, 6} then dpi_fire_parser x
       else if opcode = 1 \<or> opcode = 2 then do {
         nlen \<leftarrow> check_file_name (drop 2 m) (ucast (len - 2));
         (case nlen of
            None \<Rightarrow> dpi_fire_parser x
          | Some k \<Rightarrow>
              if len - 2 - of_nat k < 4 then dpi_fire_parser x
              else do {
                good \<leftarrow> check_mode (drop (2 + k) m) (ucast (len - 2 - of_nat k));
                tftp_decide env x good }) }
       else if opcode = 6 then do {
         good \<leftarrow> check_option (drop 2 m) (ucast (len - 2));
         tftp_decide env x good }
       else Some x })"

definition tftp_new_session :: "pstate \<Rightarrow> pstate option" where
  "tftp_new_session x = (if \<not> pkt_ports x 69 then Some x else dpi_hire_parser x)"

subsection \<open>SSH\<close>

text \<open>To the end of the line: its position and the one of the first space, or nothing at a byte that is not printable.\<close>
fun banner_loop :: "bytes \<Rightarrow> nat \<Rightarrow> nat option \<Rightarrow> (nat \<times> nat option) option" where
  "banner_loop [] i space = Some (i, space)"
| "banner_loop (c # m) i space =
     (if c = 13 \<or> c = 10 then Some (i, space)
      else if c = 32 \<and> space = None then banner_loop m (i + 1) (Some i)
      else if \<not> is_print c then None
      else banner_loop m (i + 1) space)"

definition skip_eol :: "bytes \<Rightarrow> nat \<Rightarrow> nat" where
  "skip_eol m eol = eol + 1 + length (takeWhile (\<lambda>c. c = 13 \<or> c = 10) (drop (eol + 1) m))"

definition ssh_magic :: "bytes \<Rightarrow> bool option" where
  "ssh_magic m = do {
     h \<leftarrow> mem_read m 0 4;
     v \<leftarrow> rd8 m 4; dot \<leftarrow> rd8 m 5; minor \<leftarrow> rd8 m 6;
     Some (h = [83, 83, 72, 45] \<and> (v = 49 \<or> v = 50) \<and> dot = 46 \<and> is_digit minor) }"

definition ssh_version :: "bytes \<Rightarrow> nat \<Rightarrow> byte \<Rightarrow> byte option" where
  "ssh_version m eol ver = do {
     v \<leftarrow> rd8 m 4; a \<leftarrow> rd8 m 6; b \<leftarrow> rd8 m 7;
     Some (if ver = 1 then 1 else if eol > 7 \<and> v = 49 \<and> a = 57 \<and> b = 57 then 2 else v - 48) }"

text \<open>\<open>Inl\<close> is -1; otherwise the offset behind the banner, or 0 when more is needed.\<close>
definition ssh_banner :: "par_mem \<Rightarrow> pstate \<Rightarrow> ssh_data \<Rightarrow> bytes \<Rightarrow> (pstate \<times> ssh_data \<times> (unit + nat)) option" where
  "ssh_banner env x d m =
     (if length m < 8 then Some (x, d, Inr 0)
      else do {
        good \<leftarrow> ssh_magic m;
        if \<not> good then Some (x, d, Inl ())
        else case banner_loop m 0 None of
            None \<Rightarrow> Some (x, d, Inl ())
          | Some (eol, space) \<Rightarrow>
              if eol = length m then Some (x, d, Inr 0)
              else do {
                x1 \<leftarrow> (if dpi_is_client_pkt (x_p x) then Some x
                       else dpi_ep_set_server_ver env x (drop 8 m)
                              ((case space of Some sp \<Rightarrow> int sp | None \<Rightarrow> int eol) - 8));
                let eol1 = skip_eol m eol;
                ver \<leftarrow> ssh_version m eol1 (ssh_ver d);
                x2 \<leftarrow> (if ver < 2 then par_threat env DPI_THRT_SSH_VER_1 x1 else Some x1);
                Some (x2, d\<lparr>ssh_ver := ver\<rparr>, Inr eol1) } })"

definition ssh_wing_seq :: "bool \<Rightarrow> ssh_data \<Rightarrow> u32" where
  "ssh_wing_seq client d = (if client then ssh_client_seq d else ssh_server_seq d)"

definition ssh_set_seq :: "bool \<Rightarrow> u32 \<Rightarrow> ssh_data \<Rightarrow> ssh_data" where
  "ssh_set_seq client seq d = (if client then d\<lparr>ssh_client_seq := seq\<rparr> else d\<lparr>ssh_server_seq := seq\<rparr>)"

definition ssh_set_key :: "bool \<Rightarrow> ssh_data \<Rightarrow> ssh_data" where
  "ssh_set_key client d = (if client then d\<lparr>ssh_client_stage := SSH_STAGE_KEY\<rparr> else d\<lparr>ssh_server_stage := SSH_STAGE_KEY\<rparr>)"

text \<open>The end of \<open>ssh_parser\<close>: no assembly behind what was parsed.\<close>
definition ssh_done :: "bool \<Rightarrow> u32 \<Rightarrow> u32 \<Rightarrow> pstate \<Rightarrow> ssh_data \<Rightarrow> pstate option" where
  "ssh_done client seq len x d =
     map_option (\<lambda>x1. dpi_set_asm_seq x1 (seq + len)) (dpi_put_parser_data x (D_ssh (ssh_set_seq client (seq + len) d)))"

definition ssh_first :: "par_mem \<Rightarrow> pstate \<Rightarrow> ssh_data \<Rightarrow> pstate option" where
  "ssh_first env x d = (let client = dpi_is_client_pkt (x_p x); m = dpi_pkt_ptr x in do {
     (x1, d1, r) \<leftarrow> ssh_banner env x d m;
     x2 \<leftarrow> dpi_put_parser_data x1 (D_ssh d1);
     (case r of
        Inl _ \<Rightarrow> dpi_fire_parser x2
      | Inr eol \<Rightarrow>
          if eol = 0 then Some x2
          else do {
            x3 \<leftarrow> (if client then Some x2 else dpi_finalize_parser env x2);
            let d2 = ssh_set_key client d1;
            let seq = dpi_ptr_2_seq x3 eol;
            x4 \<leftarrow> (if ssh_server_stage d2 \<noteq> SSH_STAGE_BANNER then dpi_ignore_parser (dpi_set_asm_seq x3 seq)
                   else Some (dpi_set_asm_seq x3 seq));
            ssh_done client seq (dpi_pkt_len x - of_nat eol) x4 d2 }) })"

definition ssh_run :: "par_mem \<Rightarrow> pstate \<Rightarrow> ssh_data \<Rightarrow> pstate option" where
  "ssh_run env x d = (let client = dpi_is_client_pkt (x_p x); seq = ssh_wing_seq client d in
     if seq = w_init_seq (this_wing x) then ssh_first env x d
     else if dpi_is_seq_in_pkt x seq then ssh_done client seq (dpi_pkt_len x - u32_distance (dpi_pkt_seq x) seq) x d
     else dpi_fire_parser x)"

definition ssh_parser :: "par_mem \<Rightarrow> pstate \<Rightarrow> pstate option" where
  "ssh_parser env x = do {
     data \<leftarrow> dpi_get_parser_data x;
     (case data of
        None \<Rightarrow>
          if \<not> pm_data env then dpi_fire_parser x
          else let d = \<lparr>ssh_client_seq = w_init_seq (s_client (x_s x)), ssh_client_stage = SSH_STAGE_BANNER,
                        ssh_server_seq = w_init_seq (s_server (x_s x)), ssh_server_stage = SSH_STAGE_BANNER, ssh_ver = 0\<rparr> in do {
            x1 \<leftarrow> dpi_put_parser_data x (D_ssh d);
            ssh_run env x1 d }
      | Some (D_ssh d) \<Rightarrow>
          if ssh_client_stage d \<noteq> SSH_STAGE_BANNER \<and> ssh_server_stage d \<noteq> SSH_STAGE_BANNER then Some x
          else ssh_run env x d
      | _ \<Rightarrow> None) }"

subsection \<open>Redis\<close>

definition is_redis_head :: "bytes \<Rightarrow> nat \<Rightarrow> bool option" where
  "is_redis_head m off = map_option (\<lambda>c. c \<in> {42, 43, 45, 36, 58}) (rd8 m off)"

text \<open>The byte is read before the length is looked at.\<close>
fun redis_digits :: "bytes \<Rightarrow> nat \<Rightarrow> nat \<Rightarrow> nat \<Rightarrow> (nat \<times> nat \<times> nat) option" where
  "redis_digits m p l str_cnt = do {
     c \<leftarrow> rd8 m p;
     if is_digit c then (case l of 0 \<Rightarrow> Some (p, l, str_cnt) | Suc l1 \<Rightarrow> redis_digits m (p + 1) l1 (str_cnt + 1))
     else Some (p, l, str_cnt) }"

definition redis_count_ok :: "bytes \<Rightarrow> nat \<Rightarrow> nat \<Rightarrow> bool option" where
  "redis_count_ok m p str_cnt =
     (if str_cnt > 9 \<or> str_cnt = 0 then Some False
      else do {
        a \<leftarrow> rd8 m p;
        if a \<noteq> 13 then Some False else map_option (\<lambda>b. b = 10) (rd8 m (p + 1)) })"

text \<open>\<open>m\<close> is the payload from \<open>ptr\<close> on; the answers are 0, 1 and -1.\<close>
definition is_redis_client_hdr :: "bytes \<Rightarrow> int option" where
  "is_redis_client_hdr m =
     (if length m < 8 then Some 0
      else do {
        c \<leftarrow> rd8 m 0;
        if c \<noteq> 42 then Some (- 1)
        else do {
          (p, l, cnt) \<leftarrow> redis_digits m 1 (length m - 1) 0;
          if l < 6 then Some 0
          else do {
            good \<leftarrow> redis_count_ok m p cnt;
            if \<not> good then Some (- 1)
            else do {
              d \<leftarrow> rd8 m (p + 2);
              if d \<noteq> 36 then Some (- 1)
              else do {
                (q, l2, cnt2) \<leftarrow> redis_digits m (p + 3) (l - 3) 0;
                if l2 < 2 then Some 0
                else do {
                  good2 \<leftarrow> redis_count_ok m q cnt2;
                  Some (if good2 then 1 else - 1) } } } } } })"

definition redis_run :: "par_mem \<Rightarrow> pstate \<Rightarrow> redis_data \<Rightarrow> pstate option" where
  "redis_run env x d =
     (let client = dpi_is_client_pkt (x_p x); seq = (if client then redis_client_seq d else redis_server_seq d)
      in case parser_seek x seq of
        None \<Rightarrow> dpi_fire_parser x
      | Some off \<Rightarrow>
          let len = dpi_pkt_len x - of_nat off;
              eat = (\<lambda>d. map_option (\<lambda>y. dpi_set_asm_seq y (seq + len)) (dpi_put_parser_data x (D_redis (d\<lparr>redis_client_seq := seq + len\<rparr>))))
          in if client then
               (if redis_has_client_hdr d then eat d
                else do {
                  res \<leftarrow> is_redis_client_hdr (drop off (dpi_pkt_ptr x));
                  if res = 1 then eat (d\<lparr>redis_has_client_hdr := True\<rparr>)
                  else if res = - 1 then dpi_fire_parser x
                  else Some x })
             else do {
               h \<leftarrow> is_redis_head (dpi_pkt_ptr x) off;
               if h \<and> redis_has_client_hdr d then finalize_ignore env x else dpi_fire_parser x })"

text \<open>How most parsers of TCP begin: data for a session that starts with its client.\<close>
definition with_data :: "par_mem \<Rightarrow> pstate \<Rightarrow> parser_data \<Rightarrow> (pstate \<Rightarrow> parser_data \<Rightarrow> pstate option) \<Rightarrow> pstate option" where
  "with_data env x fresh f = do {
     data \<leftarrow> dpi_get_parser_data x;
     (case data of
        None \<Rightarrow>
          if \<not> dpi_is_client_pkt (x_p x) then dpi_fire_parser x
          else if \<not> pm_data env then dpi_fire_parser x
          else do { x1 \<leftarrow> dpi_put_parser_data x fresh; f x1 fresh }
      | Some d \<Rightarrow> f x d) }"

definition redis_parser :: "par_mem \<Rightarrow> pstate \<Rightarrow> pstate option" where
  "redis_parser env x = with_data env x
     (D_redis \<lparr>redis_client_seq = w_init_seq (s_client (x_s x)), redis_server_seq = w_init_seq (s_server (x_s x)), redis_has_client_hdr = False\<rparr>)
     (\<lambda>x d. case d of D_redis d \<Rightarrow> redis_run env x d | _ \<Rightarrow> None)"

subsection \<open>MongoDB\<close>

definition mongodb_check_opcode :: "u32 \<Rightarrow> bool \<Rightarrow> bool" where
  "mongodb_check_opcode op_code client =
     (if op_code = 1 then \<not> client
      else if op_code = 1000 then True
      else if op_code \<in> {2001, 2002, 2003, 2004, 2005, 2006, 2007} then client
      else if op_code = 2010 then client
      else if op_code = 2011 then \<not> client
      else False)"

definition mg_eat :: "bool \<Rightarrow> u32 \<Rightarrow> pstate \<Rightarrow> mongodb_data \<Rightarrow> pstate option" where
  "mg_eat client seq x d =
     dpi_put_parser_data (dpi_set_asm_seq x seq) (D_mongodb (if client then d\<lparr>mg_client_seq := seq\<rparr> else d\<lparr>mg_server_seq := seq\<rparr>))"

definition mongodb_run :: "par_mem \<Rightarrow> pstate \<Rightarrow> mongodb_data \<Rightarrow> pstate option" where
  "mongodb_run env x d =
     (let client = dpi_is_client_pkt (x_p x); seq = (if client then mg_client_seq d else mg_server_seq d)
      in case parser_seek x seq of
        None \<Rightarrow> dpi_fire_parser x
      | Some off \<Rightarrow> (let m = dpi_pkt_ptr x; len = dpi_pkt_len x - of_nat off in
          if client \<and> mg_client_req d then
            let d1 = d\<lparr>mg_pkt_parsed := mg_pkt_parsed d + len\<rparr> in do {
              x1 \<leftarrow> (if mg_pkt_parsed d1 > mg_pkt_size d1 + 16 then dpi_fire_parser x else Some x);
              mg_eat client (seq + len) x1 d1 }
          else if len < 16 then Some x
          else do {
            size \<leftarrow> ld32 m off; request_id \<leftarrow> ld32 m (off + 4); response_to \<leftarrow> ld32 m (off + 8); op_code \<leftarrow> ld32 m (off + 12);
            if \<not> mongodb_check_opcode op_code client then dpi_fire_parser x
            else if client then
              if response_to \<noteq> 0 then dpi_fire_parser x
              else mg_eat client (seq + len) x (d\<lparr>mg_req_id := request_id, mg_pkt_size := size, mg_pkt_parsed := len, mg_client_req := True\<rparr>)
            else if mg_client_req d \<and> mg_req_id d = response_to then do {
              x1 \<leftarrow> finalize_ignore env x;
              mg_eat client (seq + len) x1 d }
            else dpi_fire_parser x }))"

definition mongodb_parser :: "par_mem \<Rightarrow> pstate \<Rightarrow> pstate option" where
  "mongodb_parser env x = with_data env x
     (D_mongodb \<lparr>mg_client_seq = w_init_seq (s_client (x_s x)), mg_server_seq = w_init_seq (s_server (x_s x)), mg_req_id = 0,
        mg_pkt_size = 0, mg_pkt_parsed = 0, mg_client_req = False\<rparr>)
     (\<lambda>x d. case d of D_mongodb d \<Rightarrow> mongodb_run env x d | _ \<Rightarrow> None)"

subsection \<open>Cassandra\<close>

text \<open>\<open>lft\<close> bytes are left to look at.\<close>
fun internode_loop :: "bytes \<Rightarrow> nat \<Rightarrow> nat \<Rightarrow> bool option" where
  "internode_loop m off 0 = Some False"
| "internode_loop m off (Suc lft) =
     (if Suc lft \<le> 4 then Some False
      else do {
        h \<leftarrow> mem_read m off 4;
        if h = [0xCA, 0x55, 0x2D, 0xFA] then Some True else internode_loop m (off + 1) lft })"

definition is_cassandra_internode :: "bytes \<Rightarrow> nat \<Rightarrow> u32 \<Rightarrow> bool option" where
  "is_cassandra_internode m off len = internode_loop m off (if len > 32 then 32 else unat len)"

text \<open>The operations a server sends.\<close>
definition ca_opcode :: "bool list" where
  "ca_opcode = [True, False, True, True, False, False, True, False, True, False, False, False, True, False, True, False, True]"

definition MAX_FRAME_LENGTH :: u32 where "MAX_FRAME_LENGTH = 256 * 1024 * 1024"

definition set_cassandra_svr :: "pstate \<Rightarrow> pstate" where
  "set_cassandra_svr x = x\<lparr>x_ep := (x_ep x)\<lparr>ep_cassandra_svr := True\<rparr>\<rparr>"

definition ca_count :: "byte \<Rightarrow> byte" where "ca_count n = (if n \<noteq> 0xff then n + 1 else n)"

definition cassandra_accept :: "par_mem \<Rightarrow> pstate \<Rightarrow> cassandra_data \<Rightarrow> bool \<Rightarrow> u32 \<Rightarrow> pstate option" where
  "cassandra_accept env x d client seq =
     (let d1 = (if client then d\<lparr>ca_client_cnt := ca_count (ca_client_cnt d), ca_client_seq := seq\<rparr>
                else d\<lparr>ca_server_cnt := ca_count (ca_server_cnt d), ca_server_seq := seq\<rparr>) in do {
       x1 \<leftarrow> dpi_put_parser_data (dpi_set_asm_seq x seq) (D_cassandra d1);
       if ca_client_cnt d1 \<noteq> 0 \<and> ca_server_cnt d1 \<noteq> 0 then finalize_ignore env (set_cassandra_svr x1) else Some x1 })"

text \<open>The header: its operation and the length of its frame, if it is there.\<close>
definition cassandra_header :: "bytes \<Rightarrow> nat \<Rightarrow> u32 \<Rightarrow> byte \<Rightarrow> (byte \<times> u32) option option" where
  "cassandra_header m off len version =
     (let k = (if version < 3 then 3 else 4) in
      if len < of_nat (k + 5) then Some None
      else do {
        opcode \<leftarrow> rd8 m (off + k);
        packet_len \<leftarrow> ld32 m (off + k + 1);
        Some (Some (opcode, ntohl packet_len)) })"

definition cassandra_run :: "par_mem \<Rightarrow> pstate \<Rightarrow> cassandra_data \<Rightarrow> pstate option" where
  "cassandra_run env x d =
     (let client = dpi_is_client_pkt (x_p x); seq = (if client then ca_client_seq d else ca_server_seq d)
      in case parser_seek x seq of
        None \<Rightarrow> dpi_fire_parser x
      | Some off \<Rightarrow> (let m = dpi_pkt_ptr x; len = dpi_pkt_len x - of_nat off in do {
          inter \<leftarrow> is_cassandra_internode m off len;
          if inter then dpi_finalize_parser env (set_cassandra_svr x)
          else do {
            b \<leftarrow> rd8 m off;
            let direction = (b AND 0x80 \<noteq> 0);
            let version = b AND 0x7f;
            if client = direction then dpi_fire_parser x
            else if version > 4 then dpi_fire_parser x
            else do {
              h \<leftarrow> cassandra_header m off len version;
              (case h of
                 None \<Rightarrow> Some x
               | Some (opcode, packet_len) \<Rightarrow>
                   if unat opcode \<ge> length ca_opcode then dpi_fire_parser x
                   else if ca_opcode ! unat opcode \<noteq> direction then dpi_fire_parser x
                   else if packet_len + 9 > MAX_FRAME_LENGTH then dpi_fire_parser x
                   else cassandra_accept env x d client (seq + len)) } } }))"

definition cassandra_parser :: "par_mem \<Rightarrow> pstate \<Rightarrow> pstate option" where
  "cassandra_parser env x = with_data env x
     (D_cassandra \<lparr>ca_client_seq = w_init_seq (s_client (x_s x)), ca_client_cnt = 0, ca_server_seq = w_init_seq (s_server (x_s x)), ca_server_cnt = 0\<rparr>)
     (\<lambda>x d. case d of D_cassandra d \<Rightarrow> cassandra_run env x d | _ \<Rightarrow> None)"

subsection \<open>PostgreSQL\<close>

text \<open>\<open>sql\<close> is the answer of the regular expression library for the one pattern of \<open>dpi_sqlinjection.c\<close>.\<close>
definition check_sql_query :: "par_mem \<Rightarrow> (bytes \<Rightarrow> bool) \<Rightarrow> pstate \<Rightarrow> bytes \<Rightarrow> pstate option" where
  "check_sql_query env sql x query = (if sql query then par_threat env DPI_THRT_SQL_INJECTION x else Some x)"

definition PGSQL_MAX_PACKET_SIZE :: u32 where "PGSQL_MAX_PACKET_SIZE = 30000"
definition MAX_STARTUP_PACKET_LENGTH :: u32 where "MAX_STARTUP_PACKET_LENGTH = 10000"

definition VALID_LONG_MESSAGE_TYPE :: "byte \<Rightarrow> bool" where
  "VALID_LONG_MESSAGE_TYPE c \<longleftrightarrow> c \<in> {84, 68, 100, 86, 69, 78, 65}"

text \<open>The messages of a session that is known: the outcome is the state, and the position reached when the parser is
  still interested. A message that ends with its length byte is not looked at; every message takes a byte.\<close>
function pg_messages :: "par_mem \<Rightarrow> (bytes \<Rightarrow> bool) \<Rightarrow> pstate \<Rightarrow> bytes \<Rightarrow> nat \<Rightarrow> nat \<Rightarrow> (pstate \<times> nat option) option" where
  "pg_messages env sql x m ptr len =
     (if len \<le> 5 then Some (x, Some ptr)
      else do {
        ty \<leftarrow> rd8 m ptr;
        w \<leftarrow> ld32 m (ptr + 1);
        let n = unat (ntohl w);
        if n > unat PGSQL_MAX_PACKET_SIZE \<or> n < 4 then map_option (\<lambda>y. (y, None)) (dpi_fire_parser x)
        else if n > len - 1 then Some (x, Some ptr)
        else if ty = 81 then
          if \<not> dpi_is_client_pkt (x_p x) then map_option (\<lambda>y. (y, None)) (dpi_fire_parser x)
          else do {
            q \<leftarrow> mem_read m (ptr + 5) (n - 4);
            y \<leftarrow> check_sql_query env sql x q;
            pg_messages env sql y m (ptr + 1 + n) (len - 1 - n) }
        else pg_messages env sql x m (ptr + 1 + n) (len - 1 - n) })"
  by pat_completeness auto
termination
  by (relation "measure (\<lambda>(env, sql, x, m, ptr, len). len)") auto

declare pg_messages.simps [simp del]

text \<open>The first message of a server; \<open>len\<close> counts the bytes from \<open>off\<close> on.\<close>
definition pg_server :: "par_mem \<Rightarrow> pstate \<Rightarrow> postgresql_data \<Rightarrow> nat \<Rightarrow> u32 \<Rightarrow> byte \<Rightarrow> (pstate \<times> nat option) option" where
  "pg_server env x d off len ty =
     (if len = 1 \<and> (ty = 83 \<or> ty = 78 \<or> ty = 69) \<and> pg_ssl_request d then
        map_option (\<lambda>y. (y, Some (off + 1))) (finalize_ignore env x)
      else if len < 5 then Some (x, None)
      else do {
        w \<leftarrow> ld32 (dpi_pkt_ptr x) (off + 1);
        let n = ntohl w;
        if n < 4 then map_option (\<lambda>y. (y, None)) (dpi_fire_parser x)
        else if n > PGSQL_MAX_PACKET_SIZE \<and> \<not> VALID_LONG_MESSAGE_TYPE ty then map_option (\<lambda>y. (y, None)) (dpi_fire_parser x)
        else do {
          y \<leftarrow> (if (ty = 82 \<or> ty = 69) \<and> (pg_startup_message d \<or> pg_cancel_request d) then finalize_ignore env x
                else dpi_fire_parser x);
          Some (y, Some (off + 1 + (if n > len - 1 then unat (len - 1) else unat n))) } })"

text \<open>The start of a client: \<open>len\<close> is unsigned and may wrap when the first byte is not zero.\<close>
definition pg_client :: "pstate \<Rightarrow> postgresql_data \<Rightarrow> nat \<Rightarrow> u32 \<Rightarrow> byte \<Rightarrow> (pstate \<times> postgresql_data \<times> nat option) option" where
  "pg_client x d off len ty =
     (if len < 4 then Some (x, d, None)
      else let k = (if ty \<noteq> 0 then 1 else 0); m = dpi_pkt_ptr x in do {
        w \<leftarrow> ld32 m (off + k);
        let n = ntohl w;
        if n < 8 \<or> n > MAX_STARTUP_PACKET_LENGTH then map_option (\<lambda>y. (y, d, None)) (dpi_fire_parser x)
        else let len1 = len - of_nat k - 4; nxt = off + k + 4 in
          if ty = 0 \<and> len1 < 4 then Some (x, d, None)
          else do {
            (y, d1) \<leftarrow> (if ty = 0 then do {
                 tw \<leftarrow> ld32 m nxt;
                 let tag = ntohl tw;
                 if n = 16 \<and> tag = 0x04d2162e then Some (x, d\<lparr>pg_cancel_request := True\<rparr>)
                 else if n = 8 \<and> tag = 0x04d2162f then Some (x, d\<lparr>pg_ssl_request := True\<rparr>)
                 else if tag = 0x30000 then Some (x, d\<lparr>pg_startup_message := True\<rparr>)
                 else map_option (\<lambda>y. (y, d)) (dpi_fire_parser x) }
               else map_option (\<lambda>y. (y, d)) (dpi_fire_parser x));
            Some (y, d1, if n - 4 > len1 then None else Some (nxt + unat (n - 4))) } })"

definition pg_set_seq :: "bool \<Rightarrow> u32 \<Rightarrow> postgresql_data \<Rightarrow> postgresql_data" where
  "pg_set_seq client seq d = (if client then d\<lparr>pg_client_seq := seq\<rparr> else d\<lparr>pg_server_seq := seq\<rparr>)"

definition pg_step :: "par_mem \<Rightarrow> (bytes \<Rightarrow> bool) \<Rightarrow> pstate \<Rightarrow> postgresql_data \<Rightarrow> nat \<Rightarrow> u32 \<Rightarrow> byte \<Rightarrow> (pstate \<times> postgresql_data \<times> nat option) option" where
  "pg_step env sql x d off len ty =
     (if dpi_is_parser_final x then map_option (\<lambda>(y, q). (y, d, q)) (pg_messages env sql x (dpi_pkt_ptr x) off (unat len))
      else if \<not> dpi_is_client_pkt (x_p x) then map_option (\<lambda>(y, q). (y, d, q)) (pg_server env x d off len ty)
      else pg_client x d off len ty)"

definition pg_close :: "bool \<Rightarrow> pstate \<times> postgresql_data \<times> nat option \<Rightarrow> pstate option" where
  "pg_close client r = (case r of (y, d, nxt) \<Rightarrow> (case nxt of
      None \<Rightarrow> dpi_put_parser_data y (D_postgresql d)
    | Some q \<Rightarrow> (let seq = dpi_ptr_2_seq y q in
        dpi_put_parser_data (dpi_set_asm_seq y seq) (D_postgresql (pg_set_seq client seq d)))))"

definition postgresql_run :: "par_mem \<Rightarrow> (bytes \<Rightarrow> bool) \<Rightarrow> pstate \<Rightarrow> postgresql_data \<Rightarrow> pstate option" where
  "postgresql_run env sql x d =
     (let client = dpi_is_client_pkt (x_p x); seq = (if client then pg_client_seq d else pg_server_seq d)
      in case parser_seek x seq of
        None \<Rightarrow> dpi_fire_parser x
      | Some off \<Rightarrow> do {
          ty \<leftarrow> rd8 (dpi_pkt_ptr x) off;
          r \<leftarrow> pg_step env sql x d off (dpi_pkt_len x - of_nat off) ty;
          pg_close client r })"

definition postgresql_parser :: "par_mem \<Rightarrow> (bytes \<Rightarrow> bool) \<Rightarrow> pstate \<Rightarrow> pstate option" where
  "postgresql_parser env sql x = with_data env x
     (D_postgresql \<lparr>pg_client_seq = w_init_seq (s_client (x_s x)), pg_server_seq = w_init_seq (s_server (x_s x)), pg_cancel_request = False,
        pg_ssl_request = False, pg_startup_message = False\<rparr>)
     (\<lambda>x d. case d of D_postgresql d \<Rightarrow> postgresql_run env sql x d | _ \<Rightarrow> None)"

subsection \<open>New sessions of the parsers of TCP\<close>

text \<open>They are hired for every session.\<close>
definition ssh_new_session :: "pstate \<Rightarrow> pstate option" where "ssh_new_session x = dpi_hire_parser x"
definition redis_new_session :: "pstate \<Rightarrow> pstate option" where "redis_new_session x = dpi_hire_parser x"
definition mongodb_new_session :: "pstate \<Rightarrow> pstate option" where "mongodb_new_session x = dpi_hire_parser x"
definition cassandra_new_session :: "pstate \<Rightarrow> pstate option" where "cassandra_new_session x = dpi_hire_parser x"
definition postgresql_new_session :: "pstate \<Rightarrow> pstate option" where "postgresql_new_session x = dpi_hire_parser x"

end
