(* ===== verification/DP_ParsersProps.thy ===== *)
theory DP_ParsersProps
  imports DP_Parsers DP_ParserProps
begin

text \<open>
  The small protocol parsers keep to the contract of the framework; most of them stay inside of the payload whatever
  it holds, and the ones that do not are shown with a payload that leads them out.
\<close>

text \<open>A state the parser \<open>t\<close> is called in.\<close>
definition called :: "nat \<Rightarrow> pstate \<Rightarrow> bool" where
  "called t x \<longleftrightarrow> pst_ok x \<and> x_cur x = Some t \<and> t < DPI_PARSER_MAX"

named_theorems obey_rules

lemma obeys_called: "obeys t x y \<Longrightarrow> called t x \<Longrightarrow> called t y"
  using obeys_ok[of t x y] by (auto simp: called_def obeys_def)

lemma obeys_seq: "obeys t x y \<Longrightarrow> (called t y \<Longrightarrow> obeys t y z) \<Longrightarrow> called t x \<Longrightarrow> obeys t x z"
  using obeys_trans obeys_called by blast

lemma obey_refl [obey_rules]: "called t x \<Longrightarrow> obeys t x x"
  using obeys_refl by (simp add: called_def)

lemma obey_fire [obey_rules]: "called t x \<Longrightarrow> dpi_fire_parser x = Some y \<Longrightarrow> obeys t x y"
  using obeys_fire[of x t] by (auto simp: called_def)

lemma obey_ignore [obey_rules]: "called t x \<Longrightarrow> dpi_ignore_parser x = Some y \<Longrightarrow> obeys t x y"
  using obey_fire by (simp add: ignore_fire)

lemma obey_finalize [obey_rules]: "called t x \<Longrightarrow> dpi_finalize_parser env x = Some y \<Longrightarrow> obeys t x y"
  using obeys_finalize[of x t env] by (auto simp: called_def)

lemma obey_finalize_ignore [obey_rules]: "called t x \<Longrightarrow> finalize_ignore env x = Some y \<Longrightarrow> obeys t x y"
  unfolding finalize_ignore_def
  by (auto split: bind_splits intro: obeys_seq[OF obey_finalize obey_ignore])

lemma obey_put [obey_rules]: "called t x \<Longrightarrow> dpi_put_parser_data x d = Some y \<Longrightarrow> obeys t x y"
  using obeys_put[of x t d] by (auto simp: called_def)

lemma obey_threat [obey_rules]: "called t x \<Longrightarrow> par_threat env idx x = Some y \<Longrightarrow> obeys t x y"
  using obeys_threat[of x t env idx y] by (auto simp: called_def)

lemma obey_set_asm [obey_rules]: "called t x \<Longrightarrow> obeys t x (dpi_set_asm_seq x seq)"
  using obeys_asm_seq by (simp add: called_def)

lemma obey_with_app [obey_rules]: "called t x \<Longrightarrow> with_app env x f = Some y \<Longrightarrow> obeys t x y"
proof -
  assume c: "called t x" and y: "with_app env x f = Some y"
  have "\<exists>ep. y = x\<lparr>x_ep := ep\<rparr>"
  proof (cases "sess_flag x DPI_SESS_FLAG_INGRESS")
    case True
    then show ?thesis using y by (auto simp: with_app_def split: prod.splits option.splits)
  next
    case False
    then have "y = x\<lparr>x_ep := x_ep x\<rparr>" using y by (simp add: with_app_def)
    then show ?thesis by blast
  qed
  then show ?thesis using c obeys_ep by (auto simp: called_def)
qed

lemma obey_with_data [obey_rules]:
  assumes "called t x" and "with_data env x d f = Some y"
    and "\<And>z e u. called t z \<Longrightarrow> f z e = Some u \<Longrightarrow> obeys t z u"
  shows "obeys t x y"
proof -
  obtain r where r: "dpi_get_parser_data x = Some r" using assms(2) by (auto simp: with_data_def split: bind_splits)
  show ?thesis
  proof (cases r)
    case None
    then have "dpi_fire_parser x = Some y \<or> (\<exists>z. dpi_put_parser_data x d = Some z \<and> f z d = Some y)"
      using assms(2) r by (auto simp: with_data_def split: if_splits bind_splits)
    then show ?thesis
      using assms(1,3) obey_fire obey_put obeys_called obeys_trans by metis
  next
    case (Some e)
    then show ?thesis using assms r by (auto simp: with_data_def)
  qed
qed

lemma parser_okI:
  assumes "t < DPI_PARSER_MAX" and "\<And>x y. called t x \<Longrightarrow> cb x = Some y \<Longrightarrow> obeys t x y"
  shows "parser_ok t cb"
  by unfold_locales (use assms in \<open>auto simp: called_def\<close>)

lemma echo_obeys: "called t x \<Longrightarrow> echo_parser env x = Some y \<Longrightarrow> obeys t x y"
  by (auto simp: echo_parser_def split: if_splits intro: obey_rules)

lemma dhcp_obeys: "called t x \<Longrightarrow> dhcp_parser env x = Some y \<Longrightarrow> obeys t x y"
  by (auto simp: dhcp_parser_def Let_def split: if_splits bind_splits intro: obey_rules)

lemma ntp_obeys: "called t x \<Longrightarrow> ntp_udp_parser env x = Some y \<Longrightarrow> obeys t x y"
  by (auto simp: ntp_udp_parser_def ntp_times_def Let_def split: if_splits bind_splits intro: obey_rules)

lemma tftp_obeys: "called t x \<Longrightarrow> tftp_udp_parser env x = Some y \<Longrightarrow> obeys t x y"
  by (auto simp: tftp_udp_parser_def tftp_decide_def Let_def split: if_splits bind_splits option.splits intro: obey_rules)

interpretation echo_ok: parser_ok DPI_PARSER_ECHO "echo_parser env" for env
  by (rule parser_okI) (simp_all add: DPI_PARSER_ECHO_def DPI_PARSER_MAX_def echo_obeys)

interpretation dhcp_ok: parser_ok DPI_PARSER_DHCP "dhcp_parser env" for env
  by (rule parser_okI) (simp_all add: DPI_PARSER_DHCP_def DPI_PARSER_MAX_def dhcp_obeys)

interpretation ntp_ok: parser_ok DPI_PARSER_NTP "ntp_udp_parser env" for env
  by (rule parser_okI) (simp_all add: DPI_PARSER_NTP_def DPI_PARSER_MAX_def ntp_obeys)

interpretation tftp_ok: parser_ok DPI_PARSER_TFTP "tftp_udp_parser env" for env
  by (rule parser_okI) (simp_all add: DPI_PARSER_TFTP_def DPI_PARSER_MAX_def tftp_obeys)

lemma obey_ver: "called t x \<Longrightarrow> dpi_ep_set_server_ver env x v n = Some y \<Longrightarrow> obeys t x y"
  unfolding dpi_ep_set_server_ver_def by (rule obey_with_app)

lemma ssh_banner_obeys:
  assumes c: "called t x" and b: "ssh_banner env x d m = Some (y, d1, r)"
  shows "obeys t x y"
proof -
  have "y = x \<or> (\<exists>x1 ver. (x1 = x \<or> (\<exists>v n. dpi_ep_set_server_ver env x v n = Some x1)) \<and>
      (if ver < (2 :: byte) then par_threat env DPI_THRT_SSH_VER_1 x1 else Some x1) = Some y)"
    using b by (auto simp: ssh_banner_def Let_def split: if_splits bind_splits option.splits prod.splits)
  then show ?thesis
  proof
    assume "\<exists>x1 ver. (x1 = x \<or> (\<exists>v n. dpi_ep_set_server_ver env x v n = Some x1)) \<and>
      (if ver < (2 :: byte) then par_threat env DPI_THRT_SSH_VER_1 x1 else Some x1) = Some y"
    then obtain x1 where x1: "x1 = x \<or> (\<exists>v n. dpi_ep_set_server_ver env x v n = Some x1)"
      and y: "par_threat env DPI_THRT_SSH_VER_1 x1 = Some y \<or> x1 = y" by (auto split: if_splits)
    have "obeys t x x1" using x1 c obey_refl obey_ver by blast
    then show ?thesis using y c obeys_seq obey_threat by blast
  qed (use c obey_refl in simp)
qed

lemma ssh_done_obeys: "called t x \<Longrightarrow> ssh_done client seq len x d = Some y \<Longrightarrow> obeys t x y"
  unfolding ssh_done_def by (auto intro: obeys_seq[OF obey_put obey_set_asm])

lemma ssh_first_obeys:
  assumes c: "called t x" and b: "ssh_first env x d = Some y"
  shows "obeys t x y"
proof -
  let ?client = "dpi_is_client_pkt (x_p x)"
  obtain x1 d1 r x2 where 1: "ssh_banner env x d (dpi_pkt_ptr x) = Some (x1, d1, r)" "dpi_put_parser_data x1 (D_ssh d1) = Some x2"
    using b by (auto simp: ssh_first_def Let_def split: bind_splits)
  have o1: "obeys t x x1" using ssh_banner_obeys[OF c 1(1)] .
  then have o2: "obeys t x x2" using obeys_seq[OF o1 obey_put[OF _ 1(2)] c] by simp
  have c2: "called t x2" using obeys_called[OF o2 c] .
  have "obeys t x2 y"
  proof (cases r)
    case (Inl u)
    then show ?thesis using b 1 c2 by (auto simp: ssh_first_def Let_def intro: obey_fire)
  next
    case (Inr eol)
    show ?thesis
    proof (cases "eol = 0")
      case True
      then show ?thesis using b 1 Inr c2 by (auto simp: ssh_first_def Let_def intro: obey_refl)
    next
      case False
      obtain x3 where x3: "(if ?client then Some x2 else dpi_finalize_parser env x2) = Some x3"
        using b 1 Inr False by (fastforce simp: ssh_first_def Let_def bind_eq_Some_conv)
      let ?s = "dpi_set_asm_seq x3 (dpi_ptr_2_seq x3 eol)"
      obtain x4 seq len d2 where x4: "(dpi_ignore_parser ?s = Some x4 \<or> x4 = ?s)" and y: "ssh_done ?client seq len x4 d2 = Some y"
        using b 1 Inr False x3 by (auto simp: ssh_first_def Let_def bind_eq_Some_conv split: if_splits)
      have o3: "obeys t x2 x3" using x3 c2 obey_refl obey_finalize by (auto split: if_splits)
      have o3': "obeys t x2 ?s" using obeys_seq[OF o3 obey_set_asm c2] by blast
      have "obeys t ?s x4" using x4 obey_refl obey_ignore obeys_called[OF o3' c2] by blast
      then have o4: "obeys t x2 x4" using obeys_trans[OF o3'] by blast
      then show ?thesis using obeys_trans[OF o4 ssh_done_obeys[OF obeys_called[OF o4 c2] y]] by blast
    qed
  qed
  then show ?thesis using obeys_trans[OF o2] by blast
qed

lemma ssh_run_obeys: "called t x \<Longrightarrow> ssh_run env x d = Some y \<Longrightarrow> obeys t x y"
  by (auto simp: ssh_run_def Let_def split: if_splits intro: ssh_first_obeys ssh_done_obeys obey_fire)

lemma ssh_obeys: 
  assumes c: "called t x" and b: "ssh_parser env x = Some y"
  shows "obeys t x y"
proof -
  have "y = x \<or> dpi_fire_parser x = Some y \<or> (\<exists>z d. (z = x \<or> dpi_put_parser_data x (D_ssh d) = Some z) \<and> ssh_run env z d = Some y)"
    using b by (auto simp: ssh_parser_def Let_def split: if_splits bind_splits option.splits parser_data.splits)
  then show ?thesis
    using c obey_refl obey_fire obey_put ssh_run_obeys obeys_seq by metis
qed

lemma redis_run_obeys: "called t x \<Longrightarrow> redis_run env x d = Some y \<Longrightarrow> obeys t x y"
  by (auto simp: redis_run_def Let_def split: if_splits bind_splits option.splits
      intro: obey_rules obeys_seq[OF obey_put obey_set_asm])

lemma redis_obeys: "called t x \<Longrightarrow> redis_parser env x = Some y \<Longrightarrow> obeys t x y"
  unfolding redis_parser_def by (erule obey_with_data, assumption) (auto split: parser_data.splits intro: redis_run_obeys)

lemma mg_eat_obeys: "called t x \<Longrightarrow> mg_eat client seq x d = Some y \<Longrightarrow> obeys t x y"
  unfolding mg_eat_def by (rule obeys_seq[OF obey_set_asm obey_put])

lemma mongodb_run_obeys: "called t x \<Longrightarrow> mongodb_run env x d = Some y \<Longrightarrow> obeys t x y"
  by (auto simp: mongodb_run_def Let_def split: if_splits bind_splits option.splits
      intro: obey_refl obey_fire mg_eat_obeys obeys_seq[OF obey_fire mg_eat_obeys] obeys_seq[OF obey_finalize_ignore mg_eat_obeys])

lemma mongodb_obeys: "called t x \<Longrightarrow> mongodb_parser env x = Some y \<Longrightarrow> obeys t x y"
  unfolding mongodb_parser_def by (erule obey_with_data, assumption) (auto split: parser_data.splits intro: mongodb_run_obeys)

lemma obey_svr: "called t x \<Longrightarrow> obeys t x (set_cassandra_svr x)"
  using obeys_ep by (simp add: set_cassandra_svr_def called_def)

lemma cassandra_accept_obeys:
  assumes c: "called t x" and b: "cassandra_accept env x d client seq = Some y"
  shows "obeys t x y"
proof -
  obtain d1 x1 where x1: "dpi_put_parser_data (dpi_set_asm_seq x seq) (D_cassandra d1) = Some x1"
    and y: "y = x1 \<or> finalize_ignore env (set_cassandra_svr x1) = Some y"
    using b by (auto simp: cassandra_accept_def Let_def bind_eq_Some_conv split: if_splits)
  have o1: "obeys t x x1" by (rule obeys_seq[OF obey_set_asm obey_put[OF _ x1]]) (use c in auto)
  have "obeys t x1 y"
    using y obey_refl obeys_seq[OF obey_svr obey_finalize_ignore] obeys_called[OF o1 c] by blast
  then show ?thesis using obeys_trans[OF o1] by blast
qed

lemma cassandra_run_obeys: "called t x \<Longrightarrow> cassandra_run env x d = Some y \<Longrightarrow> obeys t x y"
  by (auto simp: cassandra_run_def Let_def split: if_splits bind_splits option.splits prod.splits
      intro: obey_refl obey_fire cassandra_accept_obeys obeys_seq[OF obey_svr obey_finalize])

lemma cassandra_obeys: "called t x \<Longrightarrow> cassandra_parser env x = Some y \<Longrightarrow> obeys t x y"
  unfolding cassandra_parser_def by (erule obey_with_data, assumption) (auto split: parser_data.splits intro: cassandra_run_obeys)

lemma check_sql_obeys: "called t x \<Longrightarrow> check_sql_query env sql x q = Some y \<Longrightarrow> obeys t x y"
  by (auto simp: check_sql_query_def split: if_splits intro: obey_rules)

lemma pg_messages_obeys:
  "called t x \<Longrightarrow> pg_messages env sql x m ptr len = Some (y, nxt) \<Longrightarrow> obeys t x y"
proof (induction env sql x m ptr len arbitrary: y nxt rule: pg_messages.induct)
  case (1 env sql x m ptr len)
  show ?case
  proof (cases "len \<le> 5")
    case True
    then show ?thesis using 1(3,4) by (auto simp: pg_messages.simps[of env sql x m ptr len] intro: obey_refl)
  next
    case False
    obtain ty w where tw: "rd8 m ptr = Some ty" "ld32 m (ptr + 1) = Some w"
      using 1(4) False by (auto simp: pg_messages.simps[of env sql x m ptr len] bind_eq_Some_conv)
    let ?n = "unat (ntohl w)"
    note e = pg_messages.simps[of env sql x m ptr len]
    show ?thesis
    proof (cases "?n > unat PGSQL_MAX_PACKET_SIZE \<or> ?n < 4 \<or> ?n > len - 1 \<or> (ty = 81 \<and> \<not> dpi_is_client_pkt (x_p x))")
      case True
      then show ?thesis using 1(3,4) False tw by (auto simp: e Let_def split: if_splits intro: obey_refl obey_fire)
    next
      case ok: False
      show ?thesis
      proof (cases "ty = 81")
        case True
        obtain q z where q: "mem_read m (ptr + 5) (?n - 4) = Some q" "check_sql_query env sql x q = Some z"
           "pg_messages env sql z m (ptr + 1 + ?n) (len - 1 - ?n) = Some (y, nxt)"
          using 1(4) False tw ok True by (auto simp: e Let_def bind_eq_Some_conv split: if_splits)
        have o: "obeys t x z" using check_sql_obeys[OF 1(3) q(2)] .
        have "obeys t z y" using 1(1)[OF False tw refl _ _ True _ q(1,2) obeys_called[OF o 1(3)] q(3)] ok True by auto
        then show ?thesis using obeys_trans[OF o] by blast
      next
        case no: False
        then have "pg_messages env sql x m (ptr + 1 + ?n) (len - 1 - ?n) = Some (y, nxt)"
          using 1(4) False tw ok by (auto simp: e Let_def split: if_splits)
        then show ?thesis using 1(2)[OF False tw refl _ _ no 1(3)] ok by auto
      qed
    qed
  qed
qed

lemma pg_server_obeys: "called t x \<Longrightarrow> pg_server env x d off len ty = Some (y, nxt) \<Longrightarrow> obeys t x y"
  by (auto simp: pg_server_def Let_def bind_eq_Some_conv split: if_splits intro: obey_rules)

lemma pg_client_obeys: "called t x \<Longrightarrow> pg_client x d off len ty = Some (y, d1, nxt) \<Longrightarrow> obeys t x y"
  by (auto simp: pg_client_def Let_def bind_eq_Some_conv split: if_splits intro: obey_rules)

lemma postgresql_run_obeys:
  assumes c: "called t x" and b: "postgresql_run env sql x d = Some y"
  shows "obeys t x y"
proof (cases "parser_seek x (if dpi_is_client_pkt (x_p x) then pg_client_seq d else pg_server_seq d)")
  case None
  then show ?thesis using b c by (auto simp: postgresql_run_def Let_def intro: obey_fire)
next
  case (Some off)
  obtain ty z d1 nxt where z: "pg_step env sql x d off (dpi_pkt_len x - of_nat off) ty = Some (z, d1, nxt)"
    and y: "pg_close (dpi_is_client_pkt (x_p x)) (z, d1, nxt) = Some y"
    using b Some by (auto simp: postgresql_run_def Let_def bind_eq_Some_conv)
  have o: "obeys t x z"
    using z c by (auto simp: pg_step_def split: if_splits intro: pg_messages_obeys pg_server_obeys pg_client_obeys)
  have "obeys t z y"
    using y obeys_called[OF o c] by (auto simp: pg_close_def Let_def split: option.splits intro: obey_put obeys_seq[OF obey_set_asm obey_put])
  then show ?thesis using obeys_trans[OF o] by blast
qed

lemma postgresql_obeys: "called t x \<Longrightarrow> postgresql_parser env sql x = Some y \<Longrightarrow> obeys t x y"
  unfolding postgresql_parser_def by (erule obey_with_data, assumption) (auto split: parser_data.splits intro: postgresql_run_obeys)

interpretation ssh_ok: parser_ok DPI_PARSER_SSH "ssh_parser env" for env
  by (rule parser_okI) (simp_all add: DPI_PARSER_SSH_def DPI_PARSER_MAX_def ssh_obeys)

interpretation redis_ok: parser_ok DPI_PARSER_REDIS "redis_parser env" for env
  by (rule parser_okI) (simp_all add: DPI_PARSER_REDIS_def DPI_PARSER_MAX_def redis_obeys)

interpretation mongodb_ok: parser_ok DPI_PARSER_MONGODB "mongodb_parser env" for env
  by (rule parser_okI) (simp_all add: DPI_PARSER_MONGODB_def DPI_PARSER_MAX_def mongodb_obeys)

interpretation cassandra_ok: parser_ok DPI_PARSER_CASSANDRA "cassandra_parser env" for env
  by (rule parser_okI) (simp_all add: DPI_PARSER_CASSANDRA_def DPI_PARSER_MAX_def cassandra_obeys)

interpretation postgresql_ok: parser_ok DPI_PARSER_POSTGRESQL "postgresql_parser env sql" for env sql
  by (rule parser_okI) (simp_all add: DPI_PARSER_POSTGRESQL_def DPI_PARSER_MAX_def postgresql_obeys)

subsection \<open>Inside of the payload\<close>

text \<open>What the framework hands to a parser: a payload that is not empty, and the parser's own data.\<close>
definition fed :: "nat \<Rightarrow> pstate \<Rightarrow> bool" where
  "fed t x \<longleftrightarrow> called t x \<and> dpi_pkt_ptr x \<noteq> [] \<and> length (dpi_pkt_ptr x) < 2147483648"

lemma fed_len: "fed t x \<Longrightarrow> unat (dpi_pkt_len x) = length (dpi_pkt_ptr x)"
  by (simp add: fed_def dpi_pkt_len_def unat_of_nat)

lemma fire_some: "called t x \<Longrightarrow> \<exists>y. dpi_fire_parser x = Some y"
  using obeys_fire[of x t] by (auto simp: called_def)

lemma put_some: "called t x \<Longrightarrow> \<exists>y. dpi_put_parser_data x d = Some y"
  using obeys_put[of x t d] by (auto simp: called_def)

lemma finalize_some: "called t x \<Longrightarrow> \<exists>y. dpi_finalize_parser env x = Some y"
  using obeys_finalize[of x t env] by (auto simp: called_def)

lemma finalize_ignore_some: "called t x \<Longrightarrow> \<exists>y. finalize_ignore env x = Some y"
proof -
  assume c: "called t x"
  obtain y where y: "dpi_finalize_parser env x = Some y" using finalize_some[OF c] by blast
  have "called t y" using obeys_called[OF obey_finalize[OF c y] c] .
  then show ?thesis using y fire_some by (auto simp: finalize_ignore_def ignore_fire)
qed

lemma echo_safe: "called t x \<Longrightarrow> \<exists>y. echo_parser env x = Some y"
  using fire_some finalize_ignore_some by (auto simp: echo_parser_def)

lemma dhcp_safe:
  assumes "fed t x"
  shows "\<exists>y. dhcp_parser env x = Some y"
proof -
  have c: "called t x" using assms by (simp add: fed_def)
  show ?thesis
  proof (cases "dpi_pkt_len x < 240 + 4")
    case True
    then show ?thesis using fire_some[OF c] by (simp add: dhcp_parser_def Let_def)
  next
    case False
    then have "length (dpi_pkt_ptr x) \<ge> 244" using fed_len[OF assms] by (simp add: word_less_nat_alt)
    then show ?thesis
      using False fire_some[OF c] finalize_some[OF c, of env] by (simp add: dhcp_parser_def Let_def rd8_def mem_read_def)
  qed
qed

lemma ref_name_safe: "off + n \<le> length m \<Longrightarrow> \<exists>r. check_ref_name m off n fin = Some r"
  by (induction m off n fin rule: check_ref_name.induct) (auto simp: rd8_def)

lemma ntp_safe:
  assumes "fed t x"
  shows "\<exists>y. ntp_udp_parser env x = Some y"
proof -
  have c: "called t x" using assms by (simp add: fed_def)
  show ?thesis
  proof (cases "\<not> pkt_ports x 123 \<or> dpi_pkt_len x < 48")
    case True
    then show ?thesis using fire_some[OF c] by (auto simp: ntp_udp_parser_def)
  next
    case False
    then have len: "length (dpi_pkt_ptr x) \<ge> 48" using fed_len[OF assms] by (simp add: word_less_nat_alt)
    have ld: "\<exists>v. ld32 (dpi_pkt_ptr x) k = Some v" if "k + 4 \<le> 48" for k
      using ld32_Some[of k "dpi_pkt_ptr x"] that len by simp
    obtain ref org rev trs where "ld32 (dpi_pkt_ptr x) 16 = Some ref" "ld32 (dpi_pkt_ptr x) 24 = Some org"
       "ld32 (dpi_pkt_ptr x) 32 = Some rev" "ld32 (dpi_pkt_ptr x) 40 = Some trs"
      using ld[of 16] ld[of 24] ld[of 32] ld[of 40] by auto
    then have "\<exists>y. ntp_times env x = Some y"
      using fire_some[OF c] finalize_ignore_some[OF c, of env] by (simp add: ntp_times_def Let_def)
    moreover obtain g where "check_ref_name (dpi_pkt_ptr x) 12 4 False = Some g" using ref_name_safe[of 12 4 "dpi_pkt_ptr x" False] len by auto
    ultimately show ?thesis
      using False fire_some[OF c] len by (auto simp: ntp_udp_parser_def Let_def rd8_def)
  qed
qed

lemma file_name_safe:
  "lft \<le> length m \<Longrightarrow> \<exists>r. file_name_loop lft m n = Some r \<and> (\<forall>k. r = Some k \<longrightarrow> k \<le> n + lft)"
  by (induction lft m n rule: file_name_loop.induct) auto

lemma option_safe: "lft \<le> length m \<Longrightarrow> \<exists>r. option_loop lft m n g = Some r"
  by (induction lft m n g rule: option_loop.induct) auto

lemma mode_safe: "lft \<le> length m \<Longrightarrow> length name + lft \<le> 20 \<Longrightarrow> \<exists>r. mode_loop lft m name g = Some r"
  by (induction lft m name g rule: mode_loop.induct) (auto simp: Let_def)

lemma ucast_le: "unat (ucast (w :: u32) :: u16) \<le> unat w"
  by (simp add: unsigned_ucast_eq take_bit_nat_less_eq_self)

lemma tftp_safe:
  assumes "fed t x"
  shows "\<exists>y. tftp_udp_parser env x = Some y"
proof -
  have c: "called t x" using assms by (simp add: fed_def)
  let ?m = "dpi_pkt_ptr x" and ?len = "dpi_pkt_len x"
  have dec: "\<exists>y. tftp_decide env x g = Some y" for g
    using fire_some[OF c] finalize_ignore_some[OF c] by (simp add: tftp_decide_def)
  show ?thesis
  proof (cases "\<not> pkt_ports x 69 \<or> ?len < 4")
    case True
    then show ?thesis using fire_some[OF c] by (cases "pkt_ports x 69") (simp_all add: tftp_udp_parser_def Let_def)
  next
    case False
    then have l4: "4 \<le> length ?m" using fed_len[OF assms] by (simp add: word_less_nat_alt)
    then have l2: "unat (?len - 2) = length ?m - 2"
      using fed_len[OF assms] by (subst unat_sub) (simp_all add: word_le_nat_alt)
    obtain w where w: "ld16 ?m 0 = Some w" using ld16_Some[of 0 ?m] l4 by auto
    have u: "unat (ucast (?len - 2) :: u16) \<le> length (drop 2 ?m)" using ucast_le[of "?len - 2"] l2 by simp
    obtain r where r: "check_file_name (drop 2 ?m) (ucast (?len - 2)) = Some r" "\<forall>k. r = Some k \<longrightarrow> k \<le> length ?m - 2"
    proof -
      let ?n = "if (ucast (?len - 2) :: u16) > 128 then 128 else unat (ucast (?len - 2) :: u16)"
      have "?n \<le> length (drop 2 ?m)" using u by (auto simp: word_less_nat_alt)
      from file_name_safe[OF this, of 0] show ?thesis using that \<open>?n \<le> length (drop 2 ?m)\<close> by (fastforce simp: check_file_name_def)
    qed
    obtain g where g: "check_option (drop 2 ?m) (ucast (?len - 2)) = Some g"
    proof -
      let ?n = "if (ucast (?len - 2) :: u16) > 20 then 20 else unat (ucast (?len - 2) :: u16)"
      have "?n \<le> length (drop 2 ?m)" using u by (auto simp: word_less_nat_alt)
      from option_safe[OF this] show ?thesis using that by (auto simp: check_option_def)
    qed
    have md: "\<exists>g. check_mode (drop (2 + k) ?m) (ucast (?len - 2 - of_nat k)) = Some g" if "r = Some k" for k
    proof -
      have k: "k \<le> length ?m - 2" using r(2) that by blast
      have "unat (?len - 2 - of_nat k) = length ?m - 2 - k"
        using k l2 unat32_lt[of "?len - 2"] by (subst unat_sub) (simp_all add: word_le_nat_alt unat_of_nat)
      then have le: "unat (ucast (?len - 2 - of_nat k) :: u16) \<le> length (drop (2 + k) ?m)"
        using ucast_le[of "?len - 2 - of_nat k"] by simp
      let ?n = "if (ucast (?len - 2 - of_nat k) :: u16) > 20 then 20 else unat (ucast (?len - 2 - of_nat k) :: u16)"
      have "?n \<le> length (drop (2 + k) ?m)" "length ([] :: bytes) + ?n \<le> 20" using le by (auto simp: word_less_nat_alt)
      from mode_safe[OF this] show ?thesis by (simp add: check_mode_def)
    qed
    show ?thesis
    proof (cases r)
      case None
      then show ?thesis using False w r(1) g dec fire_some[OF c] by (simp add: tftp_udp_parser_def Let_def)
    next
      case (Some k)
      obtain h where "check_mode (drop (2 + k) ?m) (ucast (?len - 2 - of_nat k)) = Some h" using md[OF Some] by blast
      then show ?thesis using False w r(1) Some g dec fire_some[OF c] by (simp add: tftp_udp_parser_def Let_def)
    qed
  qed
qed

lemma seek_in:
  assumes "fed t x" and "parser_seek x seq = Some off"
  shows "off < length (dpi_pkt_ptr x)" and "unat (dpi_pkt_len x - of_nat off) = length (dpi_pkt_ptr x) - off"
proof -
  show o: "off < length (dpi_pkt_ptr x)"
    using assms fed_len[OF assms(1)]
    by (auto simp: parser_seek_def fed_def dpi_is_seq_in_pkt_def word_less_nat_alt split: if_splits)
  then show "unat (dpi_pkt_len x - of_nat off) = length (dpi_pkt_ptr x) - off"
    using fed_len[OF assms(1)] assms(1) by (subst unat_sub) (simp_all add: word_le_nat_alt unat_of_nat fed_def)
qed

lemma fed_put:
  assumes "fed t x" "dpi_put_parser_data x d = Some y"
  shows "fed t y"
proof -
  have "x_asm y = x_asm x" "x_asm_pkt y = x_asm_pkt x" "x_p y = x_p x" using assms(2) by (auto simp: dpi_put_parser_data_def)
  then have "dpi_pkt_ptr y = dpi_pkt_ptr x" by (simp add: pkt_buffer_def)
  then show ?thesis using assms obeys_called[OF obey_put] by (auto simp: fed_def)
qed

lemma with_data_some:
  assumes "fed t x" and own: "\<And>e. x_data x ! t = Some e \<Longrightarrow> P e" and "P d"
    and step: "\<And>z e. fed t z \<Longrightarrow> P e \<Longrightarrow> \<exists>y. f z e = Some y"
  shows "\<exists>y. with_data env x d f = Some y"
proof -
  have c: "called t x" using assms(1) by (simp add: fed_def)
  obtain z where z: "dpi_put_parser_data x d = Some z" using put_some[OF c] by blast
  have g: "dpi_get_parser_data x = Some (x_data x ! t)" using c by (simp add: dpi_get_parser_data_def called_def)
  show ?thesis
  proof (cases "x_data x ! t")
    case None
    then show ?thesis using g z fire_some[OF c] step[OF fed_put[OF assms(1) z] assms(3)] by (auto simp: with_data_def)
  next
    case (Some e)
    then show ?thesis using g step[OF assms(1) own] by (simp add: with_data_def)
  qed
qed

lemma eat_some: "called t x \<Longrightarrow> \<exists>y. mg_eat client seq x d = Some y"
  unfolding mg_eat_def using put_some obeys_called[OF obey_set_asm] by blast

lemma mongodb_run_safe:
  assumes f: "fed t x"
  shows "\<exists>y. mongodb_run env x d = Some y"
proof (cases "parser_seek x (if dpi_is_client_pkt (x_p x) then mg_client_seq d else mg_server_seq d)")
  case None
  then show ?thesis using f fire_some by (auto simp: mongodb_run_def Let_def fed_def)
next
  case (Some off)
  have c: "called t x" using f by (simp add: fed_def)
  note in_pkt = seek_in[OF f Some]
  let ?m = "dpi_pkt_ptr x" and ?len = "dpi_pkt_len x - of_nat off"
  have fe: "\<exists>y. dpi_fire_parser x = Some y \<and> (\<forall>cl sq d. \<exists>z. mg_eat cl sq y d = Some z)"
    using fire_some[OF c] eat_some obeys_called[OF obey_fire[OF c] c] by blast
  have ie: "\<exists>y. finalize_ignore env x = Some y \<and> (\<forall>cl sq d. \<exists>z. mg_eat cl sq y d = Some z)"
    using finalize_ignore_some[OF c] eat_some obeys_called[OF obey_finalize_ignore[OF c] c] by blast
  have e: "\<exists>y. mg_eat cl sq x d = Some y" for cl sq d using eat_some[OF c] .
  show ?thesis
  proof (cases "dpi_is_client_pkt (x_p x) \<and> mg_client_req d \<or> ?len < 16")
    case True
    then show ?thesis using Some fe e by (auto simp: mongodb_run_def Let_def)
  next
    case False
    then have "\<not> length ?m - off < 16" using in_pkt(2) by (simp add: word_less_nat_alt)
    then have "off + 16 \<le> length ?m" using in_pkt(1) by linarith
    then obtain a b c d where "ld32 ?m off = Some a" "ld32 ?m (off + 4) = Some b" "ld32 ?m (off + 8) = Some c" "ld32 ?m (off + 12) = Some d"
      using ld32_Some[of off ?m] ld32_Some[of "off + 4" ?m] ld32_Some[of "off + 8" ?m] ld32_Some[of "off + 12" ?m] by auto
    then show ?thesis using Some False fe ie e by (auto simp: mongodb_run_def Let_def)
  qed
qed

lemma internode_safe: "off + lft \<le> length m \<Longrightarrow> \<exists>r. internode_loop m off lft = Some r"
  by (induction m off lft rule: internode_loop.induct) (auto simp: mem_read_def)

lemma accept_some: "called t x \<Longrightarrow> \<exists>y. cassandra_accept env x d client seq = Some y"
proof -
  assume c: "called t x"
  define d1 where "d1 = (if client then d\<lparr>ca_client_cnt := ca_count (ca_client_cnt d), ca_client_seq := seq\<rparr>
                else d\<lparr>ca_server_cnt := ca_count (ca_server_cnt d), ca_server_seq := seq\<rparr>)"
  have c0: "called t (dpi_set_asm_seq x seq)" using obeys_called[OF obey_set_asm[OF c] c] .
  obtain x1 where x1: "dpi_put_parser_data (dpi_set_asm_seq x seq) (D_cassandra d1) = Some x1" using put_some[OF c0] by blast
  have "called t x1" using obeys_called[OF obey_put[OF c0 x1] c0] .
  then have "called t (set_cassandra_svr x1)" using obeys_called[OF obey_svr] by blast
  from finalize_ignore_some[OF this, of env] show ?thesis
    using x1 by (auto simp: cassandra_accept_def Let_def d1_def[symmetric])
qed

lemma header_safe:
  assumes "unat len = length m - off" "off \<le> length m"
  shows "\<exists>h. cassandra_header m off len version = Some h"
proof -
  define k :: nat where "k = (if version < 3 then 3 else 4)"
  have k: "k \<le> 4" by (simp add: k_def)
  then have u: "unat (of_nat (k + 5) :: u32) = k + 5" by (simp only: unat_of_nat) simp
  have "off + k + 5 \<le> length m" if "\<not> len < of_nat (k + 5)"
    using that assms u by (simp add: word_less_nat_alt del: of_nat_add)
  then show ?thesis
    using ld32_Some[of "off + k + 1" m]
    by (cases "len < of_nat (k + 5)") (auto simp: cassandra_header_def Let_def k_def[symmetric] rd8_def simp del: of_nat_add)
qed

lemma cassandra_run_safe:
  assumes f: "fed t x"
  shows "\<exists>y. cassandra_run env x d = Some y"
proof (cases "parser_seek x (if dpi_is_client_pkt (x_p x) then ca_client_seq d else ca_server_seq d)")
  case None
  then show ?thesis using f fire_some by (auto simp: cassandra_run_def Let_def fed_def)
next
  case (Some off)
  have c: "called t x" using f by (simp add: fed_def)
  note in_pkt = seek_in[OF f Some]
  let ?m = "dpi_pkt_ptr x" and ?len = "dpi_pkt_len x - of_nat off"
  have "off + (if ?len > 32 then 32 else unat ?len) \<le> length ?m" using in_pkt by (auto simp: word_less_nat_alt)
  then obtain i where i: "is_cassandra_internode ?m off ?len = Some i"
    using internode_safe[of off "if ?len > 32 then 32 else unat ?len" ?m] by (auto simp: is_cassandra_internode_def)
  have b: "rd8 ?m off = Some (?m ! off)" using in_pkt(1) by (simp add: rd8_def)
  obtain h where h: "cassandra_header ?m off ?len (?m ! off AND 0x7f) = Some h" using header_safe[OF in_pkt(2)] in_pkt(1) by auto
  have "called t (set_cassandra_svr x)" using obeys_called[OF obey_svr[OF c] c] .
  from finalize_some[OF this, of env] show ?thesis
    using Some i b h fire_some[OF c] accept_some[OF c] by (auto simp: cassandra_run_def Let_def split: option.splits)
qed

text \<open>C28. Whatever their payload holds, the parsers of echo, DHCP, NTP, TFTP, MongoDB and Cassandra return without a read
  outside of it, when they are called the way the framework calls them.\<close>
theorem small_parsers_safe:
  assumes "fed t x"
  shows "(\<exists>y. echo_parser env x = Some y) \<and> (\<exists>y. dhcp_parser env x = Some y) \<and> (\<exists>y. ntp_udp_parser env x = Some y) \<and>
    (\<exists>y. tftp_udp_parser env x = Some y) \<and>
    ((\<forall>e. x_data x ! t = Some e \<longrightarrow> (\<exists>d. e = D_mongodb d)) \<longrightarrow> (\<exists>y. mongodb_parser env x = Some y)) \<and>
    ((\<forall>e. x_data x ! t = Some e \<longrightarrow> (\<exists>d. e = D_cassandra d)) \<longrightarrow> (\<exists>y. cassandra_parser env x = Some y))"
proof (intro conjI impI)
  have c: "called t x" using assms by (simp add: fed_def)
  show "\<exists>y. echo_parser env x = Some y" using echo_safe[OF c] .
  show "\<exists>y. dhcp_parser env x = Some y" using dhcp_safe[OF assms] .
  show "\<exists>y. ntp_udp_parser env x = Some y" using ntp_safe[OF assms] .
  show "\<exists>y. tftp_udp_parser env x = Some y" using tftp_safe[OF assms] .
next
  assume "\<forall>e. x_data x ! t = Some e \<longrightarrow> (\<exists>d. e = D_mongodb d)"
  then show "\<exists>y. mongodb_parser env x = Some y" unfolding mongodb_parser_def
    by (intro with_data_some[OF assms, where P = "\<lambda>e. \<exists>d. e = D_mongodb d"]) (auto intro: mongodb_run_safe)
next
  assume "\<forall>e. x_data x ! t = Some e \<longrightarrow> (\<exists>d. e = D_cassandra d)"
  then show "\<exists>y. cassandra_parser env x = Some y" unfolding cassandra_parser_def
    by (intro with_data_some[OF assms, where P = "\<lambda>e. \<exists>d. e = D_cassandra d"]) (auto intro: cassandra_run_safe)
qed

definition ep_zero :: io_ep where
  "ep_zero = \<lparr>ep_app_map = rcu_map_init, ep_app_updated = 0, ep_app_ports = 0, ep_tap = False, ep_cassandra_svr = False\<rparr>"

text \<open>A packet from a client, with the parsers of the given bits hired.\<close>
definition sample :: "byte \<Rightarrow> u16 \<Rightarrow> bytes \<Rightarrow> nat option \<Rightarrow> bytes \<Rightarrow> pstate" where
  "sample proto port bits c data = \<lparr>x_p = pkt_zero\<lparr>p_ip_proto := proto, p_flags := DPI_PKT_FLAG_CLIENT, p_dport := port, p_raw := \<lparr>b_data = data, b_seq = 0\<rparr>\<rparr>,
     x_s = sess_zero\<lparr>s_parser_bits := bits, s_ip_proto := proto\<rparr>, x_data = replicate 20 None, x_cur = c, x_left = 0, x_asm_seq = 0,
     x_parser_asm_seq = 0, x_asm_pkt = \<lparr>b_data = [], b_seq = 0\<rparr>, x_asm = False, x_ep = ep_zero, x_log = log_start, x_freed = []\<rparr>"

definition mem_all :: par_mem where "mem_all = \<lparr>pm_data = True, pm_app = True, pm_log = True\<rparr>"

lemma sample_called:
  "called t (sample PROTO_UDP port [0, 0, 0] (Some t) data) \<longleftrightarrow> t < DPI_PARSER_MAX"
  "called t (sample PROTO_TCP port [0, 0, 0] (Some t) data) \<longleftrightarrow> t < DPI_PARSER_MAX"
proof -
  have "BITMASK_TEST [0, 0, 0] u = False" if "u < 20" for u
  proof -
    have "u div 8 < 3" using that by (simp add: less_mult_imp_div_less)
    then consider "u div 8 = 0" | "u div 8 = 1" | "u div 8 = 2" by linarith
    then have "([0, 0, 0] :: bytes) ! (u div 8) = 0" by cases (simp_all only: nth_Cons_0 nth_Cons_Suc One_nat_def numeral_2_eq_2)
    then show ?thesis by (simp add: BITMASK_TEST_def)
  qed
  then have "team (sample proto port [0, 0, 0] (Some t) data) = {}" for proto
    by (simp add: team_def hired_def sample_def DPI_PARSER_MAX_def)
  then show "called t (sample PROTO_UDP port [0, 0, 0] (Some t) data) \<longleftrightarrow> t < DPI_PARSER_MAX"
    "called t (sample PROTO_TCP port [0, 0, 0] (Some t) data) \<longleftrightarrow> t < DPI_PARSER_MAX"
    by (simp_all add: called_def pst_ok_def) (simp_all add: sample_def sess_zero_def DPI_PARSER_MAX_def)
qed

theorem small_parsers_safe_witness:
  "\<exists>y. tftp_udp_parser mem_all (sample PROTO_UDP 69 [0, 0, 0] (Some DPI_PARSER_TFTP) [0, 1, 97, 0, 111]) = Some y"
proof -
  have "fed DPI_PARSER_TFTP (sample PROTO_UDP 69 [0, 0, 0] (Some DPI_PARSER_TFTP) [0, 1, 97, 0, 111])"
    by (simp add: fed_def sample_called DPI_PARSER_TFTP_def DPI_PARSER_MAX_def) (simp add: sample_def pkt_buffer_def)
  from small_parsers_safe[OF this, of mem_all] show ?thesis by blast
qed

text \<open>C27. However the hired parsers take their packets, as long as each keeps to its contract (it may lose interest or
  finalize, nothing else), the framework keeps the session consistent: hired parsers only leave; a parser that left
  has no data any more; the session is marked as skipped exactly when no parser is left; and when one parser is left,
  the session has settled for it, so that a finalized session never has two parsers.\<close>
theorem proto_parser_arbitration:
  assumes "sess_inv x" and "\<not> sess_flag x DPI_SESS_FLAG_SKIP_PARSER"
    and "\<And>t. t \<in> team x \<Longrightarrow> parser_ok t (cb_parser (cbs (p_ip_proto (x_p x)) t))"
    and "dpi_proto_parser cbs x = Some y"
  shows "sess_inv y \<and> team y \<subseteq> team x \<and> (team y = {} \<longleftrightarrow> sess_flag y DPI_SESS_FLAG_SKIP_PARSER) \<and>
    (\<forall>t. team y = {t} \<longrightarrow> sess_flag y DPI_SESS_FLAG_ONLY_PARSER \<and> s_only_parser (x_s y) = t)"
  using proto_parser_settled[OF assms] unfolding settled_def by blast

text \<open>The callbacks of the modelled parsers of UDP; the others are what they are.\<close>
definition plain_cb :: "(pstate \<Rightarrow> pstate option) \<Rightarrow> (pstate \<Rightarrow> pstate option) \<Rightarrow> parser_cb" where
  "plain_cb new prs = \<lparr>cb_new_session = new, cb_parser = prs, cb_new_mid_sess = \<lambda>_. None, cb_midstream = \<lambda>_. None\<rparr>"

definition udp_cbs :: "par_mem \<Rightarrow> parser_cbs \<Rightarrow> parser_cbs" where
  "udp_cbs env other proto t =
     (if t = DPI_PARSER_ECHO then plain_cb echo_new_session (echo_parser env)
      else if t = DPI_PARSER_NTP then plain_cb ntp_new_session (ntp_udp_parser env)
      else if t = DPI_PARSER_DHCP then plain_cb dhcp_new_session (dhcp_parser env)
      else if t = DPI_PARSER_TFTP then plain_cb tftp_new_session (tftp_udp_parser env)
      else other proto t)"

lemma udp_cbs_ok:
  "t \<in> {DPI_PARSER_ECHO, DPI_PARSER_NTP, DPI_PARSER_DHCP, DPI_PARSER_TFTP} \<Longrightarrow> parser_ok t (cb_parser (udp_cbs env other proto t))"
  using echo_ok.parser_ok_axioms[of env] ntp_ok.parser_ok_axioms[of env] dhcp_ok.parser_ok_axioms[of env] tftp_ok.parser_ok_axioms[of env]
  by (elim insertE emptyE) (simp_all add: udp_cbs_def plain_cb_def DPI_PARSER_ECHO_def DPI_PARSER_NTP_def DPI_PARSER_DHCP_def DPI_PARSER_TFTP_def)

definition ntp_sample :: pstate where
  "ntp_sample = sample PROTO_UDP 123 [0xb0, 0, 0] None (replicate 48 0)"

abbreviation no_cbs :: parser_cbs where
  "no_cbs \<equiv> \<lambda>_ _. plain_cb (\<lambda>_. None) (\<lambda>_. None)"

lemma team_filter: "team x = set (filter (hired x) [0 ..< DPI_PARSER_MAX])"
  by (auto simp: team_def)

lemma ntp_sample_team: "team ntp_sample = {4, 5, 7}"
proof -
  have "filter (hired ntp_sample) [0 ..< DPI_PARSER_MAX] = [4, 5, 7]" by code_simp
  then show ?thesis by (simp only: team_filter) simp
qed

lemma ntp_sample_inv: "sess_inv ntp_sample"
proof -
  have "list_all (\<lambda>t. parser_at PROTO_UDP t \<noteq> None) [4, 5, 7]" by code_simp
  then have "pst_ok ntp_sample"
    unfolding pst_ok_def ntp_sample_team by (simp add: ntp_sample_def sample_def sess_zero_def DPI_PARSER_MAX_def)
  then show ?thesis
    by (simp add: sess_inv_def data_ok_def) (simp add: ntp_sample_def sample_def sess_zero_def DPI_PARSER_MAX_def FLAGS_TEST_def)
qed

text \<open>An NTP packet with the parsers of DHCP, NTP and echo hired: NTP finalizes the session and leaves.\<close>
theorem proto_parser_arbitration_witness:
  "\<exists>y. dpi_proto_parser (udp_cbs mem_all no_cbs) ntp_sample = Some y \<and> sess_inv y \<and> team y = {} \<and> sess_flag y DPI_SESS_FLAG_SKIP_PARSER"
proof -
  have "map_option (\<lambda>y. (s_parser_bits (x_s y), sess_flag y DPI_SESS_FLAG_SKIP_PARSER)) (dpi_proto_parser (udp_cbs mem_all no_cbs) ntp_sample)
      = Some ([0, 0, 0], True)"
    by code_simp
  then obtain y where y: "dpi_proto_parser (udp_cbs mem_all no_cbs) ntp_sample = Some y" "sess_flag y DPI_SESS_FLAG_SKIP_PARSER" by auto
  have "\<not> sess_flag ntp_sample DPI_SESS_FLAG_SKIP_PARSER" by (simp add: ntp_sample_def sample_def sess_zero_def FLAGS_TEST_def)
  moreover have "parser_ok t (cb_parser (udp_cbs mem_all no_cbs (p_ip_proto (x_p ntp_sample)) t))" if "t \<in> team ntp_sample" for t
    by (rule udp_cbs_ok) (use that in \<open>auto simp: ntp_sample_team DPI_PARSER_ECHO_def DPI_PARSER_NTP_def DPI_PARSER_DHCP_def DPI_PARSER_TFTP_def\<close>)
  ultimately show ?thesis using proto_parser_arbitration[OF ntp_sample_inv _ _ y(1)] y by blast
qed

end
