(* ===== verification/DP_PolicyCfg.thy ===== *)
theory DP_PolicyCfg
  imports DP_Policy
begin

text \<open>
  Policy configuration, the second half of \<open>dpi/dpi_policy.c\<close>: \<open>dpi_policy_cfg\<close> builds a policy handle over one
  or more messages and installs it on endpoints, which share it by reference count. Handles are heap
  objects; an address that is not in \<open>ps_heap\<close> is a freed handle, and a result \<^term>\<open>None\<close> is an access to
  freed or null memory.
\<close>

record dpi_policy_rule =
  pr_id :: u32
  pr_sip :: u32
  pr_sip_r :: u32
  pr_dip :: u32
  pr_dip_r :: u32
  pr_dport :: u16
  pr_dport_r :: u16
  pr_proto :: u16
  pr_action :: byte
  pr_ingress :: bool
  pr_fqdn :: bytes
  pr_app_rules :: "dpi_policy_app_rule list"

record dpi_policy_t =
  pl_mac_list :: "bytes list"
  pl_def_action :: int
  pl_apply_dir :: int
  pl_rule_list :: "dpi_policy_rule list"

text \<open>\<open>ps_hdl\<close> and \<open>ps_order\<close> are the static variables of \<open>dpi_policy_cfg\<close>; \<open>ps_eps\<close> gives the handle and the
  version of each endpoint of \<open>g_ep_map\<close>.\<close>
record policy_sys =
  ps_heap :: "nat \<Rightarrow> dpi_policy_hdl option"
  ps_fresh :: nat
  ps_hdl :: "nat option"
  ps_order :: u32
  ps_policy_ver :: u16
  ps_eps :: "bytes \<Rightarrow> (nat option \<times> u16) option"
  ps_fqdn :: dpi_fqdn_hdl
  ps_counter :: rule_counter

datatype cfg_cmd = CFG_ADD | CFG_MODIFY | CFG_DELETE

definition GET_NEW_POLICY_VER :: "u16 \<Rightarrow> u16" where
  "GET_NEW_POLICY_VER v = (if v + 1 \<noteq> 0 then v + 1 else v + 1 + 1)"

definition hdl_destroy :: "policy_sys \<Rightarrow> nat \<Rightarrow> policy_sys option" where
  "hdl_destroy st i = do {
     h \<leftarrow> ps_heap st i;
     let (r, c) = dpi_policy_hdl_destroy h (ps_counter st);
     Some (st\<lparr>ps_heap := (ps_heap st)(i := r), ps_counter := c\<rparr>) }"

definition dpi_policy_update :: "policy_sys \<Rightarrow> bytes \<Rightarrow> nat option \<Rightarrow> (policy_sys \<times> int) option" where
  "dpi_policy_update st mac mi = (case ps_eps st mac of None \<Rightarrow> Some (st, -1)
     | Some (old, _) \<Rightarrow> do {
         st1 \<leftarrow> (case mi of
             None \<Rightarrow> Some (st\<lparr>ps_eps := (ps_eps st)(mac \<mapsto> (None, 0))\<rparr>)
           | Some i \<Rightarrow> do {
               h \<leftarrow> ps_heap st i;
               Some (st\<lparr>ps_heap := (ps_heap st)(i \<mapsto> h\<lparr>h_ref_cnt := h_ref_cnt h + 1\<rparr>),
                        ps_eps := (ps_eps st)(mac \<mapsto> (Some i, h_ver h))\<rparr>) });
         (case old of None \<Rightarrow> Some (st1, 0) | Some o' \<Rightarrow> map_option (\<lambda>st2. (st2, 0)) (hdl_destroy st1 o')) })"

text \<open>The allocation outcomes of one rule: the five of \<open>config_fqdn_ipv4_mapping\<close> (true: success), and the
  failures of the two rule additions.\<close>
record rule_alloc =
  ra_fqdn :: "nat \<Rightarrow> bool"
  ra_oom1 :: "nat \<Rightarrow> bool \<times> bool"
  ra_oom2 :: "nat \<Rightarrow> bool \<times> bool"

text \<open>The FQDN part of a rule: the name's code replaces the remote address; a rule without a code is skipped.\<close>
definition rule_fqdn :: "rule_alloc \<Rightarrow> dpi_fqdn_hdl \<Rightarrow> dpi_policy_rule \<Rightarrow> (dpi_fqdn_hdl \<times> dpi_policy_rule option) option" where
  "rule_fqdn al fq r =
     (if pr_fqdn r = [] then Some (fq, Some r)
      else do {
        (fq', code) \<leftarrow> config_fqdn_ipv4_mapping (ra_fqdn al 0) (ra_fqdn al 1) (ra_fqdn al 2) (ra_fqdn al 3) (ra_fqdn al 4)
           fq (pr_fqdn r) (if pr_ingress r then pr_sip r else pr_dip r);
        Some (fq', if code = -1 then None
                   else if pr_ingress r then Some (r\<lparr>pr_sip := code, pr_sip_r := code\<rparr>)
                   else Some (r\<lparr>pr_dip := code, pr_dip_r := code\<rparr>)) })"

text \<open>The installation of one rule; protocol 0 installs it for TCP and then, with the same key variables,
  for UDP.\<close>
definition rule_install ::
  "addr_env \<Rightarrow> rule_alloc \<Rightarrow> dpi_fqdn_hdl \<Rightarrow> dpi_policy_hdl \<Rightarrow> rule_counter \<Rightarrow> dpi_policy_rule \<Rightarrow> u32 \<Rightarrow> (dpi_policy_hdl \<times> rule_counter) option" where
  "rule_install env al fq hdl c r order = do {
     let key = \<lparr>k_sip = pr_sip r, k_dip = pr_dip r, k_dport = pr_dport r, k_proto = pr_proto r, k_app = 0\<rparr>;
     let desc = \<lparr>d_id = pr_id r, d_action = pr_action r, d_flags = POLICY_DESC_CHECK_VER, d_hdl_ver = 0, d_order = order\<rparr>;
     let dir = (if pr_ingress r then POLICY_RULE_DIR_INGRESS else POLICY_RULE_DIR_EGRESS);
     let key_r = (if k_dport key \<noteq> pr_dport_r r \<or> k_sip key \<noteq> pr_sip_r r \<or> k_dip key \<noteq> pr_dip_r r
                  then Some (key\<lparr>k_dport := pr_dport_r r, k_sip := pr_sip_r r, k_dip := pr_dip_r r\<rparr>) else None);
     if k_proto key > 0 then do {
       (_, hdl1, c1, _, _) \<leftarrow> dpi_rule_add env fq (ra_oom1 al) hdl c key key_r (pr_app_rules r) dir desc;
       Some (hdl1, c1) }
     else do {
       (_, hdl1, c1, key1, key_r1) \<leftarrow> dpi_rule_add env fq (ra_oom1 al) hdl c (key\<lparr>k_proto := IPPROTO_TCP\<rparr>)
          (map_option (\<lambda>k. k\<lparr>k_proto := IPPROTO_TCP\<rparr>) key_r) (pr_app_rules r) dir desc;
       (_, hdl2, c2, _, _) \<leftarrow> dpi_rule_add env fq (ra_oom2 al) hdl1 c1 (key1\<lparr>k_proto := IPPROTO_UDP\<rparr>)
          (map_option (\<lambda>k. k\<lparr>k_proto := IPPROTO_UDP\<rparr>) key_r1) (pr_app_rules r) dir desc;
       Some (hdl2, c2) } }"

fun cfg_rules ::
  "addr_env \<Rightarrow> (nat \<Rightarrow> rule_alloc) \<Rightarrow> nat \<Rightarrow> dpi_policy_rule list \<Rightarrow> dpi_fqdn_hdl \<Rightarrow> dpi_policy_hdl \<Rightarrow> rule_counter \<Rightarrow> u32
     \<Rightarrow> (dpi_fqdn_hdl \<times> dpi_policy_hdl \<times> rule_counter \<times> u32) option" where
  "cfg_rules env al i [] fq hdl c order = Some (fq, hdl, c, order)"
| "cfg_rules env al i (r # rs) fq hdl c order = do {
     (fq', mr) \<leftarrow> rule_fqdn (al i) fq r;
     (case mr of None \<Rightarrow> cfg_rules env al (i + 1) rs fq' hdl c order
      | Some r' \<Rightarrow> do {
          let hdl' = (if pr_fqdn r \<noteq> [] then hdl\<lparr>h_flag := h_flag hdl OR POLICY_HDL_FLAG_FQDN\<rparr> else hdl);
          (hdl1, c1) \<leftarrow> rule_install env (al i) fq' hdl' c r' (order + 1);
          cfg_rules env al (i + 1) rs fq' hdl1 c1 (order + 1) }) }"

fun cfg_macs :: "bytes list \<Rightarrow> nat option \<Rightarrow> policy_sys \<Rightarrow> policy_sys option" where
  "cfg_macs [] mi st = Some st"
| "cfg_macs (m # ms) mi st = do { (st', _) \<leftarrow> dpi_policy_update st m mi; cfg_macs ms mi st' }"

text \<open>The allocation outcomes of one message: the handle, the rules, the default rule.\<close>
record cfg_alloc =
  ca_hdl :: bool
  ca_rules :: "nat \<Rightarrow> rule_alloc"
  ca_default :: "nat \<Rightarrow> bool \<times> bool"

text \<open>\<open>flag & MSG_START\<close>: a handle left over from an unfinished configuration is destroyed; without it, a
  handle must be under construction. The handle's \<open>apply_dir\<close> is stored before the result of the allocation
  is tested.\<close>
definition cfg_start :: "cfg_alloc \<Rightarrow> policy_sys \<Rightarrow> cfg_cmd \<Rightarrow> dpi_policy_t \<Rightarrow> bool \<Rightarrow> (policy_sys \<times> bool) option" where
  "cfg_start al st cmd p msg_start =
     (if msg_start then do {
        st1 \<leftarrow> (case ps_hdl st of None \<Rightarrow> Some st
                | Some i \<Rightarrow> map_option (\<lambda>s. s\<lparr>ps_hdl := None\<rparr>) (hdl_destroy st i));
        if cmd = CFG_DELETE then Some (st1, True)
        else do {
          hdl \<leftarrow> dpi_policy_hdl_init (ca_hdl al) (pl_def_action p);
          let ver = GET_NEW_POLICY_VER (ps_policy_ver st1);
          let i = ps_fresh st1;
          Some (st1\<lparr>ps_heap := (ps_heap st1)(i \<mapsto> hdl\<lparr>h_apply_dir := pl_apply_dir p, h_ver := ver\<rparr>), ps_fresh := i + 1,
                    ps_hdl := Some i, ps_order := 0, ps_policy_ver := ver\<rparr>, True) } }
      else Some (st, ps_hdl st \<noteq> None))"

text \<open>The rules of a message are added to the handle under construction; the last message adds the default rule.\<close>
definition cfg_body :: "addr_env \<Rightarrow> cfg_alloc \<Rightarrow> policy_sys \<Rightarrow> cfg_cmd \<Rightarrow> dpi_policy_t \<Rightarrow> bool \<Rightarrow> policy_sys option" where
  "cfg_body env al st cmd p msg_end =
     (if cmd = CFG_DELETE then
        (case ps_hdl st of None \<Rightarrow> Some st
         | Some i \<Rightarrow> map_option (\<lambda>s. s\<lparr>ps_hdl := None, ps_order := 0\<rparr>) (hdl_destroy st i))
      else do {
        i \<leftarrow> ps_hdl st;
        hdl \<leftarrow> ps_heap st i;
        (fq, hdl1, c1, order) \<leftarrow> cfg_rules env (ca_rules al) 0 (pl_rule_list p) (ps_fqdn st) hdl (ps_counter st) (ps_order st);
        (hdl2, c2) \<leftarrow> (if msg_end then dpi_add_default_policy env fq (ca_default al) hdl1 c1 else Some (hdl1, c1));
        Some (st\<lparr>ps_heap := (ps_heap st)(i \<mapsto> hdl2), ps_fqdn := fq, ps_counter := c2, ps_order := order\<rparr>) })"

definition dpi_policy_cfg ::
  "addr_env \<Rightarrow> cfg_alloc \<Rightarrow> policy_sys \<Rightarrow> cfg_cmd \<Rightarrow> dpi_policy_t \<Rightarrow> bool \<Rightarrow> bool \<Rightarrow> (policy_sys \<times> int) option" where
  "dpi_policy_cfg env al st cmd p msg_start msg_end = do {
     (st1, ok) \<leftarrow> cfg_start al st cmd p msg_start;
     if \<not> ok then Some (st1, -1)
     else do {
       st2 \<leftarrow> cfg_body env al st1 cmd p msg_end;
       if \<not> msg_end then Some (st2, 0)
       else do {
         st3 \<leftarrow> cfg_macs (pl_mac_list p) (ps_hdl st2) st2;
         st4 \<leftarrow> (case ps_hdl st3 of None \<Rightarrow> Some st3
                 | Some i \<Rightarrow> do { h \<leftarrow> ps_heap st3 i; if h_ref_cnt h = 0 then hdl_destroy st3 i else Some st3 });
         Some (st4\<lparr>ps_hdl := None\<rparr>, 0) } } }"

subsection \<open>Lookups and rule additions are safe\<close>

lemma match_codes_Some: "set rids \<subseteq> dom (q_recs fq) \<Longrightarrow> \<exists>acc'. match_codes fq hdl g rids key acc = Some acc'"
proof (induction rids arbitrary: key acc)
  case (Cons rid rids)
  then obtain r where "q_recs fq rid = Some r" by auto
  then show ?case using Cons by (auto simp: Let_def)
qed simp

lemma fqdn_code_Some:
  assumes "fq_inv fq"
  shows "\<exists>m. policy_match_ipv4_fqdn_code fq ip hdl key g = Some m"
proof (cases "lookup_ipv4 fq ip")
  case (Some e)
  have "ipv4_ok (q_ipv4_map fq) (dom (q_recs fq))" using assms unfolding fq_inv_def fq_core_def refs_ok_def by blast
  then have "set (v_rlist e) \<subseteq> dom (q_recs fq)"
    using Some rcu_map_lookup_SomeD unfolding lookup_ipv4_def by (metis ipv4_okD(2))
  then show ?thesis using Some match_codes_Some by (simp add: policy_match_ipv4_fqdn_code_def)
qed (simp add: policy_match_ipv4_fqdn_code_def)

lemma lookup_by_key_Some:
  assumes "fq_inv fq"
  shows "\<exists>d. dpi_policy_lookup_by_key env fq mhdl sip dip dport proto app g desc = Some d"
proof -
  have "\<exists>d. lookup_tables fq hdl key g ip int = Some d" for hdl key ip int
    using fqdn_code_Some[OF assms, of ip hdl key g] by (auto simp: lookup_tables_def Let_def)
  then show ?thesis
    by (auto simp: dpi_policy_lookup_by_key_def Let_def split: option.splits)
qed

text \<open>What no rule addition changes of a handle.\<close>
definition same_hdl :: "dpi_policy_hdl \<Rightarrow> dpi_policy_hdl \<Rightarrow> bool" where
  "same_hdl a b \<longleftrightarrow> h_ref_cnt a = h_ref_cnt b \<and> h_ver a = h_ver b \<and> h_def_action a = h_def_action b \<and>
     h_apply_dir a = h_apply_dir b"

lemma same_hdl_refl [simp]: "same_hdl a a" by (simp add: same_hdl_def)

lemma same_hdl_trans: "same_hdl a b \<Longrightarrow> same_hdl b c \<Longrightarrow> same_hdl a c" by (simp add: same_hdl_def)

lemma range_rule_add_same:
  "dpi_range_rule_add oom1 oom2 hdl c key_l key_h dir desc ex = (ret, hdl', c', ex') \<Longrightarrow> same_hdl hdl hdl'"
  by (auto simp: dpi_range_rule_add_def Let_def same_hdl_def split: option.splits if_splits)

lemma rule_add_one_same:
  assumes "fq_inv fq"
  shows "\<exists>ret hdl' c' ex'. dpi_rule_add_one env fq oom1 oom2 hdl c key_l mkey_h dir desc ex = Some (ret, hdl', c', ex') \<and>
    same_hdl hdl hdl'"
proof (cases mkey_h)
  case None
  obtain d where "dpi_policy_lookup_by_key env fq (Some hdl) (k_sip key_l) (k_dip key_l) (k_dport key_l) (k_proto key_l)
      (k_app key_l) (dir = POLICY_RULE_DIR_INGRESS) ex = Some d"
    using lookup_by_key_Some[OF assms] by blast
  then show ?thesis using None by (simp add: dpi_rule_add_one_def same_hdl_def)
next
  case (Some key_h)
  obtain ret hdl' c' ex' where "dpi_range_rule_add oom1 oom2 hdl c key_l key_h dir desc ex = (ret, hdl', c', ex')"
    by (metis prod_cases4)
  then show ?thesis using Some range_rule_add_same by (auto simp: dpi_rule_add_one_def)
qed

lemma add_app_rule_same:
  assumes "fq_inv fq"
  shows "\<exists>ret hdl' c' ex' kl kh. dpi_add_app_rule env fq oom1 oom2 hdl c key_l mkey_h a dir desc ex =
      Some ((ret, hdl', c', ex'), kl, kh) \<and> same_hdl hdl hdl'"
proof -
  let ?kl = "key_l\<lparr>k_app := ar_app a\<rparr>"
  let ?kh = "if k_app ?kl \<noteq> 0 then map_option (\<lambda>k. k\<lparr>k_app := k_app ?kl\<rparr>) mkey_h else map_option (\<lambda>k. k\<lparr>k_app := 0xffffffff\<rparr>) mkey_h"
  let ?use = "if k_app ?kl = 0 \<and> mkey_h = None then Some (?kl\<lparr>k_app := 0xffffffff\<rparr>) else ?kh"
  let ?d = "\<lparr>d_id = ar_rule_id a, d_action = ar_action a, d_flags = d_flags desc, d_hdl_ver = 0, d_order = d_order desc\<rparr>"
  from rule_add_one_same[OF assms, of env oom1 oom2 hdl c ?kl ?use dir ?d ex]
  show ?thesis unfolding dpi_add_app_rule_def Let_def by (elim exE conjE) (simp only: option.map, blast)
qed

lemma add_app_rules_same:
  assumes "fq_inv fq"
  shows "\<exists>ret' hdl' c' ex' kl kh. add_app_rules env fq oom i as dir desc (ret, hdl, c, ex) key_l mkey_h =
      Some ((ret', hdl', c', ex'), kl, kh) \<and> same_hdl hdl hdl'"
proof (induction as arbitrary: i ret hdl c ex key_l mkey_h)
  case (Cons a as)
  obtain r1 h1 c1 e1 kl kh where 1: "dpi_add_app_rule env fq (fst (oom i)) (snd (oom i)) hdl c key_l mkey_h a dir desc ex =
      Some ((r1, h1, c1, e1), kl, kh)" "same_hdl hdl h1"
    using add_app_rule_same[OF assms, of env "fst (oom i)" "snd (oom i)" hdl c key_l mkey_h a dir desc ex]
    by (elim exE conjE) (rule that)
  show ?case using Cons.IH[of "i + 1" "if r1 = 1 then ret + 1 else ret" h1 c1 e1 kl kh] 1
    by (auto intro: same_hdl_trans)
qed simp

lemma rule_add_same:
  assumes "fq_inv fq"
  shows "\<exists>ret hdl' c' kl kh. dpi_rule_add env fq oom hdl c key_l mkey_h apps dir desc = Some (ret, hdl', c', kl, kh) \<and>
    same_hdl hdl hdl'"
proof -
  obtain r1 h1 c1 e1 where 1: "dpi_rule_add_one env fq (fst (oom 0)) (snd (oom 0)) hdl c key_l mkey_h dir desc zero_desc =
      Some (r1, h1, c1, e1)" "same_hdl hdl h1"
    using rule_add_one_same[OF assms] by blast
  let ?step = "if r1 = 0 \<and> d_id e1 > 0 \<and> d_action desc \<noteq> DP_POLICY_ACTION_CHECK_APP
          then dpi_add_app_rule env fq (fst (oom 1)) (snd (oom 1)) h1 c1 key_l mkey_h
                 \<lparr>ar_rule_id = d_id desc, ar_app = 0, ar_action = d_action desc\<rparr> dir desc e1
          else Some ((r1, h1, c1, e1), key_l, mkey_h)"
  have "\<exists>r2 h2 c2 e2 kl2 kh2. ?step = Some ((r2, h2, c2, e2), kl2, kh2) \<and> same_hdl h1 h2"
    using add_app_rule_same[OF assms, of env _ _ h1 c1 key_l mkey_h _ dir desc e1] by simp
  then obtain r2 h2 c2 e2 kl2 kh2 where 2: "?step = Some ((r2, h2, c2, e2), kl2, kh2)" "same_hdl h1 h2" by blast
  obtain r3 h3 c3 e3 kl3 kh3 where 3: "add_app_rules env fq oom 2 apps dir desc (r2, h2, c2, e2) kl2 kh2 =
      Some ((r3, h3, c3, e3), kl3, kh3)" "same_hdl h2 h3"
    using add_app_rules_same[OF assms, of env oom 2 apps dir desc r2 h2 c2 e2 kl2 kh2] by (elim exE conjE) (rule that)
  have s: "same_hdl hdl h2" "same_hdl hdl h3" using 1(2) 2(2) 3(2) same_hdl_trans by blast+
  have eq: "dpi_rule_add env fq oom hdl c key_l mkey_h apps dir desc =
      (if r1 < 0 \<or> r1 = 0 \<and> d_id e1 > 0 \<and> d_action e1 \<noteq> DP_POLICY_ACTION_CHECK_APP then Some (r1, h1, c1, key_l, mkey_h)
       else if apps = [] then Some (r2, h2, c2, kl2, kh2)
       else Some (r3, h3, c3, kl3\<lparr>k_app := 0\<rparr>, map_option (\<lambda>k. k\<lparr>k_app := 0\<rparr>) kh3))"
    unfolding dpi_rule_add_def 1(1) bind.bind_lunit prod.case 2(1) 3(1) by auto
  show ?thesis unfolding eq using 1(2) s by auto
qed

subsection \<open>Handles and their references\<close>

definition refs :: "policy_sys \<Rightarrow> nat \<Rightarrow> bytes set" where
  "refs st i = {mac. \<exists>v. ps_eps st mac = Some (Some i, v)}"

text \<open>Every handle is counted exactly, every endpoint refers to a live handle and has its version, and no
  handle is left over: it is referred to or is the one under construction.\<close>
definition hdls_ok :: "policy_sys \<Rightarrow> bool" where
  "hdls_ok st \<longleftrightarrow> finite (dom (ps_eps st)) \<and> card (dom (ps_eps st)) < 65535 \<and> fq_inv (ps_fqdn st) \<and>
     (\<forall>i h. ps_heap st i = Some h \<longrightarrow> i < ps_fresh st \<and> unat (h_ref_cnt h) = card (refs st i) \<and>
        (ps_hdl st = Some i \<or> refs st i \<noteq> {})) \<and>
     (\<forall>mac i v. ps_eps st mac = Some (Some i, v) \<longrightarrow> (\<exists>h. ps_heap st i = Some h \<and> h_ver h = v)) \<and>
     (\<forall>i. ps_hdl st = Some i \<longrightarrow> ps_heap st i \<noteq> None)"

text \<open>Between messages the handle under construction is not installed anywhere.\<close>
definition ps_inv :: "policy_sys \<Rightarrow> bool" where
  "ps_inv st \<longleftrightarrow> hdls_ok st \<and> (\<forall>i. ps_hdl st = Some i \<longrightarrow> refs st i = {})"

lemma hdls_okD:
  assumes "hdls_ok st"
  shows "finite (dom (ps_eps st))" "card (dom (ps_eps st)) < 65535" "fq_inv (ps_fqdn st)"
    "ps_heap st i = Some h \<Longrightarrow> i < ps_fresh st" "ps_heap st i = Some h \<Longrightarrow> unat (h_ref_cnt h) = card (refs st i)"
    "ps_heap st i = Some h \<Longrightarrow> ps_hdl st = Some i \<or> refs st i \<noteq> {}"
    "ps_eps st mac = Some (Some i, v) \<Longrightarrow> \<exists>h. ps_heap st i = Some h \<and> h_ver h = v"
    "ps_hdl st = Some i \<Longrightarrow> \<exists>h. ps_heap st i = Some h"
  using assms unfolding hdls_ok_def by blast+

lemma refs_finite: "hdls_ok st \<Longrightarrow> finite (refs st i)" "hdls_ok st \<Longrightarrow> card (refs st i) \<le> card (dom (ps_eps st))"
proof -
  assume ok: "hdls_ok st"
  have "refs st i \<subseteq> dom (ps_eps st)" by (auto simp: refs_def)
  then show "finite (refs st i)" "card (refs st i) \<le> card (dom (ps_eps st))"
    using hdls_okD(1)[OF ok] by (auto intro: finite_subset card_mono)
qed

lemma destroy_last:
  "unat (h_ref_cnt h) \<le> 1 \<Longrightarrow> \<exists>c'. dpi_policy_hdl_destroy h c = (None, c')"
  by (simp add: dpi_policy_hdl_destroy_def word_less_nat_alt)

lemma destroy_shared:
  "unat (h_ref_cnt h) > 1 \<Longrightarrow> dpi_policy_hdl_destroy h c = (Some (h\<lparr>h_ref_cnt := h_ref_cnt h - 1\<rparr>), c)"
  by (simp add: dpi_policy_hdl_destroy_def word_less_nat_alt)

lemma unat_incr16: "unat (x :: u16) + 1 < 65536 \<Longrightarrow> unat (x + 1) = unat x + 1"
  by (simp add: unat_word_ariths)

lemma ref_of_card: "hdls_ok st \<Longrightarrow> ps_heap st i = Some h \<Longrightarrow> h_ref_cnt h = of_nat (card (refs st i))"
  using hdls_okD(5) by (metis of_nat_unat ucast_id)

text \<open>The heap that fits a changed assignment of handles to endpoints: counts are adjusted, and a handle
  that loses its last reference is gone.\<close>
definition refs_in :: "(bytes \<Rightarrow> (nat option \<times> u16) option) \<Rightarrow> nat \<Rightarrow> bytes set" where
  "refs_in eps i = {mac. \<exists>v. eps mac = Some (Some i, v)}"

definition norm_heap :: "policy_sys \<Rightarrow> (bytes \<Rightarrow> (nat option \<times> u16) option) \<Rightarrow> nat \<Rightarrow> dpi_policy_hdl option" where
  "norm_heap st eps j = (case ps_heap st j of None \<Rightarrow> None
     | Some h \<Rightarrow> if refs_in eps j = {} \<and> refs st j \<noteq> {} then None
                 else Some (h\<lparr>h_ref_cnt := of_nat (card (refs_in eps j))\<rparr>))"

lemma norm_heap_ok:
  assumes ok: "hdls_ok st" and dom: "dom eps = dom (ps_eps st)"
    and new: "\<And>mac i v. eps mac = Some (Some i, v) \<Longrightarrow> \<exists>h. ps_heap st i = Some h \<and> h_ver h = v"
    and cur: "\<And>i. ps_hdl st = Some i \<Longrightarrow> refs_in eps i \<noteq> {} \<or> refs st i = {}"
  shows "hdls_ok (st\<lparr>ps_heap := norm_heap st eps, ps_eps := eps, ps_counter := c\<rparr>)" (is "hdls_ok ?st")
proof -
  have refs: "refs ?st i = refs_in eps i" for i by (simp add: refs_def refs_in_def)
  have card: "unat (of_nat (card (refs_in eps i)) :: u16) = card (refs_in eps i)" for i
  proof -
    have "refs_in eps i \<subseteq> dom eps" by (auto simp: refs_in_def)
    then have "card (refs_in eps i) \<le> card (dom (ps_eps st))" using hdls_okD(1)[OF ok] dom by (metis card_mono)
    then show ?thesis using hdls_okD(2)[OF ok] by (simp add: unat_of_nat take_bit_nat_eq_self)
  qed
  have 1: "i < ps_fresh st \<and> unat (h_ref_cnt h) = card (refs_in eps i) \<and> (ps_hdl st = Some i \<or> refs_in eps i \<noteq> {})"
    if "norm_heap st eps i = Some h" for i h
    using that hdls_okD(4,6)[OF ok] card by (auto simp: norm_heap_def split: option.splits if_splits)
  have 2: "\<exists>h. norm_heap st eps i = Some h \<and> h_ver h = v" if e: "eps mac = Some (Some i, v)" for mac i v
  proof -
    have "refs_in eps i \<noteq> {}" using e by (auto simp: refs_in_def)
    moreover obtain h where "ps_heap st i = Some h" "h_ver h = v" using new[OF e] by blast
    ultimately show ?thesis by (simp add: norm_heap_def)
  qed
  have 3: "norm_heap st eps i \<noteq> None" if "ps_hdl st = Some i" for i
    using hdls_okD(8)[OF ok that] cur[OF that] by (auto simp: norm_heap_def split: if_splits)
  show ?thesis unfolding hdls_ok_def refs using 1 2 3 hdls_okD(1-3)[OF ok] dom by simp
qed

lemma destroy_norm:
  assumes ok: "hdls_ok st" and e: "ps_eps st mac = Some (Some o', v0)" and h: "ps_heap st o' = Some h"
    and R: "refs_in eps o' = refs st o' - {mac}"
  shows "\<exists>c'. dpi_policy_hdl_destroy h c = (norm_heap st eps o', c')"
proof -
  have mem: "mac \<in> refs st o'" using e by (auto simp: refs_def)
  have cnt: "unat (h_ref_cnt h) = card (refs st o')" using hdls_okD(5)[OF ok h] .
  have fin: "finite (refs st o')" using refs_finite(1)[OF ok] .
  show ?thesis
  proof (cases "card (refs st o') \<le> 1")
    case True
    then have "refs st o' = {mac}" using mem fin by (metis card_1_singletonE card_0_eq empty_iff le_less_linear less_one
        nat_less_le singletonD le_antisym not_less)
    then show ?thesis using destroy_last[of h c] True cnt h R by (simp add: norm_heap_def)
  next
    case False
    have c1: "card (refs st o' - {mac}) = card (refs st o') - 1" using mem fin by simp
    have ne: "refs st o' - {mac} \<noteq> {}" using False c1 by (metis card.empty diff_is_0_eq)
    have "h_ref_cnt h - 1 = of_nat (card (refs st o') - 1)"
      using ref_of_card[OF ok h] False by (simp add: of_nat_diff)
    then show ?thesis using destroy_shared[of h c] False cnt h R c1 ne by (simp add: norm_heap_def)
  qed
qed

lemma norm_same:
  assumes "hdls_ok st" "refs_in eps j = refs st j"
  shows "norm_heap st eps j = ps_heap st j"
proof (cases "ps_heap st j")
  case (Some h)
  have "h\<lparr>h_ref_cnt := of_nat (card (refs st j))\<rparr> = h" using ref_of_card[OF assms(1) Some] by (cases h) simp
  then show ?thesis using assms(2) Some by (simp add: norm_heap_def)
qed (simp add: norm_heap_def)

lemma update_norm:
  assumes ok: "hdls_ok st" and live: "\<And>i. mi = Some i \<Longrightarrow> \<exists>h. ps_heap st i = Some h" and e: "ps_eps st mac = Some (old, v0)"
  defines "eps \<equiv> (ps_eps st)(mac \<mapsto> (mi, case mi of None \<Rightarrow> 0 | Some i \<Rightarrow> h_ver (the (ps_heap st i))))"
  shows "\<exists>c. dpi_policy_update st mac mi = Some (st\<lparr>ps_heap := norm_heap st eps, ps_eps := eps, ps_counter := c\<rparr>, 0)"
proof -
  have R: "refs_in eps j = (if mi = Some j then insert mac (refs st j) else refs st j - {mac})" for j
    by (auto simp: refs_in_def refs_def eps_def)
  have memo: "mac \<in> refs st j \<longleftrightarrow> old = Some j" for j using e by (auto simp: refs_def)
  have inc: "norm_heap st eps i = Some (h\<lparr>h_ref_cnt := h_ref_cnt h + 1\<rparr>)" if "mi = Some i" "ps_heap st i = Some h" "old \<noteq> Some i" for i h
    using that R[of i] memo[of i] ref_of_card[OF ok that(2)] refs_finite(1)[OF ok, of i]
    by (simp add: norm_heap_def)
  have oth: "norm_heap st eps j = ps_heap st j" if "mi \<noteq> Some j \<or> old = Some j" "old \<noteq> Some j \<or> mi = Some j" for j
    using that R[of j] memo[of j] by (intro norm_same[OF ok]) (auto simp: insert_absorb)
  show ?thesis
  proof (cases old)
    case None
    show ?thesis
    proof (cases mi)
      case None
      have "norm_heap st eps = ps_heap st" using oth None \<open>old = None\<close> by (intro ext) simp
      then show ?thesis using e None \<open>old = None\<close> by (intro exI[of _ "ps_counter st"]) (simp add: dpi_policy_update_def eps_def)
    next
      case (Some i)
      then obtain h where h: "ps_heap st i = Some h" using live by blast
      have "norm_heap st eps = (ps_heap st)(i \<mapsto> h\<lparr>h_ref_cnt := h_ref_cnt h + 1\<rparr>)"
        using inc[OF Some h] oth Some \<open>old = None\<close> by (intro ext) simp
      then show ?thesis using e Some h \<open>old = None\<close> by (intro exI[of _ "ps_counter st"]) (simp add: dpi_policy_update_def eps_def)
    qed
  next
    case (Some o')
    then obtain ho where ho: "ps_heap st o' = Some ho" using hdls_okD(7)[OF ok] e by blast
    show ?thesis
    proof (cases "mi = Some o'")
      case True
      have "0 < card (refs st o')" using memo Some refs_finite(1)[OF ok] by (metis card_gt_0_iff empty_iff)
      moreover have "card (refs st o') < 65535" using refs_finite(2)[OF ok, of o'] hdls_okD(2)[OF ok] by linarith
      ultimately have "1 < unat (h_ref_cnt (ho\<lparr>h_ref_cnt := h_ref_cnt ho + 1\<rparr>))"
        using hdls_okD(5)[OF ok ho] by (simp add: unat_incr16)
      note d = destroy_shared[OF this]
      have "norm_heap st eps = ps_heap st" using oth True Some by (intro ext) auto
      moreover have "(ps_heap st)(o' \<mapsto> ho) = ps_heap st" using ho by (simp add: fun_upd_idem)
      ultimately show ?thesis using e True Some ho d
        by (intro exI[of _ "ps_counter st"]) (simp add: dpi_policy_update_def eps_def hdl_destroy_def)
    next
      case False
      have "refs_in eps o' = refs st o' - {mac}" using R False by simp
      then obtain c' where d: "dpi_policy_hdl_destroy ho (ps_counter st) = (norm_heap st eps o', c')"
        using destroy_norm[OF ok _ ho] e Some by blast
      show ?thesis
      proof (cases mi)
        case None
        have "norm_heap st eps = (ps_heap st)(o' := norm_heap st eps o')" using oth None Some by (intro ext) auto
        then show ?thesis using e None Some ho d
          by (intro exI[of _ c']) (simp add: dpi_policy_update_def eps_def hdl_destroy_def)
      next
        case (Some i)
        then obtain h where h: "ps_heap st i = Some h" using live by blast
        have "norm_heap st eps = (ps_heap st)(i \<mapsto> h\<lparr>h_ref_cnt := h_ref_cnt h + 1\<rparr>, o' := norm_heap st eps o')"
          using inc[OF Some h] oth Some \<open>old = Some o'\<close> False by (intro ext) auto
        then show ?thesis using e Some ho h d False \<open>old = Some o'\<close>
          by (intro exI[of _ c']) (simp add: dpi_policy_update_def eps_def hdl_destroy_def)
      qed
    qed
  qed
qed

subsection \<open>Configuration messages\<close>

lemma dpi_policy_update_ok:
  assumes ok: "hdls_ok st"
  shows "\<exists>st' r. dpi_policy_update st mac (ps_hdl st) = Some (st', r) \<and> hdls_ok st' \<and> ps_hdl st' = ps_hdl st \<and>
    ps_policy_ver st' = ps_policy_ver st \<and>
    (\<forall>i h. ps_hdl st = Some i \<longrightarrow> ps_heap st i = Some h \<longrightarrow> (\<exists>h'. ps_heap st' i = Some h' \<and> h_ver h' = h_ver h)) \<and>
    ps_eps st' = (if mac \<in> dom (ps_eps st)
       then (ps_eps st)(mac \<mapsto> (ps_hdl st, case ps_hdl st of None \<Rightarrow> 0 | Some i \<Rightarrow> h_ver (the (ps_heap st i)))) else ps_eps st)"
proof (cases "ps_eps st mac")
  case None
  then show ?thesis using ok by (auto simp: dpi_policy_update_def)
next
  case (Some e)
  then obtain old v0 where e: "ps_eps st mac = Some (old, v0)" by (cases e) simp
  let ?eps = "(ps_eps st)(mac \<mapsto> (ps_hdl st, case ps_hdl st of None \<Rightarrow> 0 | Some i \<Rightarrow> h_ver (the (ps_heap st i))))"
  have live: "\<exists>h. ps_heap st i = Some h" if "ps_hdl st = Some i" for i using hdls_okD(8)[OF ok that] .
  have cur: "refs_in ?eps i \<noteq> {}" if "ps_hdl st = Some i" for i using that by (auto simp: refs_in_def)
  obtain c where u: "dpi_policy_update st mac (ps_hdl st) = Some (st\<lparr>ps_heap := norm_heap st ?eps, ps_eps := ?eps, ps_counter := c\<rparr>, 0)"
    using update_norm[OF ok live e] by blast
  have h: "hdls_ok (st\<lparr>ps_heap := norm_heap st ?eps, ps_eps := ?eps, ps_counter := c\<rparr>)"
  proof (rule norm_heap_ok[OF ok])
    show "dom ?eps = dom (ps_eps st)" using e by auto
    show "\<exists>h. ps_heap st i = Some h \<and> h_ver h = v" if "?eps m = Some (Some i, v)" for m i v
      using that hdls_okD(7)[OF ok] live by (auto split: if_splits)
    show "refs_in ?eps i \<noteq> {} \<or> refs st i = {}" if "ps_hdl st = Some i" for i using cur[OF that] by simp
  qed
  have "\<exists>h'. norm_heap st ?eps i = Some h' \<and> h_ver h' = h_ver hh" if "ps_hdl st = Some i" "ps_heap st i = Some hh" for i hh
    using cur[OF that(1)] that(2) by (simp add: norm_heap_def)
  then show ?thesis using u h e by auto
qed

text \<open>The endpoints of a list that exist get the handle and its version; no other endpoint changes.\<close>
definition assign_eps :: "bytes list \<Rightarrow> nat option \<times> u16 \<Rightarrow> (bytes \<Rightarrow> (nat option \<times> u16) option) \<Rightarrow> bytes \<Rightarrow> (nat option \<times> u16) option" where
  "assign_eps macs new eps mac = (if mac \<in> set macs \<and> eps mac \<noteq> None then Some new else eps mac)"

definition cur_ver :: "policy_sys \<Rightarrow> u16" where
  "cur_ver st = (case ps_hdl st of None \<Rightarrow> 0 | Some i \<Rightarrow> (case ps_heap st i of None \<Rightarrow> 0 | Some h \<Rightarrow> h_ver h))"

lemma cfg_macs_ok:
  assumes "hdls_ok st" "mi = ps_hdl st"
  shows "\<exists>st'. cfg_macs macs mi st = Some st' \<and> hdls_ok st' \<and> ps_hdl st' = ps_hdl st \<and>
    ps_policy_ver st' = ps_policy_ver st \<and> cur_ver st' = cur_ver st \<and>
    ps_eps st' = assign_eps macs (ps_hdl st, cur_ver st) (ps_eps st)"
  using assms
proof (induction macs arbitrary: st)
  case Nil
  then show ?case by (auto simp: assign_eps_def)
next
  case (Cons m ms)
  obtain st1 r where 1: "dpi_policy_update st m mi = Some (st1, r)" "hdls_ok st1" "ps_hdl st1 = ps_hdl st"
    "ps_policy_ver st1 = ps_policy_ver st"
    "\<And>i h. ps_hdl st = Some i \<Longrightarrow> ps_heap st i = Some h \<Longrightarrow> \<exists>h'. ps_heap st1 i = Some h' \<and> h_ver h' = h_ver h"
    "ps_eps st1 = (if m \<in> dom (ps_eps st)
       then (ps_eps st)(m \<mapsto> (ps_hdl st, case ps_hdl st of None \<Rightarrow> 0 | Some i \<Rightarrow> h_ver (the (ps_heap st i)))) else ps_eps st)"
    using dpi_policy_update_ok[OF Cons.prems(1), of m] Cons.prems(2) by metis
  have cv: "cur_ver st1 = cur_ver st"
    using 1(3,5) hdls_okD(8)[OF Cons.prems(1)] by (auto simp: cur_ver_def split: option.splits) fastforce+
  have "(case ps_hdl st of None \<Rightarrow> 0 | Some i \<Rightarrow> h_ver (the (ps_heap st i))) = cur_ver st"
    using hdls_okD(8)[OF Cons.prems(1)] by (auto simp: cur_ver_def split: option.splits) 
  then have eps: "ps_eps st1 = assign_eps [m] (ps_hdl st, cur_ver st) (ps_eps st)"
    using 1(6) by (intro ext) (auto simp: assign_eps_def)
  obtain st2 where 2: "cfg_macs ms mi st1 = Some st2" "hdls_ok st2" "ps_hdl st2 = ps_hdl st1"
    "ps_policy_ver st2 = ps_policy_ver st1" "cur_ver st2 = cur_ver st1"
    "ps_eps st2 = assign_eps ms (ps_hdl st1, cur_ver st1) (ps_eps st1)"
    using Cons.IH[OF 1(2)] Cons.prems(2) 1(3) by metis
  have "ps_eps st2 = assign_eps (m # ms) (ps_hdl st, cur_ver st) (ps_eps st)"
    unfolding 2(6) eps 1(3) cv by (intro ext) (auto simp: assign_eps_def)
  then show ?case using 1 2 cv by auto
qed

lemma rule_install_same:
  assumes "fq_inv fq"
  shows "\<exists>hdl' c'. rule_install env al fq hdl c r order = Some (hdl', c') \<and> same_hdl hdl hdl'"
proof -
  define key where "key = \<lparr>k_sip = pr_sip r, k_dip = pr_dip r, k_dport = pr_dport r, k_proto = pr_proto r, k_app = 0\<rparr>"
  define key_r where "key_r =
    (if k_dport key \<noteq> pr_dport_r r \<or> k_sip key \<noteq> pr_sip_r r \<or> k_dip key \<noteq> pr_dip_r r
     then Some (key\<lparr>k_dport := pr_dport_r r, k_sip := pr_sip_r r, k_dip := pr_dip_r r\<rparr>) else None)"
  define desc where "desc = \<lparr>d_id = pr_id r, d_action = pr_action r, d_flags = POLICY_DESC_CHECK_VER, d_hdl_ver = 0, d_order = order\<rparr>"
  define dir where "dir = (if pr_ingress r then POLICY_RULE_DIR_INGRESS else POLICY_RULE_DIR_EGRESS)"
  note defs = rule_install_def Let_def key_def[symmetric] key_r_def[symmetric] desc_def[symmetric] dir_def[symmetric]
  note add = rule_add_same[OF assms, of env]
  show ?thesis
  proof (cases "k_proto key > 0")
    case True
    obtain r1 h1 c1 kl1 kh1 where a: "dpi_rule_add env fq (ra_oom1 al) hdl c key key_r (pr_app_rules r) dir desc
        = Some (r1, h1, c1, kl1, kh1)" "same_hdl hdl h1"
      using add[of "ra_oom1 al" hdl c key key_r "pr_app_rules r" dir desc] by (elim exE conjE) (rule that)
    have "rule_install env al fq hdl c r order = Some (h1, c1)" unfolding defs by (simp only: True a(1) if_True bind.bind_lunit prod.case)
    then show ?thesis using a(2) by blast
  next
    case False
    let ?k = "key\<lparr>k_proto := IPPROTO_TCP\<rparr>" and ?kr = "map_option (\<lambda>k. k\<lparr>k_proto := IPPROTO_TCP\<rparr>) key_r"
    obtain r1 h1 c1 kl1 kh1 where a: "dpi_rule_add env fq (ra_oom1 al) hdl c ?k ?kr (pr_app_rules r) dir desc
        = Some (r1, h1, c1, kl1, kh1)" "same_hdl hdl h1"
      using add[of "ra_oom1 al" hdl c ?k ?kr "pr_app_rules r" dir desc] by (elim exE conjE) (rule that)
    let ?k2 = "kl1\<lparr>k_proto := IPPROTO_UDP\<rparr>" and ?kr2 = "map_option (\<lambda>k. k\<lparr>k_proto := IPPROTO_UDP\<rparr>) kh1"
    obtain r2 h2 c2 kl2 kh2 where b: "dpi_rule_add env fq (ra_oom2 al) h1 c1 ?k2 ?kr2 (pr_app_rules r) dir desc
        = Some (r2, h2, c2, kl2, kh2)" "same_hdl h1 h2"
      using add[of "ra_oom2 al" h1 c1 ?k2 ?kr2 "pr_app_rules r" dir desc] by (elim exE conjE) (rule that)
    have "rule_install env al fq hdl c r order = Some (h2, c2)"
      unfolding defs by (simp only: False a(1) b(1) if_False bind.bind_lunit prod.case)
    then show ?thesis using a(2) b(2) same_hdl_trans by blast
  qed
qed

lemma rule_fqdn_ok:
  assumes "fq_inv fq"
  shows "\<exists>fq' mr. rule_fqdn al fq r = Some (fq', mr) \<and> fq_inv fq'"
proof (cases "pr_fqdn r = []")
  case False
  obtain fq' code where "config_fqdn_ipv4_mapping (ra_fqdn al 0) (ra_fqdn al 1) (ra_fqdn al 2) (ra_fqdn al 3) (ra_fqdn al 4)
           fq (pr_fqdn r) (if pr_ingress r then pr_sip r else pr_dip r) = Some (fq', code)" "fq_inv fq'"
    using config_fqdn_inv[OF assms] by metis
  then show ?thesis using False by (simp add: rule_fqdn_def)
qed (use assms in \<open>simp add: rule_fqdn_def\<close>)

lemma cfg_rules_ok:
  assumes "fq_inv fq"
  shows "\<exists>fq' hdl' c' order'. cfg_rules env al i rs fq hdl c order = Some (fq', hdl', c', order') \<and> fq_inv fq' \<and> same_hdl hdl hdl'"
  using assms
proof (induction rs arbitrary: i fq hdl c order)
  case (Cons r rs)
  obtain fq' mr where 1: "rule_fqdn (al i) fq r = Some (fq', mr)" "fq_inv fq'" using rule_fqdn_ok[OF Cons.prems] by metis
  show ?case
  proof (cases mr)
    case None
    then show ?thesis using 1 Cons.IH[OF 1(2)] by simp
  next
    case (Some r')
    define h0 where "h0 = (if pr_fqdn r \<noteq> [] then hdl\<lparr>h_flag := h_flag hdl OR POLICY_HDL_FLAG_FQDN\<rparr> else hdl)"
    have s0: "same_hdl hdl h0" by (simp add: h0_def same_hdl_def)
    obtain h1 c1 where 2: "rule_install env (al i) fq' h0 c r' (order + 1) = Some (h1, c1)" "same_hdl h0 h1"
      using rule_install_same[OF 1(2)] by metis
    obtain fq2 h2 c2 o2 where 3: "cfg_rules env al (i + 1) rs fq' h1 c1 (order + 1) = Some (fq2, h2, c2, o2)" "fq_inv fq2" "same_hdl h1 h2"
      using Cons.IH[OF 1(2)] by metis
    have "cfg_rules env al i (r # rs) fq hdl c order = Some (fq2, h2, c2, o2)"
      using 1(1) Some 2(1) 3(1) by (simp add: h0_def Let_def)
    then show ?thesis using 3(2) same_hdl_trans[OF same_hdl_trans[OF s0 2(2)] 3(3)] by simp
  qed
qed simp

lemma default_policy_same:
  assumes "fq_inv fq"
  shows "\<exists>hdl' c'. dpi_add_default_policy env fq oom hdl c = Some (hdl', c') \<and> same_hdl hdl hdl'"
proof -
  let ?kl = "zero_key\<lparr>k_proto := IPPROTO_ICMP\<rparr>"
    and ?kh = "zero_key\<lparr>k_sip := 0xffffffff, k_dip := 0xffffffff, k_proto := IPPROTO_ICMP\<rparr>"
    and ?d = "zero_desc\<lparr>d_action := DP_POLICY_ACTION_ALLOW, d_id := 0, d_order := 0xffffffff\<rparr>"
  obtain r1 h1 c1 kl1 kh1 where a: "dpi_rule_add env fq oom hdl c ?kl (Some ?kh) [] POLICY_RULE_DIR_NONE ?d
      = Some (r1, h1, c1, kl1, kh1)" "same_hdl hdl h1"
    using rule_add_same[OF assms, of env oom hdl c ?kl "Some ?kh" "[]" POLICY_RULE_DIR_NONE ?d] by (elim exE conjE) (rule that)
  show ?thesis unfolding dpi_add_default_policy_def Let_def a(1) option.map prod.case using a(2) by blast
qed

lemma hdls_ok_put:
  assumes "hdls_ok st" "ps_heap st i = Some h" "same_hdl h h'" "fq_inv fq"
  shows "hdls_ok (st\<lparr>ps_heap := (ps_heap st)(i \<mapsto> h'), ps_fqdn := fq, ps_counter := c, ps_order := n\<rparr>)"
proof -
  have r: "refs (st\<lparr>ps_heap := (ps_heap st)(i \<mapsto> h'), ps_fqdn := fq, ps_counter := c, ps_order := n\<rparr>) j = refs st j" for j
    by (simp add: refs_def)
  have h': "h_ref_cnt h' = h_ref_cnt h" "h_ver h' = h_ver h" using assms(3) by (auto simp: same_hdl_def)
  have "\<exists>h''. ((ps_heap st)(i \<mapsto> h')) j = Some h'' \<and> h_ver h'' = v" if "ps_eps st mac = Some (Some j, v)" for mac j v
    using hdls_okD(7)[OF assms(1) that] h'(2) assms(2) by (cases "j = i") simp_all
  moreover have "j < ps_fresh st \<and> unat (h_ref_cnt h'') = card (refs st j) \<and> (ps_hdl st = Some j \<or> refs st j \<noteq> {})"
    if "((ps_heap st)(i \<mapsto> h')) j = Some h''" for j h''
  proof (cases "j = i")
    case True
    then show ?thesis using that hdls_okD(4,5,6)[OF assms(1,2)] h'(1) by simp
  next
    case False
    then show ?thesis using that hdls_okD(4,5,6)[OF assms(1), of j h''] by simp
  qed
  moreover have "((ps_heap st)(i \<mapsto> h')) j \<noteq> None" if "ps_hdl st = Some j" for j
    using hdls_okD(8)[OF assms(1) that] by simp
  ultimately show ?thesis unfolding hdls_ok_def r using hdls_okD(1,2)[OF assms(1)] assms(4) by simp
qed

lemma hdls_ok_alloc:
  assumes "hdls_ok st" "ps_hdl st = None" "h_ref_cnt h = 0"
  shows "hdls_ok (st\<lparr>ps_heap := (ps_heap st)(ps_fresh st \<mapsto> h), ps_fresh := ps_fresh st + 1, ps_hdl := Some (ps_fresh st),
                    ps_order := 0, ps_policy_ver := v\<rparr>)" (is "hdls_ok ?st")
    and "refs st (ps_fresh st) = {}"
proof -
  have r: "refs ?st j = refs st j" for j by (simp add: refs_def)
  have fr: "ps_heap st (ps_fresh st) = None" using hdls_okD(4)[OF assms(1), of "ps_fresh st"] by fastforce
  then show e: "refs st (ps_fresh st) = {}" using hdls_okD(7)[OF assms(1), of _ "ps_fresh st"] by (fastforce simp: refs_def)
  have "\<exists>h'. ((ps_heap st)(ps_fresh st \<mapsto> h)) j = Some h' \<and> h_ver h' = v" if "ps_eps st mac = Some (Some j, v)" for mac j v
    using that hdls_okD(7)[OF assms(1) that] fr by auto
  moreover have "j < ps_fresh st + 1 \<and> unat (h_ref_cnt h') = card (refs st j) \<and> (ps_fresh st = j \<or> refs st j \<noteq> {})"
    if "((ps_heap st)(ps_fresh st \<mapsto> h)) j = Some h'" for j h'
    using that hdls_okD(4,5,6)[OF assms(1), of j h'] assms(2,3) e by (auto split: if_splits)
  ultimately show "hdls_ok ?st" unfolding hdls_ok_def r using hdls_okD(1,2,3)[OF assms(1)] by simp
qed

lemma hdl_destroy_unref:
  assumes "hdls_ok st" "ps_hdl st = Some i" "refs st i = {}"
  shows "\<exists>c. hdl_destroy st i = Some (st\<lparr>ps_heap := (ps_heap st)(i := None), ps_counter := c\<rparr>)"
    and "hdls_ok (st\<lparr>ps_heap := (ps_heap st)(i := None), ps_counter := c, ps_hdl := None, ps_order := n\<rparr>)" (is "hdls_ok ?st")
proof -
  obtain h where h: "ps_heap st i = Some h" using hdls_okD(8)[OF assms(1,2)] by blast
  have "unat (h_ref_cnt h) \<le> 1" using hdls_okD(5)[OF assms(1) h] assms(3) by simp
  then show "\<exists>c. hdl_destroy st i = Some (st\<lparr>ps_heap := (ps_heap st)(i := None), ps_counter := c\<rparr>)"
    using h destroy_last[of h "ps_counter st"] by (auto simp: hdl_destroy_def)
  have r: "refs ?st j = refs st j" for j by (simp add: refs_def)
  have "i \<noteq> j" if "ps_eps st mac = Some (Some j, v)" for mac j v using that assms(3) by (auto simp: refs_def)
  then have "\<exists>h. ((ps_heap st)(i := None)) j = Some h \<and> h_ver h = v" if "ps_eps st mac = Some (Some j, v)" for mac j v
    using that hdls_okD(7)[OF assms(1) that] by auto
  moreover have "j < ps_fresh st \<and> unat (h_ref_cnt h) = card (refs st j) \<and> refs st j \<noteq> {}"
    if "((ps_heap st)(i := None)) j = Some h" for j h
    using that hdls_okD(4,5,6)[OF assms(1), of j h] assms(2) by (auto split: if_splits)
  ultimately show "hdls_ok ?st" unfolding hdls_ok_def r using hdls_okD(1,2,3)[OF assms(1)] by simp
qed


lemma hdls_ok_installed:
  assumes "hdls_ok st" "\<And>i. ps_hdl st = Some i \<Longrightarrow> refs st i \<noteq> {}"
  shows "ps_inv (st\<lparr>ps_hdl := None\<rparr>)"
proof -
  have r: "refs (st\<lparr>ps_hdl := None\<rparr>) j = refs st j" for j by (simp add: refs_def)
  have "refs st i \<noteq> {}" if "ps_heap st i = Some h" for i h using hdls_okD(6)[OF assms(1) that] assms(2) by blast
  then show ?thesis unfolding ps_inv_def hdls_ok_def r using hdls_okD(1-5,7)[OF assms(1)] by simp
qed

text \<open>What the rest of a message works on after \<open>cfg_start\<close> succeeded: the handle and its version.\<close>
definition cfg_handle :: "policy_sys \<Rightarrow> cfg_cmd \<Rightarrow> bool \<Rightarrow> nat option \<times> u16" where
  "cfg_handle st cmd msg_start =
     (if cmd = CFG_DELETE then (None, 0)
      else if msg_start then (Some (ps_fresh st), GET_NEW_POLICY_VER (ps_policy_ver st))
      else (ps_hdl st, cur_ver st))"

lemma ps_invD: "ps_inv st \<Longrightarrow> hdls_ok st" "ps_inv st \<Longrightarrow> ps_hdl st = Some i \<Longrightarrow> refs st i = {}"
  by (auto simp: ps_inv_def)

lemma start_clean:
  assumes "ps_inv st"
  shows "\<exists>st1. (case ps_hdl st of None \<Rightarrow> Some st | Some i \<Rightarrow> map_option (\<lambda>s. s\<lparr>ps_hdl := None\<rparr>) (hdl_destroy st i)) = Some st1 \<and>
    hdls_ok st1 \<and> ps_hdl st1 = None \<and> ps_eps st1 = ps_eps st \<and> ps_fresh st1 = ps_fresh st \<and> ps_policy_ver st1 = ps_policy_ver st"
proof (cases "ps_hdl st")
  case None
  then show ?thesis using ps_invD(1)[OF assms] by simp
next
  case (Some i)
  note d = hdl_destroy_unref[OF ps_invD(1)[OF assms] Some ps_invD(2)[OF assms Some]]
  obtain c where "hdl_destroy st i = Some (st\<lparr>ps_heap := (ps_heap st)(i := None), ps_counter := c\<rparr>)" using d(1) by blast
  moreover have "hdls_ok (st\<lparr>ps_heap := (ps_heap st)(i := None), ps_counter := c, ps_hdl := None\<rparr>)"
    using d(2)[where c = c and n = "ps_order st"] by simp
  ultimately show ?thesis using Some by simp
qed

lemma cfg_start_ok:
  assumes inv: "ps_inv st" and al: "msg_start \<Longrightarrow> cmd \<noteq> CFG_DELETE \<Longrightarrow> ca_hdl al"
  shows "\<exists>st1. cfg_start al st cmd p msg_start = Some (st1, msg_start \<or> ps_hdl st \<noteq> None) \<and> ps_inv st1 \<and> ps_eps st1 = ps_eps st \<and>
    (cmd \<noteq> CFG_DELETE \<longrightarrow> (ps_hdl st1, cur_ver st1) = cfg_handle st cmd msg_start)"
proof (cases msg_start)
  case False
  then show ?thesis using inv by (auto simp: cfg_start_def cfg_handle_def)
next
  case True
  obtain st1 where 1: "(case ps_hdl st of None \<Rightarrow> Some st | Some i \<Rightarrow> map_option (\<lambda>s. s\<lparr>ps_hdl := None\<rparr>) (hdl_destroy st i)) = Some st1"
    "hdls_ok st1" "ps_hdl st1 = None" "ps_eps st1 = ps_eps st" "ps_fresh st1 = ps_fresh st" "ps_policy_ver st1 = ps_policy_ver st"
    using start_clean[OF inv] by blast
  show ?thesis
  proof (cases "cmd = CFG_DELETE")
    case True
    then show ?thesis using 1 \<open>msg_start\<close> by (simp add: cfg_start_def ps_inv_def)
  next
    case False
    let ?v = "GET_NEW_POLICY_VER (ps_policy_ver st1)"
    obtain h where h: "dpi_policy_hdl_init (ca_hdl al) (pl_def_action p) = Some h" "h_ref_cnt h = 0"
      using al[OF \<open>msg_start\<close> False] by (simp add: dpi_policy_hdl_init_def)
    let ?h = "h\<lparr>h_apply_dir := pl_apply_dir p, h_ver := ?v\<rparr>"
    let ?st = "st1\<lparr>ps_heap := (ps_heap st1)(ps_fresh st1 \<mapsto> ?h), ps_fresh := ps_fresh st1 + 1, ps_hdl := Some (ps_fresh st1),
                    ps_order := 0, ps_policy_ver := ?v\<rparr>"
    have ok: "hdls_ok ?st" "refs st1 (ps_fresh st1) = {}"
      using hdls_ok_alloc(1)[OF 1(2,3), where h = ?h and v = ?v] hdls_ok_alloc(2)[OF 1(2,3), where h = ?h] h(2) by simp_all
    have "ps_inv ?st" using ok by (simp add: ps_inv_def refs_def)
    moreover have "cfg_start al st cmd p msg_start = Some (?st, True)"
      using 1(1) h(1) \<open>msg_start\<close> False by (simp add: cfg_start_def Let_def)
    ultimately show ?thesis using \<open>msg_start\<close> False 1(4-6) by (simp add: cfg_handle_def cur_ver_def)
  qed
qed

lemma cfg_body_ok:
  assumes inv: "ps_inv st" and cur: "cmd \<noteq> CFG_DELETE \<Longrightarrow> ps_hdl st \<noteq> None"
  shows "\<exists>st2. cfg_body env al st cmd p msg_end = Some st2 \<and> ps_inv st2 \<and> ps_eps st2 = ps_eps st \<and>
    (ps_hdl st2, cur_ver st2) = (if cmd = CFG_DELETE then (None, 0) else (ps_hdl st, cur_ver st))"
proof (cases "cmd = CFG_DELETE")
  case True
  show ?thesis
  proof (cases "ps_hdl st")
    case None
    then show ?thesis using True inv by (simp add: cfg_body_def cur_ver_def)
  next
    case (Some i)
    note d = hdl_destroy_unref[OF ps_invD(1)[OF inv] Some ps_invD(2)[OF inv Some]]
    obtain c where c: "hdl_destroy st i = Some (st\<lparr>ps_heap := (ps_heap st)(i := None), ps_counter := c\<rparr>)" using d(1) by blast
    have "ps_inv (st\<lparr>ps_heap := (ps_heap st)(i := None), ps_counter := c, ps_hdl := None, ps_order := 0\<rparr>)"
      unfolding ps_inv_def using d(2)[where c = c and n = 0] by simp
    then show ?thesis using True Some c by (simp add: cfg_body_def cur_ver_def)
  qed
next
  case False
  then obtain i where i: "ps_hdl st = Some i" using cur by blast
  then obtain h where h: "ps_heap st i = Some h" using hdls_okD(8)[OF ps_invD(1)[OF inv]] by blast
  obtain fq h1 c1 n where 1: "cfg_rules env (ca_rules al) 0 (pl_rule_list p) (ps_fqdn st) h (ps_counter st) (ps_order st) = Some (fq, h1, c1, n)"
    "fq_inv fq" "same_hdl h h1"
    using cfg_rules_ok[OF hdls_okD(3)[OF ps_invD(1)[OF inv]]] by metis
  have "\<exists>h2 c2. (if msg_end then dpi_add_default_policy env fq (ca_default al) h1 c1 else Some (h1, c1)) = Some (h2, c2) \<and> same_hdl h1 h2"
    using default_policy_same[OF 1(2), of env "ca_default al" h1 c1] by simp
  then obtain h2 c2 where 2: "(if msg_end then dpi_add_default_policy env fq (ca_default al) h1 c1 else Some (h1, c1)) = Some (h2, c2)"
    "same_hdl h1 h2" by blast
  let ?st = "st\<lparr>ps_heap := (ps_heap st)(i \<mapsto> h2), ps_fqdn := fq, ps_counter := c2, ps_order := n\<rparr>"
  have s: "same_hdl h h2" using same_hdl_trans[OF 1(3) 2(2)] .
  have "hdls_ok ?st" using hdls_ok_put[OF ps_invD(1)[OF inv] h s 1(2)] .
  moreover have "refs ?st i = {}" using ps_invD(2)[OF inv i] by (simp add: refs_def)
  ultimately have "ps_inv ?st" using i by (simp add: ps_inv_def)
  moreover have "cfg_body env al st cmd p msg_end = Some ?st"
    unfolding cfg_body_def by (simp only: False i h 1(1) 2(1) if_False bind.bind_lunit prod.case)
  moreover have "cur_ver ?st = cur_ver st" using i h s by (simp add: cur_ver_def same_hdl_def)
  ultimately show ?thesis using False by auto
qed

lemma cfg_finish_ok:
  assumes "hdls_ok st"
  shows "\<exists>st4. (case ps_hdl st of None \<Rightarrow> Some st
                 | Some i \<Rightarrow> do { h \<leftarrow> ps_heap st i; if h_ref_cnt h = 0 then hdl_destroy st i else Some st }) = Some st4 \<and>
    ps_inv (st4\<lparr>ps_hdl := None\<rparr>) \<and> ps_eps st4 = ps_eps st"
proof (cases "ps_hdl st")
  case None
  then show ?thesis using hdls_ok_installed[OF assms] by simp
next
  case (Some i)
  obtain h where h: "ps_heap st i = Some h" using hdls_okD(8)[OF assms Some] by blast
  have iff: "h_ref_cnt h = 0 \<longleftrightarrow> refs st i = {}"
    using hdls_okD(5)[OF assms h] refs_finite(1)[OF assms, of i] by (metis card_eq_0_iff unat_eq_zero)
  show ?thesis
  proof (cases "h_ref_cnt h = 0")
    case True
    note d = hdl_destroy_unref[OF assms Some, OF iff[THEN iffD1, OF True]]
    obtain c where c: "hdl_destroy st i = Some (st\<lparr>ps_heap := (ps_heap st)(i := None), ps_counter := c\<rparr>)" using d(1) by blast
    have "ps_inv (st\<lparr>ps_heap := (ps_heap st)(i := None), ps_counter := c, ps_hdl := None\<rparr>)"
      unfolding ps_inv_def using d(2)[where c = c and n = "ps_order st"] by simp
    then show ?thesis using True Some c h by simp
  next
    case False
    then have "ps_inv (st\<lparr>ps_hdl := None\<rparr>)" using iff Some by (intro hdls_ok_installed[OF assms]) simp
    then show ?thesis using False Some h by simp
  qed
qed

text \<open>C5. Policy configuration is memory safe and keeps the sharing of policy handles exact. In every state that
  satisfies the invariant (each handle's \<open>ref_cnt\<close> is the number of endpoints that refer to it, each endpoint's
  version is its handle's, no handle is leaked, no freed handle is referred to), and whenever the handle itself can be
  allocated, any message to \<open>dpi_policy_cfg\<close> - any command, any rules, any position in a sequence of messages,
  any failure of the other allocations - is carried out without an access to freed memory, and the invariant holds
  again. It fails exactly if it continues a sequence that was never started, and then changes nothing on the
  endpoints; a closing message gives exactly the listed endpoints that exist the new handle (or none, for a
  deletion) and leaves no handle under construction.\<close>
theorem dpi_policy_cfg_safe:
  assumes inv: "ps_inv st" and al: "msg_start \<longrightarrow> cmd \<noteq> CFG_DELETE \<longrightarrow> ca_hdl al"
  shows "\<exists>st' r. dpi_policy_cfg env al st cmd p msg_start msg_end = Some (st', r) \<and> ps_inv st' \<and>
    r = (if msg_start \<or> ps_hdl st \<noteq> None then 0 else -1) \<and>
    ps_eps st' = (if r = 0 \<and> msg_end then assign_eps (pl_mac_list p) (cfg_handle st cmd msg_start) (ps_eps st) else ps_eps st) \<and>
    (r = 0 \<and> msg_end \<longrightarrow> ps_hdl st' = None)"
proof -
  obtain st1 where 1: "cfg_start al st cmd p msg_start = Some (st1, msg_start \<or> ps_hdl st \<noteq> None)" "ps_inv st1"
    "ps_eps st1 = ps_eps st" "cmd \<noteq> CFG_DELETE \<Longrightarrow> (ps_hdl st1, cur_ver st1) = cfg_handle st cmd msg_start"
    using cfg_start_ok[OF inv, of msg_start cmd al p] al by blast
  show ?thesis
  proof (cases "msg_start \<or> ps_hdl st \<noteq> None")
    case False
    then show ?thesis using 1(1-3) by (simp add: dpi_policy_cfg_def)
  next
    case True
    have "cmd \<noteq> CFG_DELETE \<Longrightarrow> ps_hdl st1 \<noteq> None" using 1(4) True by (auto simp: cfg_handle_def split: if_splits)
    then obtain st2 where 2: "cfg_body env al st1 cmd p msg_end = Some st2" "ps_inv st2" "ps_eps st2 = ps_eps st1"
      "(ps_hdl st2, cur_ver st2) = (if cmd = CFG_DELETE then (None, 0) else (ps_hdl st1, cur_ver st1))"
      using cfg_body_ok[OF 1(2)] by blast
    have hd: "(ps_hdl st2, cur_ver st2) = cfg_handle st cmd msg_start" using 2(4) 1(4) by (simp add: cfg_handle_def)
    obtain st3 where 3: "cfg_macs (pl_mac_list p) (ps_hdl st2) st2 = Some st3" "hdls_ok st3"
      "ps_eps st3 = assign_eps (pl_mac_list p) (ps_hdl st2, cur_ver st2) (ps_eps st2)"
      using cfg_macs_ok[OF ps_invD(1)[OF 2(2)] refl] by blast
    obtain st4 where 4: "(case ps_hdl st3 of None \<Rightarrow> Some st3
                 | Some i \<Rightarrow> do { h \<leftarrow> ps_heap st3 i; if h_ref_cnt h = 0 then hdl_destroy st3 i else Some st3 }) = Some st4"
      "ps_inv (st4\<lparr>ps_hdl := None\<rparr>)" "ps_eps st4 = ps_eps st3" using cfg_finish_ok[OF 3(2)] by blast
    have eq: "dpi_policy_cfg env al st cmd p msg_start msg_end = Some (if msg_end then st4\<lparr>ps_hdl := None\<rparr> else st2, 0)"
      unfolding dpi_policy_cfg_def using 1(1) True 2(1) 3(1) 4(1) by simp
    show ?thesis unfolding eq using True 2(2,3) 1(3) 3(3) 4(2,3) hd by simp
  qed
qed


text \<open>A fresh data path with one endpoint, and a message that gives it an empty policy.\<close>
definition ps_one :: policy_sys where
  "ps_one = \<lparr>ps_heap = Map.empty, ps_fresh = 0, ps_hdl = None, ps_order = 0, ps_policy_ver = 0, ps_eps = [[1,2,3,4,5,6] \<mapsto> (None, 0)],
     ps_fqdn = fq_empty, ps_counter = \<lparr>type1_rules = 0, type2_rules = 0\<rparr>\<rparr>"

definition policy_one :: dpi_policy_t where
  "policy_one = \<lparr>pl_mac_list = [[1,2,3,4,5,6]], pl_def_action = 1, pl_apply_dir = 0, pl_rule_list = []\<rparr>"

definition alloc_all :: "bool \<Rightarrow> cfg_alloc" where
  "alloc_all ok = \<lparr>ca_hdl = ok, ca_rules = \<lambda>_. \<lparr>ra_fqdn = \<lambda>_. True, ra_oom1 = \<lambda>_. (False, False), ra_oom2 = \<lambda>_. (False, False)\<rparr>,
     ca_default = \<lambda>_. (False, False)\<rparr>"

definition env_one :: addr_env where
  "env_one = \<lparr>th_internal_subnet4 = None, th_specialip_subnet4 = None, th_policy_addr = None\<rparr>"

lemma ps_one_inv: "ps_inv ps_one"
  using fq_reachable_inv[OF fq_empty_reachable] by (auto simp: ps_inv_def hdls_ok_def ps_one_def refs_def)

theorem dpi_policy_cfg_safe_witness:
  "ps_inv ps_one \<and> (\<exists>st'. dpi_policy_cfg env_one (alloc_all True) ps_one CFG_ADD policy_one True True = Some (st', 0) \<and> ps_inv st' \<and>
     ps_eps st' [1,2,3,4,5,6] = Some (Some 0, 1))"
  using dpi_policy_cfg_safe[OF ps_one_inv, of True CFG_ADD "alloc_all True" env_one policy_one True] ps_one_inv
  by (auto simp: alloc_all_def assign_eps_def policy_one_def cfg_handle_def GET_NEW_POLICY_VER_def ps_one_def)


end
