(* ===== verification/DP_PolicyProps.thy ===== *)
theory DP_PolicyProps
  imports DP_PolicyCfg
begin

text \<open>
  What the policy tables of \<open>dpi/dpi_policy.c\<close> decide: rules are spread over a hash table of exact keys and buckets
  of ranges, and a lookup visits up to four of these; the result is still the first rule, in the order they were
  added, that matches.
\<close>

type_synonym table_rule = "dpi_rule_key \<times> dpi_rule_key option \<times> rule_dir \<times> dpi_policy_desc"

fun add_rules :: "addr_env \<Rightarrow> dpi_fqdn_hdl \<Rightarrow> table_rule list \<Rightarrow> dpi_policy_hdl \<Rightarrow> rule_counter \<Rightarrow> (dpi_policy_hdl \<times> rule_counter) option" where
  "add_rules env fq [] hdl c = Some (hdl, c)"
| "add_rules env fq ((l, mh, dir, desc) # rs) hdl c = do {
     (_, hdl', c', _) \<leftarrow> dpi_rule_add_one env fq False False hdl c l mh dir desc zero_desc;
     add_rules env fq rs hdl' c' }"

text \<open>The specification: when a rule matches a key, and the keys a connection is matched with.\<close>
fun rule_matches :: "dpi_rule_key \<Rightarrow> bool \<Rightarrow> table_rule \<Rightarrow> bool" where
  "rule_matches k g (l, None, dir, desc) \<longleftrightarrow> l = k"
| "rule_matches k g (l, Some h, dir, desc) \<longleftrightarrow>
     get_range_key l h dir = Some (bucket_key k g) \<and> rule_key_in_range \<lparr>i_desc = desc, i_key_l = l, i_key_h = h\<rparr> k"

definition wild_key :: "dpi_rule_key \<Rightarrow> bool \<Rightarrow> dpi_rule_key" where
  "wild_key k g = (if g then k\<lparr>k_sip := 0\<rparr> else k\<lparr>k_dip := 0\<rparr>)"

definition remote_of :: "dpi_rule_key \<Rightarrow> bool \<Rightarrow> u32" where
  "remote_of k g = (if g then k_sip k else k_dip k)"

definition conn_matches :: "addr_env \<Rightarrow> dpi_rule_key \<Rightarrow> bool \<Rightarrow> table_rule \<Rightarrow> bool" where
  "conn_matches env k g r \<longleftrightarrow> rule_matches k g r \<or>
     \<not> dpi_is_ip4_internal env (remote_of k g) \<and> rule_matches (wild_key k g) g r"

definition rule_desc :: "table_rule \<Rightarrow> dpi_policy_desc" where "rule_desc r = (case r of (l, mh, dir, desc) \<Rightarrow> desc)"

definition first_match :: "(table_rule \<Rightarrow> bool) \<Rightarrow> table_rule list \<Rightarrow> dpi_policy_desc \<Rightarrow> dpi_policy_desc" where
  "first_match P rs def = (case find P rs of Some r \<Rightarrow> rule_desc r | None \<Rightarrow> def)"

text \<open>The lookup of this address goes to the tables.\<close>
definition enforced :: "addr_env \<Rightarrow> dpi_policy_hdl \<Rightarrow> bool \<Rightarrow> u32 \<Rightarrow> bool" where
  "enforced env hdl g ip \<longleftrightarrow>
     (if g then \<not> (dpi_is_ip4_internal env ip \<and> h_apply_dir hdl AND DP_POLICY_APPLY_INGRESS = 0 \<and> dpi_ip4_iptype env ip \<noteq> DP_IPTYPE_UWLIP)
      else \<not> (\<not> dpi_is_ip4_internal env ip \<and> dpi_ip4_iptype env ip = DP_IPTYPE_EXTIP) \<and>
           \<not> (dpi_is_ip4_internal env ip \<and> h_apply_dir hdl AND DP_POLICY_APPLY_EGRESS = 0
                  \<and> dpi_ip4_iptype env ip \<noteq> DP_IPTYPE_HOSTIP \<and> dpi_ip4_iptype env ip \<noteq> DP_IPTYPE_UWLIP))"

definition table_flags :: "addr_env \<Rightarrow> u32 \<Rightarrow> byte" where
  "table_flags env ip = (if dpi_is_ip4_internal env ip then POLICY_DESC_INTERNAL else POLICY_DESC_EXTERNAL)"

definition tables_result :: "addr_env \<Rightarrow> dpi_policy_hdl \<Rightarrow> dpi_rule_key \<Rightarrow> bool \<Rightarrow> dpi_policy_desc" where
  "tables_result env hdl k g =
     (if dpi_is_ip4_internal env (remote_of k g) then policy_lookup_key hdl k g
      else policy_desc_merge (policy_lookup_key hdl k g) (policy_lookup_key hdl (wild_key k g) g))"

lemma lookup_enforced:
  assumes "enforced env hdl g (remote_of k g)" "\<not> DPI_POLICY_HAS_FQDN hdl"
  shows "dpi_policy_lookup_by_key env fq (Some hdl) (k_sip k) (k_dip k) (k_dport k) (k_proto k) (k_app k) g desc =
    Some ((tables_result env hdl k g)\<lparr>d_flags := d_flags (tables_result env hdl k g) OR table_flags env (remote_of k g), d_hdl_ver := h_ver hdl\<rparr>)"
proof -
  have k: "\<lparr>k_sip = k_sip k, k_dip = k_dip k, k_dport = k_dport k, k_proto = k_proto k, k_app = k_app k\<rparr> = k" by simp
  have t: "lookup_tables fq hdl k g (remote_of k g) (dpi_is_ip4_internal env (remote_of k g)) =
    Some ((tables_result env hdl k g)\<lparr>d_flags := d_flags (tables_result env hdl k g) OR table_flags env (remote_of k g)\<rparr>)"
    using assms(2) by (simp add: lookup_tables_def Let_def tables_result_def wild_key_def table_flags_def)
  show ?thesis
  proof (cases g)
    case True
    have "\<not> (dpi_is_ip4_internal env (k_sip k) \<and> h_apply_dir hdl AND DP_POLICY_APPLY_INGRESS = 0 \<and> dpi_ip4_iptype env (k_sip k) \<noteq> DP_IPTYPE_UWLIP)"
      using assms(1) True by (simp add: enforced_def remote_of_def)
    then show ?thesis using t True
      unfolding dpi_policy_lookup_by_key_def k Let_def option.case remote_of_def by (simp only: if_True if_False option.map) 
  next
    case False
    have "\<not> (\<not> dpi_is_ip4_internal env (k_dip k) \<and> dpi_ip4_iptype env (k_dip k) = DP_IPTYPE_EXTIP)"
      "\<not> (dpi_is_ip4_internal env (k_dip k) \<and> h_apply_dir hdl AND DP_POLICY_APPLY_EGRESS = 0
                  \<and> dpi_ip4_iptype env (k_dip k) \<noteq> DP_IPTYPE_HOSTIP \<and> dpi_ip4_iptype env (k_dip k) \<noteq> DP_IPTYPE_UWLIP)"
      using assms(1) False by (simp_all add: enforced_def remote_of_def)
    then show ?thesis using t False
      unfolding dpi_policy_lookup_by_key_def k Let_def option.case remote_of_def by (simp only: if_True if_False option.map)
  qed
qed

subsection \<open>One table slot at a time\<close>

text \<open>Descriptors of rules have a positive id; the default has id 0. What adding one rule does to the lookup of one key.\<close>
definition hit :: "dpi_policy_desc \<Rightarrow> bool" where "hit d \<longleftrightarrow> d_id d > 0"

definition tables_ok :: "dpi_policy_hdl \<Rightarrow> bool" where
  "tables_ok hdl \<longleftrightarrow> hdl_inv hdl \<and> (\<forall>k d. exact_of hdl k = Some d \<longrightarrow> hit d) \<and>
     (\<forall>rk. \<forall>i \<in> set (items_of hdl rk). hit (i_desc i)) \<and> (\<forall>k. items_of hdl (nodir_key k) = [])"

lemma lookup_cases:
  assumes "tables_ok hdl"
  shows "\<not> hit (policy_lookup_key hdl k g) \<longleftrightarrow>
      exact_of hdl k = None \<and> find (\<lambda>i. rule_key_in_range i k) (items_of hdl (bucket_key k g)) = None"
    and "\<not> hit (policy_lookup_key hdl k g) \<Longrightarrow> policy_lookup_key hdl k g = default_desc hdl"
proof -
  have "hit (i_desc i)" if "find P (items_of hdl rk) = Some i" for P rk i
    using find_SomeD[OF that] assms unfolding tables_ok_def by blast
  moreover have "\<not> hit (default_desc hdl)" by (simp add: hit_def default_desc_def)
  moreover have nd: "items_of hdl (nodir_key k) = []" using assms unfolding tables_ok_def by blast
  moreover have "hit d" if "exact_of hdl k = Some d" for d using that assms unfolding tables_ok_def by blast
  moreover have "policy_lookup_key hdl k g = (case exact_of hdl k of Some d \<Rightarrow> d
      | None \<Rightarrow> (case find (\<lambda>i. rule_key_in_range i k) (items_of hdl (bucket_key k g)) of Some i \<Rightarrow> i_desc i | None \<Rightarrow> default_desc hdl))"
    unfolding policy_lookup_key_eq nd by (simp split: option.splits)
  ultimately show "\<not> hit (policy_lookup_key hdl k g) \<longleftrightarrow>
      exact_of hdl k = None \<and> find (\<lambda>i. rule_key_in_range i k) (items_of hdl (bucket_key k g)) = None"
    "\<not> hit (policy_lookup_key hdl k g) \<Longrightarrow> policy_lookup_key hdl k g = default_desc hdl"
    by (simp_all split: option.splits)
qed

lemma find_append: "find P (xs @ ys) = (case find P xs of None \<Rightarrow> find P ys | Some x \<Rightarrow> Some x)"
  by (induction xs) auto

lemma add_range_lookup:
  assumes ok: "tables_ok hdl" and d: "hit desc" and dir: "dir \<noteq> POLICY_RULE_DIR_NONE"
    and add: "dpi_range_rule_add False False hdl c l h dir desc ex = (ret, hdl', c', ex')"
  shows "tables_ok hdl'" "default_desc hdl' = default_desc hdl"
    "policy_lookup_key hdl' k g =
       (if \<not> hit (policy_lookup_key hdl k g) \<and> rule_matches k g (l, Some h, dir, desc) then desc else policy_lookup_key hdl k g)"
proof -
  let ?item = "\<lparr>i_desc = desc, i_key_l = l, i_key_h = h\<rparr>"
  have inv: "hdl_inv hdl" using ok by (simp add: tables_ok_def)
  have "tables_ok hdl' \<and> default_desc hdl' = default_desc hdl \<and> policy_lookup_key hdl' k g =
       (if \<not> hit (policy_lookup_key hdl k g) \<and> rule_matches k g (l, Some h, dir, desc) then desc else policy_lookup_key hdl k g)"
  proof (cases "get_range_key l h dir")
    case None
    then show ?thesis using add ok by (simp add: dpi_range_rule_add_def)
  next
    case (Some key)
    note s = range_rule_add_spec[OF inv Some add]
    have dd: "default_desc hdl' = default_desc hdl" using s(4) by (simp add: default_desc_def)
    have nd: "nodir_key j \<noteq> key" for j
      using Some dir by (auto simp: get_range_key_def nodir_key_def DP_RANGE_RULE_INGRESS_def DP_RANGE_RULE_EGRESS_def split: if_splits rule_dir.splits)
    have ok': "tables_ok hdl'"
      using ok s(1) d nd unfolding tables_ok_def s(2) s(3) by (auto split: if_splits)
    have it: "items_of hdl' (bucket_key k g) = items_of hdl (bucket_key k g) @
      (if bucket_key k g = key \<and> find (same_item l h) (items_of hdl key) = None then [?item] else [])" by (rule s(3))
    have nodir: "items_of hdl' (nodir_key k) = []" "items_of hdl (nodir_key k) = []" using ok ok' by (auto simp: tables_ok_def)
    have dup: "find (\<lambda>i. rule_key_in_range i k) (items_of hdl key) \<noteq> None"
      if same: "find (same_item l h) (items_of hdl key) \<noteq> None" and rng: "rule_key_in_range ?item k"
    proof -
      obtain i where "find (same_item l h) (items_of hdl key) = Some i" using same by blast
      then have i: "i \<in> set (items_of hdl key)" "same_item l h i" by (auto dest: find_SomeD)
      then have "rule_key_in_range i k" using rng by (simp add: rule_key_in_range_def same_item_def)
      then show ?thesis using i(1) unfolding find_None_iff by blast
    qed
    show ?thesis
    proof (cases "hit (policy_lookup_key hdl k g)")
      case True
      then have "exact_of hdl k \<noteq> None \<or> find (\<lambda>i. rule_key_in_range i k) (items_of hdl (bucket_key k g)) \<noteq> None"
        using lookup_cases(1)[OF ok, of k g] by metis
      then have "policy_lookup_key hdl' k g = policy_lookup_key hdl k g"
        unfolding policy_lookup_key_eq s(2) it find_append
        by (cases "exact_of hdl k"; cases "find (\<lambda>i. rule_key_in_range i k) (items_of hdl (bucket_key k g))") simp_all
      then show ?thesis using ok' dd True by simp
    next
      case False
      then have none: "exact_of hdl k = None" "find (\<lambda>i. rule_key_in_range i k) (items_of hdl (bucket_key k g)) = None"
        using lookup_cases(1)[OF ok, of k g] by simp_all
      have "policy_lookup_key hdl' k g = (if rule_matches k g (l, Some h, dir, desc) then desc else default_desc hdl)"
      proof (cases "bucket_key k g = key \<and> find (same_item l h) (items_of hdl key) = None")
        case True
        then show ?thesis unfolding policy_lookup_key_eq s(2) it find_append none nodir dd using Some by simp
      next
        case f: False
        have "\<not> rule_matches k g (l, Some h, dir, desc)" using f dup none(2) Some by auto
        moreover have "policy_lookup_key hdl' k g = default_desc hdl"
          unfolding policy_lookup_key_eq s(2) it find_append none nodir dd if_not_P[OF f] by simp
        ultimately show ?thesis by (simp only: if_False)
      qed
      then show ?thesis using ok' dd False lookup_cases(2)[OF ok False] by simp
    qed
  qed
  then show "tables_ok hdl'" "default_desc hdl' = default_desc hdl"
    "policy_lookup_key hdl' k g =
       (if \<not> hit (policy_lookup_key hdl k g) \<and> rule_matches k g (l, Some h, dir, desc) then desc else policy_lookup_key hdl k g)"
    by simp_all
qed

lemma add_exact_lookup:
  assumes ok: "tables_ok hdl" and d: "hit desc"
    and hdl': "hdl' = hdl\<lparr>h_policy_map := rcu_map_add (h_policy_map hdl) rule_hash \<lparr>r_desc = desc, r_key = l\<rparr> l\<rparr>"
  shows "tables_ok hdl'" "default_desc hdl' = default_desc hdl"
    "policy_lookup_key hdl' k g = (if k = l \<and> exact_of hdl k = None then desc else policy_lookup_key hdl k g)"
proof -
  have srt: "rm_sorted (h_policy_map hdl)" using ok by (simp add: tables_ok_def hdl_inv_def)
  have m: "rule_match \<lparr>r_desc = desc, r_key = l\<rparr> l" by (simp add: rule_match_def)
  have e: "exact_of hdl' k = (if k = l \<and> exact_of hdl k = None then Some desc else exact_of hdl k)" for k
    using pmap.lookup_add[OF srt m, of k]
    by (auto simp: hdl' exact_of_def rule_match_def split: option.splits)
  have i: "items_of hdl' rk = items_of hdl rk" for rk by (simp add: hdl' items_of_def)
  show dd: "default_desc hdl' = default_desc hdl" by (simp add: hdl' default_desc_def)
  show "policy_lookup_key hdl' k g = (if k = l \<and> exact_of hdl k = None then desc else policy_lookup_key hdl k g)"
    unfolding policy_lookup_key_eq e i dd by (auto split: option.splits)
  have "hdl_inv hdl'" using ok by (simp add: tables_ok_def hdl_inv_def hdl' rm_sorted_add)
  then show "tables_ok hdl'" using ok d unfolding tables_ok_def e i by auto
qed

subsection \<open>The whole lookup is a first match\<close>

lemma merge_hit: "policy_desc_merge a b = (if hit b \<and> d_order b < d_order a then b else a)"
  by (simp add: policy_desc_merge_def hit_def)

lemma merge_later:
  assumes a: "hit a \<Longrightarrow> d_order a < n" and b: "hit b \<Longrightarrow> d_order b < n" and d: "d_order d = n" "n < 0xffffffff"
    and na: "\<not> hit a \<Longrightarrow> d_order a = 0xffffffff" and m: "hit (policy_desc_merge a b)"
  shows "policy_desc_merge (if \<not> hit a \<and> P then d else a) (if \<not> hit b \<and> Q then d else b) = policy_desc_merge a b"
proof (cases "hit a")
  case True
  then have "\<not> n < d_order a" using a by (metis order.asym)
  then show ?thesis using True d(1) by (simp add: merge_hit)
next
  case False
  then have hb: "hit b" using m by (auto simp: merge_hit split: if_splits)
  have "d_order b < 0xffffffff" using less_trans[OF b[OF hb] d(2)] .
  then show ?thesis using b[OF hb] d(1) na[OF False] hb False by (simp add: merge_hit)
qed

lemma merge_none:
  assumes m: "\<not> hit (policy_desc_merge a b)" and "\<not> hit a \<Longrightarrow> d_order a = 0xffffffff" "hit b \<Longrightarrow> d_order b < 0xffffffff"
  shows "\<not> hit a" "\<not> hit b"
proof -
  show na: "\<not> hit a" using m by (auto simp: merge_hit split: if_splits)
  show "\<not> hit b" using m assms(2)[OF na] assms(3) by (auto simp: merge_hit)
qed

lemma wild_wild [simp]: "wild_key (wild_key k g) g = wild_key k g" by (simp add: wild_key_def)

lemma remote_wild [simp]: "remote_of (wild_key k g) g = 0" by (simp add: wild_key_def remote_of_def)

lemma tables_result_wild: "tables_result env hdl (wild_key k g) g = policy_lookup_key hdl (wild_key k g) g"
  by (simp add: tables_result_def policy_desc_merge_def)

text \<open>Everything a lookup uses of the handle besides the tables.\<close>
definition same_cfg :: "dpi_policy_hdl \<Rightarrow> dpi_policy_hdl \<Rightarrow> bool" where
  "same_cfg a b \<longleftrightarrow> same_hdl a b \<and> h_flag a = h_flag b"

definition dir_of :: "bool \<Rightarrow> rule_dir" where
  "dir_of g = (if g then POLICY_RULE_DIR_INGRESS else POLICY_RULE_DIR_EGRESS)"

lemma add_one_exact:
  assumes ok: "tables_ok hdl" and d: "hit desc" and fqdn: "\<not> DPI_POLICY_HAS_FQDN hdl" and fq: "fq_inv fq"
    and enf: "enforced env hdl g (remote_of k g)" and dir: "l = k \<Longrightarrow> dir = dir_of g"
    and tr: "\<not> hit (tables_result env hdl k g) \<Longrightarrow> \<not> hit (policy_lookup_key hdl k g)"
    and add: "dpi_rule_add_one env fq False False hdl c l None dir desc ex = Some (ret, hdl', c', ex')"
  shows "policy_lookup_key hdl' k g =
    (if l = k \<and> \<not> hit (tables_result env hdl k g) then desc else policy_lookup_key hdl k g)"
proof -
  let ?new = "hdl\<lparr>h_policy_map := rcu_map_add (h_policy_map hdl) rule_hash \<lparr>r_desc = desc, r_key = l\<rparr> l\<rparr>"
  have cases: "hdl' = hdl \<or> hdl' = ?new" using add by (auto simp: dpi_rule_add_one_def split: if_splits bind_splits)
  show ?thesis
  proof (cases "l = k")
    case False
    then show ?thesis using cases add_exact_lookup(3)[OF ok d refl] by auto
  next
    case True
    have g: "(dir = POLICY_RULE_DIR_INGRESS) = g" using dir[OF True] by (simp add: dir_of_def)
    note lk = lookup_enforced[OF enf fqdn, of fq ex]
    have "hdl' = (if hit (tables_result env hdl k g) then hdl else ?new)"
      using add lk unfolding dpi_rule_add_one_def option.case g True
      by (auto simp: hit_def word_neq_0_conv split: if_splits)
    then show ?thesis using True add_exact_lookup(3)[OF ok d refl, of l k g] tr lookup_cases(1)[OF ok, of k g] by auto
  qed
qed

lemma default_desc_facts [simp]: "d_order (default_desc hdl) = 0xffffffff" "\<not> hit (default_desc hdl)"
  by (simp_all add: default_desc_def hit_def)

lemma same_cfgD:
  assumes "same_cfg hdl hdl'"
  shows "enforced env hdl' g ip = enforced env hdl g ip" "DPI_POLICY_HAS_FQDN hdl' = DPI_POLICY_HAS_FQDN hdl"
    "default_desc hdl' = default_desc hdl" "h_ver hdl' = h_ver hdl"
  using assms by (auto simp: same_cfg_def same_hdl_def enforced_def DPI_POLICY_HAS_FQDN_def default_desc_def)

lemma add_one_cfg:
  assumes ok: "tables_ok hdl" and d: "hit desc" and dir: "dir \<noteq> POLICY_RULE_DIR_NONE"
    and add: "dpi_rule_add_one env fq False False hdl c l mh dir desc ex = Some (ret, hdl', c', ex')"
  shows "tables_ok hdl'" "same_cfg hdl hdl'"
proof -
  have "tables_ok hdl' \<and> same_cfg hdl hdl'"
  proof (cases mh)
    case None
    let ?new = "hdl\<lparr>h_policy_map := rcu_map_add (h_policy_map hdl) rule_hash \<lparr>r_desc = desc, r_key = l\<rparr> l\<rparr>"
    have "hdl' = hdl \<or> hdl' = ?new" using add None by (auto simp: dpi_rule_add_one_def split: if_splits bind_splits)
    then show ?thesis using ok add_exact_lookup(1)[OF ok d refl] by (auto simp: same_cfg_def same_hdl_def)
  next
    case (Some h)
    then have r: "dpi_range_rule_add False False hdl c l h dir desc ex = (ret, hdl', c', ex')" using add by (simp add: dpi_rule_add_one_def)
    have "h_flag hdl' = h_flag hdl" using r by (auto simp: dpi_range_rule_add_def Let_def split: option.splits if_splits)
    then show ?thesis using add_range_lookup(1)[OF ok d dir r] range_rule_add_same[OF r] by (simp add: same_cfg_def)
  qed
  then show "tables_ok hdl'" "same_cfg hdl hdl'" by simp_all
qed

text \<open>One rule, seen from one connection.\<close>
lemma add_one_result:
  assumes ok: "tables_ok hdl" and d: "hit desc" and dir: "dir \<noteq> POLICY_RULE_DIR_NONE"
    and fqdn: "\<not> DPI_POLICY_HAS_FQDN hdl" and fq: "fq_inv fq"
    and enf: "enforced env hdl g (remote_of k g)" "enforced env hdl g 0"
    and ex_dir: "mh = None \<Longrightarrow> l \<in> {k, wild_key k g} \<Longrightarrow> dir = dir_of g"
    and ord: "\<And>k. hit (policy_lookup_key hdl k g) \<Longrightarrow> d_order (policy_lookup_key hdl k g) < d_order desc" "d_order desc < 0xffffffff"
    and add: "dpi_rule_add_one env fq False False hdl c l mh dir desc ex = Some (ret, hdl', c', ex')"
  shows "tables_result env hdl' k g = (if hit (tables_result env hdl k g) then tables_result env hdl k g
     else if conn_matches env k g (l, mh, dir, desc) then desc else default_desc hdl)"
proof -
  let ?w = "wild_key k g" and ?T = "tables_result env hdl k g"
  let ?A = "policy_lookup_key hdl k g" and ?B = "policy_lookup_key hdl ?w g"
  have def: "d_order (policy_lookup_key hdl k g) = 0xffffffff" if "\<not> hit (policy_lookup_key hdl k g)" for k
    using lookup_cases(2)[OF ok that] by simp
  have ordm: "d_order (policy_lookup_key hdl k g) < 0xffffffff" if "hit (policy_lookup_key hdl k g)" for k
    using less_trans[OF ord(1)[OF that] ord(2)] .
  have tr: "\<not> hit ?A" if "\<not> hit ?T"
    using that merge_none(1)[OF _ def ordm, of k ?w] by (auto simp: tables_result_def split: if_splits)
  have A: "policy_lookup_key hdl' k g = (if \<not> hit ?A \<and> (rule_matches k g (l, mh, dir, desc) \<and> (mh = None \<longrightarrow> \<not> hit ?T)) then desc else ?A)"
  proof (cases mh)
    case None
    then show ?thesis using add_one_exact[OF ok d fqdn fq enf(1) _ tr add[unfolded None]] ex_dir tr by auto
  next
    case (Some h)
    then have r: "dpi_range_rule_add False False hdl c l h dir desc ex = (ret, hdl', c', ex')" using add by (simp add: dpi_rule_add_one_def)
    show ?thesis using add_range_lookup(3)[OF ok d dir r, of k g] Some by simp
  qed
  have B: "policy_lookup_key hdl' ?w g = (if \<not> hit ?B \<and> rule_matches ?w g (l, mh, dir, desc) then desc else ?B)"
  proof (cases mh)
    case None
    have "policy_lookup_key hdl' ?w g = (if l = ?w \<and> \<not> hit (tables_result env hdl ?w g) then desc else ?B)"
      using add[unfolded None] enf(2) ex_dir[OF None]
      by (intro add_one_exact[OF ok d fqdn fq]) (simp_all add: tables_result_wild)
    then show ?thesis using None by (auto simp: tables_result_wild)
  next
    case (Some h)
    then have r: "dpi_range_rule_add False False hdl c l h dir desc ex = (ret, hdl', c', ex')" using add by (simp add: dpi_rule_add_one_def)
    show ?thesis using add_range_lookup(3)[OF ok d dir r, of ?w g] Some by simp
  qed
  show ?thesis
  proof (cases "dpi_is_ip4_internal env (remote_of k g)")
    case True
    then show ?thesis using A lookup_cases(2)[OF ok, of k g] by (auto simp: tables_result_def conn_matches_def)
  next
    case False
    then have T: "?T = policy_desc_merge ?A ?B" and T': "tables_result env hdl' k g =
        policy_desc_merge (policy_lookup_key hdl' k g) (policy_lookup_key hdl' ?w g)" by (simp_all add: tables_result_def)
    show ?thesis
    proof (cases "hit ?T")
      case True
      then show ?thesis unfolding T' A B using merge_later[OF ord(1) ord(1) refl ord(2) def, of k ?w] T by simp
    next
      case miss: False
      have ab: "\<not> hit ?A" "\<not> hit ?B" using merge_none[OF _ def ordm, of k ?w] miss T by auto
      have a': "policy_lookup_key hdl' k g = (if rule_matches k g (l, mh, dir, desc) then desc else default_desc hdl)"
        unfolding A lookup_cases(2)[OF ok ab(1)] using miss by simp
      have b': "policy_lookup_key hdl' ?w g = (if rule_matches ?w g (l, mh, dir, desc) then desc else default_desc hdl)"
        unfolding B lookup_cases(2)[OF ok ab(2)] by simp
      have m: "policy_desc_merge (default_desc hdl) desc = desc" "policy_desc_merge x x = x" "policy_desc_merge desc (default_desc hdl) = desc" for x
        using d ord(2) by (auto simp: policy_desc_merge_def hit_def default_desc_def)
      show ?thesis unfolding T' a' b' using miss False by (simp add: conn_matches_def m)
    qed
  qed
qed

text \<open>What the theorem asks of a list of rules: each is for a direction and has an id, and they are numbered in
  order.\<close>
definition rules_ok :: "table_rule list \<Rightarrow> bool" where
  "rules_ok rs \<longleftrightarrow> (\<forall>r \<in> set rs. case r of (l, mh, dir, desc) \<Rightarrow> dir \<noteq> POLICY_RULE_DIR_NONE \<and> d_id desc > 0 \<and> d_order desc < 0xffffffff) \<and>
     sorted_wrt (\<lambda>r r'. d_order (rule_desc r) < d_order (rule_desc r')) rs"

text \<open>An exact rule for this connection is a rule of its direction.\<close>
definition exact_dirs :: "dpi_rule_key \<Rightarrow> bool \<Rightarrow> table_rule list \<Rightarrow> bool" where
  "exact_dirs k g rs \<longleftrightarrow> (\<forall>r \<in> set rs. case r of (l, mh, dir, desc) \<Rightarrow> mh = None \<and> l \<in> {k, wild_key k g} \<longrightarrow> dir = dir_of g)"

lemma lookup_orders:
  assumes ok: "tables_ok hdl" and d: "hit desc" and dir: "dir \<noteq> POLICY_RULE_DIR_NONE"
    and add: "dpi_rule_add_one env fq False False hdl c l mh dir desc ex = Some (ret, hdl', c', ex')"
  shows "policy_lookup_key hdl' k g \<in> {policy_lookup_key hdl k g, desc}"
proof (cases mh)
  case None
  let ?new = "hdl\<lparr>h_policy_map := rcu_map_add (h_policy_map hdl) rule_hash \<lparr>r_desc = desc, r_key = l\<rparr> l\<rparr>"
  have "hdl' = hdl \<or> hdl' = ?new" using add None by (auto simp: dpi_rule_add_one_def split: if_splits bind_splits)
  then show ?thesis using add_exact_lookup(3)[OF ok d refl, of l k g] by auto
next
  case (Some h)
  then have r: "dpi_range_rule_add False False hdl c l h dir desc ex = (ret, hdl', c', ex')" using add by (simp add: dpi_rule_add_one_def)
  show ?thesis using add_range_lookup(3)[OF ok d dir r, of k g] by auto
qed

lemma add_rules_result:
  assumes "tables_ok hdl" "\<not> DPI_POLICY_HAS_FQDN hdl" "fq_inv fq" "enforced env hdl g (remote_of k g)" "enforced env hdl g 0"
    "rules_ok rs" "exact_dirs k g rs"
    "\<And>k r. hit (policy_lookup_key hdl k g) \<Longrightarrow> r \<in> set rs \<Longrightarrow> d_order (policy_lookup_key hdl k g) < d_order (rule_desc r)"
  shows "\<exists>hdl' c'. add_rules env fq rs hdl c = Some (hdl', c') \<and> tables_ok hdl' \<and> same_cfg hdl hdl' \<and>
    tables_result env hdl' k g = (if hit (tables_result env hdl k g) then tables_result env hdl k g
       else first_match (conn_matches env k g) rs (default_desc hdl))"
  using assms
proof (induction rs arbitrary: hdl c)
  case Nil
  have "tables_result env hdl k g = default_desc hdl" if "\<not> hit (tables_result env hdl k g)"
    using that lookup_cases(2)[OF Nil.prems(1)] by (auto simp: tables_result_def merge_hit split: if_splits)
  then show ?case using Nil.prems(1) by (simp add: first_match_def same_cfg_def)
next
  case (Cons r rs)
  obtain l mh dir desc where r: "r = (l, mh, dir, desc)" by (metis prod_cases4)
  have d: "hit desc" "dir \<noteq> POLICY_RULE_DIR_NONE" "d_order desc < 0xffffffff"
    "\<And>r'. r' \<in> set rs \<Longrightarrow> d_order desc < d_order (rule_desc r')" "rules_ok rs" "exact_dirs k g rs"
    using Cons.prems(6,7) r by (auto simp: rules_ok_def exact_dirs_def hit_def rule_desc_def)
  obtain ret h1 c1 ex1 where add: "dpi_rule_add_one env fq False False hdl c l mh dir desc zero_desc = Some (ret, h1, c1, ex1)"
    using rule_add_one_same[OF Cons.prems(3)] by blast
  note cfg = add_one_cfg[OF Cons.prems(1) d(1,2) add] and D = same_cfgD[OF add_one_cfg(2)[OF Cons.prems(1) d(1,2) add]]
  have one: "tables_result env h1 k g = (if hit (tables_result env hdl k g) then tables_result env hdl k g
     else if conn_matches env k g r then desc else default_desc hdl)"
    unfolding r
  proof (rule add_one_result[OF Cons.prems(1) d(1,2) Cons.prems(2-5) _ _ d(3) add])
    show "dir = dir_of g" if "mh = None" "l \<in> {k, wild_key k g}" using that Cons.prems(7) r by (simp add: exact_dirs_def)
    show "d_order (policy_lookup_key hdl k g) < d_order desc" if "hit (policy_lookup_key hdl k g)" for k
      using Cons.prems(8)[OF that, of r] r by (simp add: rule_desc_def)
  qed
  have ord: "d_order (policy_lookup_key h1 k g) < d_order (rule_desc r')" if "hit (policy_lookup_key h1 k g)" "r' \<in> set rs" for k r'
    using lookup_orders[OF Cons.prems(1) d(1,2) add, of k g] that Cons.prems(8)[of k r'] d(4)[OF that(2)] by auto
  have e: "enforced env h1 g (remote_of k g)" "enforced env h1 g 0" "\<not> DPI_POLICY_HAS_FQDN h1"
    using Cons.prems(2,4,5) D(1,2) by simp_all
  have "\<exists>h2 c2. add_rules env fq rs h1 c1 = Some (h2, c2) \<and> tables_ok h2 \<and> same_cfg h1 h2 \<and>
    tables_result env h2 k g = (if hit (tables_result env h1 k g) then tables_result env h1 k g
       else first_match (conn_matches env k g) rs (default_desc h1))"
    by (rule Cons.IH[OF cfg(1) e(3) Cons.prems(3) e(1,2) d(5,6)]) (rule ord)
  then obtain h2 c2 where 2: "add_rules env fq rs h1 c1 = Some (h2, c2)" "tables_ok h2" "same_cfg h1 h2"
    "tables_result env h2 k g = (if hit (tables_result env h1 k g) then tables_result env h1 k g
       else first_match (conn_matches env k g) rs (default_desc h1))"
    by blast
  have "same_cfg hdl h2" using cfg(2) 2(3) same_hdl_trans[of hdl h1 h2] by (simp add: same_cfg_def)
  moreover have "add_rules env fq (r # rs) hdl c = Some (h2, c2)" using add 2(1) r by simp
  moreover have "tables_result env h2 k g = (if hit (tables_result env hdl k g) then tables_result env hdl k g
       else first_match (conn_matches env k g) (r # rs) (default_desc hdl))"
    unfolding 2(4) one D(3) using d(1) by (simp add: first_match_def r rule_desc_def)
  ultimately show ?case using 2(2) by blast
qed

text \<open>C4. First match. Take a new policy handle, any settings of its direction and version, and add any list of
  rules to it, exact and range rules in any mixture, numbered in order. Then the verdict for a connection whose
  remote side is subject to the policy is that of the first rule in the list that matches the connection - its own
  key, or for a remote address outside the internal subnets also the key with that address replaced by the
  wildcard 0 - and the default action of the handle if there is none. The hash table, the buckets, the test for an
  existing rule before an insertion, and the merge of two lookups by their order do not change that. Exact
  rules carry no direction in the table, so those for this very key have to be rules of this direction.\<close>
theorem policy_first_match:
  assumes init: "dpi_policy_hdl_init True act = Some h0" and hdl: "hdl = h0\<lparr>h_apply_dir := dir, h_ver := ver\<rparr>"
    and rules: "rules_ok rs" "exact_dirs k g rs" and fq: "fq_inv fq"
    and enf: "enforced env hdl g (remote_of k g)" "enforced env hdl g 0"
  shows "\<exists>hdl' c'. add_rules env fq rs hdl c = Some (hdl', c') \<and>
    (let m = first_match (conn_matches env k g) rs (default_desc hdl)
     in dpi_policy_lookup_by_key env fq (Some hdl') (k_sip k) (k_dip k) (k_dport k) (k_proto k) (k_app k) g d0 =
          Some (m\<lparr>d_flags := d_flags m OR table_flags env (remote_of k g), d_hdl_ver := ver\<rparr>))"
proof -
  have maps: "h_policy_map hdl = rcu_map_init" "h_range_policy_map hdl = rcu_map_init" "h_flag hdl = 0" "h_ver hdl = ver"
    using init hdl by (auto simp: dpi_policy_hdl_init_def)
  have e: "exact_of hdl k = None" "items_of hdl rk = []" for k rk
    by (simp_all add: exact_of_def items_of_def maps pmap.lookup_init rmap.lookup_init)
  have ok: "tables_ok hdl" by (simp add: tables_ok_def hdl_inv_def maps e)
  have nf: "\<not> DPI_POLICY_HAS_FQDN hdl" by (simp add: DPI_POLICY_HAS_FQDN_def maps)
  have lk: "policy_lookup_key hdl k g = default_desc hdl" for k by (simp add: policy_lookup_key_eq e)
  have tr: "tables_result env hdl k g = default_desc hdl" by (simp add: tables_result_def lk policy_desc_merge_def)
  have ord: "d_order (policy_lookup_key hdl k g) < d_order (rule_desc r)" if "hit (policy_lookup_key hdl k g)" for k r
    using that by (simp add: lk)
  obtain h' c' where a: "add_rules env fq rs hdl c = Some (h', c')" "same_cfg hdl h'"
    "tables_result env h' k g = first_match (conn_matches env k g) rs (default_desc hdl)"
    using add_rules_result[OF ok nf fq enf rules ord, of c] unfolding tr by auto
  show ?thesis
    using a(1) lookup_enforced[of env h' g k fq d0] enf(1) nf unfolding Let_def a(3) same_cfgD[OF a(2)] maps(4) by simp
qed

text \<open>Two rules for one server port: a range that covers it, then an exact rule; the range was first.\<close>
definition web_key :: dpi_rule_key where
  "web_key = \<lparr>k_sip = 1, k_dip = 2, k_dport = 80, k_proto = 6, k_app = 0\<rparr>"

definition web_rules :: "table_rule list" where
  "web_rules = [(web_key\<lparr>k_dport := 1\<rparr>, Some (web_key\<lparr>k_dport := 100\<rparr>), POLICY_RULE_DIR_INGRESS, zero_desc\<lparr>d_id := 7, d_order := 1, d_action := 2\<rparr>),
    (web_key, None, POLICY_RULE_DIR_INGRESS, zero_desc\<lparr>d_id := 8, d_order := 2, d_action := 5\<rparr>)]"

definition hdl_one :: dpi_policy_hdl where
  "hdl_one = the (dpi_policy_hdl_init True 5)"

theorem policy_first_match_witness:
  "\<exists>hdl' c'. add_rules env_one fq_empty web_rules (hdl_one\<lparr>h_apply_dir := 3, h_ver := 1\<rparr>) \<lparr>type1_rules = 0, type2_rules = 0\<rparr> = Some (hdl', c') \<and>
     (\<exists>d. dpi_policy_lookup_by_key env_one fq_empty (Some hdl') 1 2 80 6 0 True zero_desc = Some d \<and> d_id d = 7 \<and> d_action d = 2)"
proof -
  let ?h = "hdl_one\<lparr>h_apply_dir := 3, h_ver := 1\<rparr>"
  have init: "dpi_policy_hdl_init True 5 = Some hdl_one" by (simp add: hdl_one_def dpi_policy_hdl_init_def)
  have r: "rules_ok web_rules" "exact_dirs web_key True web_rules"
    by (auto simp: rules_ok_def web_rules_def rule_desc_def zero_desc_def exact_dirs_def dir_of_def)
  have e: "enforced env_one ?h True (remote_of web_key True)" "enforced env_one ?h True 0"
    by (simp_all add: enforced_def env_one_def dpi_is_ip4_internal_def DP_POLICY_APPLY_INGRESS_def)
  have m: "first_match (conn_matches env_one web_key True) web_rules (default_desc ?h) = zero_desc\<lparr>d_id := 7, d_order := 1, d_action := 2\<rparr>"
    by code_simp
  obtain h' c' where a: "add_rules env_one fq_empty web_rules ?h \<lparr>type1_rules = 0, type2_rules = 0\<rparr> = Some (h', c')"
    and l: "dpi_policy_lookup_by_key env_one fq_empty (Some h') (k_sip web_key) (k_dip web_key) (k_dport web_key) (k_proto web_key) (k_app web_key) True zero_desc =
      Some ((zero_desc\<lparr>d_id := 7, d_order := 1, d_action := 2\<rparr>)\<lparr>d_flags := d_flags (zero_desc\<lparr>d_id := 7, d_order := 1, d_action := 2\<rparr>) OR
         table_flags env_one (remote_of web_key True), d_hdl_ver := 1\<rparr>)"
    using policy_first_match[OF init refl r fq_reachable_inv[OF fq_empty_reachable] e, of "\<lparr>type1_rules = 0, type2_rules = 0\<rparr>" zero_desc]
    unfolding m Let_def by (elim exE conjE) (rule that)
  show ?thesis using a l by (intro exI[of _ h'] exI[of _ c']) (simp add: web_key_def)
qed

end
