(* ===== verification/Spec2Isabelle.thy ===== *)
theory Spec2Isabelle
  imports DP_Asm DP_Asn1 DP_Asn1Props DP_Bitmap DP_Cksum DP_Fqdn DP_FqdnDel DP_FqdnInv DP_Frag
    DP_Helper DP_Log DP_Packet DP_PacketProps DP_Parser DP_ParserProps DP_Parsers
    DP_ParsersProps DP_Policy DP_PolicyCfg DP_PolicyProps DP_PolicyTable DP_Prelude DP_RcuMap
    DP_TimerWheel DP_Tree DP_Types
begin

text \<open>
  This development models the data path of NeuVector, the C program under \<open>src/dp\<close> that inspects the packets of
  containers. The model is a shallow embedding: a C function is a HOL function of the same name where possible;
  a structure is a record, an integer a word of its width with its wrap-around, a buffer a list of bytes; mutated
  state is passed and returned; a result \<^term>\<open>None\<close> of an operation stands for an access outside of an object, to
  freed memory or through a null pointer, so that a theorem that ends in \<open>\<exists>r. f x = Some r\<close> is a memory safety
  statement. Allocation failures are boolean arguments. Loops that are not structurally recursive are partial
  functions whose termination is proved.

  \<^bold>\<open>Utilities\<close> (\<open>src/dp/utils\<close>).
  \<^item> \<open>DP_Prelude\<close>: the types and the generic lemmas on lists and words.
  \<^item> \<open>DP_Bitmap\<close> (\<open>bitmap.c\<close>): the bitmap allocator of FQDN codes; it hands out the next free position.
  \<^item> \<open>DP_Helper\<close> (\<open>helper.c\<close>, \<open>helper.h\<close>): comparison of wrapping sequence numbers, byte order, hashing, and
    the scanners of lines and tokens.
  \<^item> \<open>DP_RcuMap\<close> (\<open>rcu_map.c\<close>): the hash map, a list ordered by reversed hash as in the lock-free table it
    wraps. The locale \<open>first_match_store\<close> states what its clients rely on; it is interpreted for every table.
  \<^item> \<open>DP_TimerWheel\<close> (\<open>timer_wheel.c\<close>, \<open>timer_queue.c\<close>): slots of entries with a deadline; rolling runs exactly
    what is due.
  \<^item> \<open>DP_Tree\<close> (\<open>tree.c\<close>): the search tree and its cursor walks; a C node pointer is a zipper location. The locale
    \<open>search_order\<close> states what a comparison has to satisfy.
  \<^item> \<open>DP_Asm\<close> (\<open>asm.c\<close>): the reassembly cache of TCP segments and IP fragments, an interpretation of
    \<open>search_order\<close> for wrapping sequence numbers in one half of the number space.

  \<^bold>\<open>Policy\<close> (\<open>src/dp/dpi/dpi_policy.c\<close>, address classes of \<open>dpi_entry.c\<close>).
  \<^item> \<open>DP_PolicyTable\<close>: the exact and the range rule tables of a policy handle, and the lookup of one key.
  \<^item> \<open>DP_Fqdn\<close>, \<open>DP_FqdnInv\<close>, \<open>DP_FqdnDel\<close>: the tables of domain names and their addresses: configuration, DNS
    snooping, marking and purging, with an invariant of every reachable state.
  \<^item> \<open>DP_Types\<close>: the structures of packets and sessions.
  \<^item> \<open>DP_Policy\<close>: the lookup of a connection, the unknown address cache, and the reevaluation of sessions.
  \<^item> \<open>DP_PolicyCfg\<close>: configuration messages and the life of shared policy handles: memory safety, exact
    reference counts.
  \<^item> \<open>DP_PolicyProps\<close>: the tables refine a plain list of rules read by first match.

  \<^bold>\<open>Packets\<close> (\<open>src/dp/dpi\<close>).
  \<^item> \<open>DP_Log\<close> (\<open>dpi_log.c\<close>): threat records, the cache that merges them and its timers; every detection is
    reported or pending exactly once.
  \<^item> \<open>DP_Cksum\<close> (\<open>dpi_packet.c\<close>): the Internet checksums, and that a header with its own checksum verifies.
  \<^item> \<open>DP_Frag\<close> (\<open>dpi_frag.c\<close>): fragment reassembly; in any order of arrival the last fragment yields the datagram. The
    locale \<open>first_match_store\<close> is interpreted for its table.
  \<^item> \<open>DP_Packet\<close>, \<open>DP_PacketProps\<close> (\<open>dpi_packet.c\<close>): the header parsers; they stay inside the memory of the frame, an accepted
    frame is well-formed, a bad one is dropped.
  \<^item> \<open>DP_Asn1\<close>, \<open>DP_Asn1Props\<close> (\<open>utils/asn1.c\<close>): the BER readers; they stay in their buffer, and they read back
    what the distinguished encoding of a header or an object identifier wrote.
  \<^item> \<open>DP_Parser\<close>, \<open>DP_ParserProps\<close> (\<open>dpi/dpi_parser.c\<close>, the applications of \<open>dpi/dpi_entry.c\<close>): hiring, running,
    finalizing and firing the protocol parsers. The contract of a parser is the locale \<open>parser_ok\<close>; from it alone the
    framework's arbitration is shown to keep the session consistent.
  \<^item> \<open>DP_Parsers\<close>, \<open>DP_ParsersProps\<close> (\<open>dpi/parsers/\<close>): echo, DHCP, NTP, TFTP, SSH, Redis, MongoDB, Cassandra and PostgreSQL.
    Each of them is an interpretation of \<open>parser_ok\<close>; six of them are shown to stay inside their payload.

  \<^bold>\<open>Fuel and bounds.\<close> No definition uses fuel. Theorems over wrapping counters carry the bound they need as a
  hypothesis (sequence numbers in one half of the space, fewer than 65535 endpoints, ticks that do not overflow
  32 bits); each is far above what the program reaches and each has a witness.

  \<^bold>\<open>Not modelled.\<close> Concurrency (the read-copy-update discipline of the tables is taken sequentially); debug output and
  counters that only feed it; system calls, sockets, netlink and the JSON control protocol (\<open>ctrl.c\<close>, \<open>pkt.c\<close>,
  \<open>nfq.c\<close>, \<open>ring.c\<close>, \<open>main.c\<close>); signature matching with the external regular expression libraries (\<open>sig/\<close>); the
  application protocol parsers that are not named above; the monitor, scanner and tool programs outside of
  \<open>src/dp\<close>.
\<close>

end
